(* ===== verification/Prelude.thy ===== *)
theory Prelude
  imports Main "HOL-Library.Word"
begin

text \<open>
  Shared vocabulary of the PhoenixIPC development: machine integers, the byte-addressed
  memory in which the shared segment lives, the object representation of the C++ types
  stored there, and the generic facts on words and memories the component theories use.
\<close>

unbundle bit_operations_syntax

section \<open>Machine integers\<close>

type_synonym u8 = "8 word"
type_synonym u16 = "16 word"
type_synonym u32 = "32 word"
type_synonym u64 = "64 word"

text \<open>A process id is a signed 32-bit integer.\<close>

type_synonym pid = "32 word"

named_theorems mem_simps \<open>reads over writes in the byte memory\<close>
named_theorems idx_simps \<open>differences of 64-bit indices\<close>

lemma unat_of_nat_u64 [idx_simps]: "n < 2 ^ 64 \<Longrightarrow> unat (of_nat n :: u64) = n"
  by (simp add: unat_of_nat take_bit_eq_mod)

lemma u64_of_nat_diff [idx_simps]:
  "a \<le> b \<Longrightarrow> (of_nat b :: u64) - of_nat a = of_nat (b - a)"
  by simp

lemma unat_idx_diff:
  assumes "a \<le> b" and "b - a < 2 ^ 64"
  shows "unat ((of_nat b :: u64) - of_nat a) = b - a"
  using assms by (simp only: u64_of_nat_diff unat_of_nat_u64)

lemma unat_u64_bound [simp]: "unat (w :: u64) < 18446744073709551616"
  using unsigned_less [of w] by simp

lemma unat_u64_lt: "unat (w :: u64) < 2 ^ 64"
  by simp

lemma unat_add_small_u64:
  "unat (a :: u64) + unat b < 2 ^ 64 \<Longrightarrow> unat (a + b) = unat a + unat b"
  by (simp add: unat_word_ariths)

lemma unat_mult_small_u64:
  "unat (a :: u64) * unat b < 2 ^ 64 \<Longrightarrow> unat (a * b) = unat a * unat b"
  by (simp add: unat_word_ariths)

lemma unat_diff_idx:
  "unat ((w :: u64) - r) = (if r \<le> w then unat w - unat r else 2 ^ 64 + unat w - unat r)"
  by (auto simp: unat_sub_if' word_le_nat_alt)

lemma unat_add_diff_u64:
  fixes w r :: u64
  assumes "unat (w - r) < 2 ^ 64 - 1"
  shows "unat (w + 1 - r) = Suc (unat (w - r))"
proof -
  have "w + 1 - r = (w - r) + 1" by simp
  moreover have "unat ((w - r) + 1) = unat (w - r) + unat (1 :: u64)"
    using assms by (intro unat_add_small_u64) simp
  ultimately show ?thesis by (simp only: unsigned_1)
qed

lemma unat_diff_advance_u64:
  fixes w r c :: u64
  assumes "unat c \<le> unat (w - r)"
  shows "unat (w - (r + c)) = unat (w - r) - unat c"
proof -
  have "w - (r + c) = (w - r) - c" by simp
  moreover have "c \<le> w - r" using assms by (simp add: word_le_nat_alt)
  ultimately show ?thesis by (simp only: unat_sub)
qed

subsection \<open>Powers of two\<close>

definition is_pow2 :: "u64 \<Rightarrow> bool" where
  "is_pow2 c \<longleftrightarrow> 0 < c \<and> c AND (c - 1) = 0"

lemma bit_of_interval:
  fixes x :: u64
  assumes "2 ^ k \<le> unat x" and "unat x < 2 ^ Suc k"
  shows "bit x k"
proof -
  have "unat x div 2 ^ k = 1"
    using assms by (intro div_nat_eqI) auto
  then have "odd (unat x div 2 ^ k)" by simp
  then have "bit (unat x) k" by (rule bit_iff_odd [THEN iffD2])
  then show ?thesis by (simp add: bit_unsigned_iff)
qed

lemma is_pow2_exponent:
  assumes "is_pow2 c"
  obtains k where "k < 64" and "unat c = 2 ^ k"
proof -
  have pos: "1 \<le> unat c"
    using assms by (simp add: is_pow2_def word_less_nat_alt)
  then obtain k where k: "2 ^ k \<le> unat c" "unat c < 2 ^ (k + 1)"
    using ex_power_ivl1 [of 2 "unat c"] by auto
  have "(2::nat) ^ k < 2 ^ 64" using le_less_trans [OF k(1) unat_u64_bound] by simp
  then have "k < 64" by (rule power_less_imp_less_exp [rotated]) simp
  moreover have "unat c = 2 ^ k"
  proof (rule ccontr)
    assume "unat c \<noteq> 2 ^ k"
    then have lt: "2 ^ k \<le> unat c - 1" using k(1) by simp
    have "(1::u64) \<le> c" using pos by (simp add: word_le_nat_alt)
    then have "unat (c - 1) = unat c - 1" by (simp add: unat_sub)
    then have "bit (c - 1) k" using lt k(2) by (intro bit_of_interval) auto
    moreover have "bit c k" using k by (intro bit_of_interval) auto
    ultimately have "bit (c AND (c - 1)) k" by (simp add: bit_and_iff)
    then show False using assms by (simp add: is_pow2_def)
  qed
  ultimately show thesis by (rule that)
qed

lemma and_pow2_minus_1:
  assumes "is_pow2 c"
  shows "unat (x AND (c - 1)) = unat x mod unat c"
proof -
  obtain k where k: "k < 64" "unat c = 2 ^ k" using assms by (rule is_pow2_exponent)
  have "(2::nat) ^ k < 2 ^ 64" using k(1) by (rule power_strict_increasing) simp
  then have "unat ((2 :: u64) ^ k) = 2 ^ k"
    using unat_of_nat_u64 [of "2 ^ k"] by simp
  then have "(2 :: u64) ^ k = c"
    using k(2) by (simp add: word_unat_eq_iff)
  then have "c - 1 = mask k" by (simp add: mask_eq_decr_exp)
  then have "x AND (c - 1) = take_bit k x" by (simp add: take_bit_eq_mask)
  then have "unat (x AND (c - 1)) = take_bit k (unat x)" by (simp add: unsigned_take_bit_eq)
  then show ?thesis by (simp add: take_bit_eq_mod k(2))
qed

lemma is_pow2_dvd:
  assumes "is_pow2 c"
  shows "unat c dvd 2 ^ 64"
proof -
  obtain k where "k < 64" "unat c = 2 ^ k" using assms by (rule is_pow2_exponent)
  then show ?thesis using le_imp_power_dvd [of k 64 "2 :: nat"] by (simp del: power_numeral)
qed

lemma is_pow2_pos: "is_pow2 c \<Longrightarrow> 0 < unat c"
  by (simp add: is_pow2_def word_less_nat_alt)

section \<open>The byte-addressed memory\<close>

text \<open>
  An address is a natural number (0 is \<open>nullptr\<close>); a memory gives the byte at every
  address. Object reads and writes are runs of consecutive bytes.
\<close>

type_synonym address = nat
type_synonym memory = "address \<Rightarrow> u8"

abbreviation (input) nullptr :: address where
  "nullptr \<equiv> 0"

definition read_bytes :: "memory \<Rightarrow> address \<Rightarrow> nat \<Rightarrow> u8 list" where
  "read_bytes m a n = map m [a..<a + n]"

definition write_bytes :: "memory \<Rightarrow> address \<Rightarrow> u8 list \<Rightarrow> memory" where
  "write_bytes m a bs = (\<lambda>x. if a \<le> x \<and> x < a + length bs then bs ! (x - a) else m x)"

text \<open>A mapped address: null, \<open>MAP_FAILED\<close>, or the start of a mapped segment.\<close>

datatype mapping_ptr = Null | Map_failed | Mapped nat

text \<open>Two byte ranges, each a start and a length, that do not overlap.\<close>

definition apart :: "address \<Rightarrow> nat \<Rightarrow> address \<Rightarrow> nat \<Rightarrow> bool" where
  "apart a n b k \<longleftrightarrow> a + n \<le> b \<or> b + k \<le> a"

lemma apart_sym: "apart a n b k = apart b k a n"
  by (auto simp: apart_def)

lemma length_read_bytes [simp]: "length (read_bytes m a n) = n"
  by (simp add: read_bytes_def)

lemma read_write_same [mem_simps]:
  "length bs = n \<Longrightarrow> read_bytes (write_bytes m a bs) a n = bs"
  by (rule nth_equalityI) (auto simp: read_bytes_def write_bytes_def)

lemma read_write_apart [mem_simps]:
  "apart a (length bs) b n \<Longrightarrow> read_bytes (write_bytes m a bs) b n = read_bytes m b n"
  by (auto simp: read_bytes_def write_bytes_def apart_def)

lemma read_write_prefix:
  "k \<le> length bs \<Longrightarrow> read_bytes (write_bytes m a bs) a k = take k bs"
  by (rule nth_equalityI) (auto simp: read_bytes_def write_bytes_def)

lemma write_bytes_outside [mem_simps]:
  "x < a \<or> a + length bs \<le> x \<Longrightarrow> write_bytes m a bs x = m x"
  by (auto simp: write_bytes_def)

lemma read_bytes_cong:
  "(\<And>x. a \<le> x \<Longrightarrow> x < a + n \<Longrightarrow> m x = m' x) \<Longrightarrow> read_bytes m a n = read_bytes m' a n"
  by (auto simp: read_bytes_def)

section \<open>Object representation of C++ types\<close>

text \<open>
  What a class template parameter \<open>T\<close> supplies: its size, the bytes placement new writes
  for a value, the value a glvalue of type \<open>T\<close> reads back, and what the destructor does
  to the bytes of the object.
\<close>

record 'a cpp_type =
  size_of :: u64
  obj_bytes :: "'a \<Rightarrow> u8 list"
  obj_value :: "u8 list \<Rightarrow> 'a"
  obj_destroy :: "u8 list \<Rightarrow> u8 list"

definition object_at :: "'a cpp_type \<Rightarrow> memory \<Rightarrow> address \<Rightarrow> 'a" where
  "object_at T m a = obj_value T (read_bytes m a (unat (size_of T)))"

definition construct_at :: "'a cpp_type \<Rightarrow> memory \<Rightarrow> address \<Rightarrow> 'a \<Rightarrow> memory" where
  "construct_at T m a x = write_bytes m a (obj_bytes T x)"

definition destroy_at :: "'a cpp_type \<Rightarrow> memory \<Rightarrow> address \<Rightarrow> memory" where
  "destroy_at T m a = write_bytes m a (obj_destroy T (read_bytes m a (unat (size_of T))))"

text \<open>
  The contract of a type: objects are not empty, take exactly their size in memory, are read
  back as constructed, and are destroyed in place.
\<close>

locale object_type =
  fixes T :: "'a cpp_type"
  assumes size_pos: "0 < unat (size_of T)"
    and bytes_length: "length (obj_bytes T x) = unat (size_of T)"
    and value_bytes: "obj_value T (obj_bytes T x) = x"
    and destroy_length: "length bs = unat (size_of T) \<Longrightarrow> length (obj_destroy T bs) = length bs"
begin

lemma object_constructed [simp]: "object_at T (construct_at T m a x) a = x"
  by (simp add: object_at_def construct_at_def bytes_length value_bytes mem_simps)

lemma object_construct_apart:
  "apart a (unat (size_of T)) b (unat (size_of T)) \<Longrightarrow>
    object_at T (construct_at T m a x) b = object_at T m b"
  by (simp add: object_at_def construct_at_def bytes_length mem_simps)

lemma object_destroy_apart:
  "apart a (unat (size_of T)) b (unat (size_of T)) \<Longrightarrow>
    object_at T (destroy_at T m a) b = object_at T m b"
  by (simp add: object_at_def destroy_at_def destroy_length mem_simps)

lemma construct_outside:
  "x < a \<or> a + unat (size_of T) \<le> x \<Longrightarrow> construct_at T m a v x = m x"
  by (simp add: construct_at_def bytes_length mem_simps)

lemma destroy_outside:
  "x < a \<or> a + unat (size_of T) \<le> x \<Longrightarrow> destroy_at T m a x = m x"
  by (simp add: destroy_at_def destroy_length mem_simps)

end

text \<open>The next multiple of an alignment, as the ABI places struct members.\<close>

definition align_up :: "nat \<Rightarrow> nat \<Rightarrow> nat" where
  "align_up a n = (n + (a - 1)) div a * a"

subsection \<open>Little-endian integers\<close>

fun le_bytes :: "nat \<Rightarrow> 'a::len word \<Rightarrow> u8 list" where
  "le_bytes 0 w = []"
| "le_bytes (Suc n) w = ucast w # le_bytes n (drop_bit 8 w)"

fun le_value :: "u8 list \<Rightarrow> 'a::len word" where
  "le_value [] = 0"
| "le_value (b # bs) = ucast b OR push_bit 8 (le_value bs)"

lemma length_le_bytes [simp]: "length (le_bytes n w) = n"
  by (induction n arbitrary: w) auto

lemma le_value_bytes_take: "le_value (le_bytes n w) = take_bit (8 * n) w"
proof (induction n arbitrary: w)
  case 0
  then show ?case by simp
next
  case (Suc n)
  show ?case
    by (rule bit_word_eqI)
      (auto simp: Suc.IH bit_simps not_le)
qed

lemma le_value_bytes [simp]:
  "8 * n = LENGTH('a::len) \<Longrightarrow> le_value (le_bytes n (w :: 'a word)) = w"
  by (simp add: le_value_bytes_take)

end
