(* ===== verification/Index_Ring.thy ===== *)
theory Index_Ring
  imports Prelude
begin

text \<open>
  What the library's two message rings have in common: 64-bit write and read indices that only
  move forward and wrap around, and a slot address for every index. The queued values are read
  off the slots from the read index up to the write index.
\<close>

definition idx_contents :: "'a cpp_type \<Rightarrow> (u64 \<Rightarrow> address) \<Rightarrow> u64 \<Rightarrow> u64 \<Rightarrow> memory \<Rightarrow> 'a list" where
  "idx_contents T slot w r m =
     map (\<lambda>i. object_at T m (slot (r + of_nat i))) [0..<unat (w - r)]"

lemma length_idx_contents [simp]: "length (idx_contents T slot w r m) = unat (w - r)"
  by (simp add: idx_contents_def)

lemma idx_contents_cong:
  assumes "\<And>i. i < unat (w - r) \<Longrightarrow>
    object_at T m' (slot (r + of_nat i)) = object_at T m (slot (r + of_nat i))"
  shows "idx_contents T slot w r m' = idx_contents T slot w r m"
  using assms by (simp add: idx_contents_def)

lemma idx_contents_front:
  "0 < unat (w - r) \<Longrightarrow> object_at T m (slot r) = hd (idx_contents T slot w r m)"
  by (simp add: idx_contents_def hd_map)

lemma idx_contents_advance:
  assumes "unat c \<le> unat (w - r)"
  shows "idx_contents T slot w (r + c) m = drop (unat c) (idx_contents T slot w r m)"
proof (rule nth_equalityI)
  have len: "unat (w - (r + c)) = unat (w - r) - unat c" using assms by (rule unat_diff_advance_u64)
  then show "length (idx_contents T slot w (r + c) m) =
      length (drop (unat c) (idx_contents T slot w r m))"
    by simp
  fix i assume "i < length (idx_contents T slot w (r + c) m)"
  then have i: "i < unat (w - r) - unat c" using len by simp
  have shift: "r + c + of_nat i = r + of_nat (unat c + i)" by simp
  have "idx_contents T slot w (r + c) m ! i = object_at T m (slot (r + c + of_nat i))"
    using i len by (simp add: idx_contents_def)
  also have "\<dots> = drop (unat c) (idx_contents T slot w r m) ! i"
    using i assms unfolding shift
    by (simp add: idx_contents_def less_diff_conv add.commute del: of_nat_add)
  finally show "idx_contents T slot w (r + c) m ! i = drop (unat c) (idx_contents T slot w r m) ! i" .
qed

context object_type
begin

lemma idx_contents_push:
  assumes "unat (w - r) < 2 ^ 64 - 1"
    and slots: "\<And>i. i < unat (w - r) \<Longrightarrow>
      apart (slot w) (unat (size_of T)) (slot (r + of_nat i)) (unat (size_of T))"
  shows "idx_contents T slot (w + 1) r (construct_at T m (slot w) x) = idx_contents T slot w r m @ [x]"
proof -
  let ?m = "construct_at T m (slot w) x"
  have last: "r + of_nat (unat (w - r)) = w" by simp
  have "idx_contents T slot (w + 1) r ?m =
      map (\<lambda>i. object_at T ?m (slot (r + of_nat i))) [0..<Suc (unat (w - r))]"
    using unat_add_diff_u64 [OF assms(1)] by (simp add: idx_contents_def del: upt_Suc)
  also have "\<dots> = map (\<lambda>i. object_at T m (slot (r + of_nat i))) [0..<unat (w - r)] @ [x]"
    using object_construct_apart [OF slots] last by simp
  finally show ?thesis by (simp add: idx_contents_def)
qed

end

text \<open>Slots numbered by the remainder of the index are distinct over any stretch shorter than the
  capacity.\<close>

lemma mod_distinct:
  fixes a i j c :: nat
  assumes "i < j" and "j - i < c"
  shows "(a + i) mod c \<noteq> (a + j) mod c"
proof
  assume "(a + i) mod c = (a + j) mod c"
  then have "c dvd (a + j) - (a + i)"
    using mod_eq_dvd_iff_nat [of "a + i" "a + j" c] assms(1) by simp
  then have "c dvd j - i" by simp
  then show False using assms by (auto dest: dvd_imp_le)
qed

lemma unat_mod_dvd:
  assumes "c dvd 2 ^ 64"
  shows "unat (r + of_nat k :: u64) mod c = (unat r + k) mod c"
proof -
  have "unat (r + of_nat k :: u64) mod c = ((unat r + k) mod 2 ^ 64) mod c"
    by (simp add: unat_word_ariths unat_of_nat take_bit_eq_mod mod_add_right_eq)
  also have "\<dots> = (unat r + k) mod c" using assms by (rule mod_mod_cancel)
  finally show ?thesis .
qed

lemma multiples_apart:
  fixes a b n :: nat
  assumes "a \<noteq> b"
  shows "apart (s + a * n) n (s + b * n) n"
proof (cases "a < b")
  case True
  then have "Suc a * n \<le> b * n" by (intro mult_le_mono1) simp
  then show ?thesis by (simp add: apart_def)
next
  case False
  with assms have "Suc b * n \<le> a * n" by (intro mult_le_mono1) simp
  then show ?thesis by (simp add: apart_def)
qed

end
