(* ===== verification/Msg_Header.thy ===== *)
theory Msg_Header
  imports Index_Ring
begin

text \<open>
  The message protocol of \<open>include/phoenix/protocol/msg_header.hpp\<close>: the 16-byte header
  that precedes every message, its validation and size functions, and the protocol's
  enumerations with their underlying values. \<open>MsgHeader_type\<close> is the object representation
  of the struct on a little-endian machine, which makes it an \<open>object_type\<close>.
\<close>

record MsgHeader =
  seq_id :: u64
  func_id :: u32
  payload_len :: u32

definition kSize :: u64 where
  "kSize = 16"

definition kInvalidSeqId :: u64 where
  "kInvalidSeqId = 0"

definition MsgHeader_IsValid :: "MsgHeader \<Rightarrow> bool" where
  "MsgHeader_IsValid h \<longleftrightarrow> seq_id h \<noteq> kInvalidSeqId"

definition MsgHeader_TotalSize :: "MsgHeader \<Rightarrow> u64" where
  "MsgHeader_TotalSize h = kSize + ucast (payload_len h)"

section \<open>Enumerations\<close>

datatype Priority = kLow | kHigh

datatype MsgStatus = kPending | kProcessing | kCompleted | kFailed

datatype WorkerGroup = kNormal | kVip

datatype ControlCommand = kNone | kPing | kPong | kShutdown | kRestart | kStats

primrec Priority_code :: "Priority \<Rightarrow> u8" where
  "Priority_code kLow = 0"
| "Priority_code kHigh = 1"

primrec MsgStatus_code :: "MsgStatus \<Rightarrow> u8" where
  "MsgStatus_code kPending = 0"
| "MsgStatus_code kProcessing = 1"
| "MsgStatus_code kCompleted = 2"
| "MsgStatus_code kFailed = 3"

primrec WorkerGroup_code :: "WorkerGroup \<Rightarrow> u8" where
  "WorkerGroup_code kNormal = 0"
| "WorkerGroup_code kVip = 1"

primrec ControlCommand_code :: "ControlCommand \<Rightarrow> u32" where
  "ControlCommand_code kNone = 0"
| "ControlCommand_code kPing = 1"
| "ControlCommand_code kPong = 2"
| "ControlCommand_code kShutdown = 3"
| "ControlCommand_code kRestart = 4"
| "ControlCommand_code kStats = 5"

text \<open>Priorities compare by their underlying value, as scoped enumerations do.\<close>

instantiation Priority :: linorder
begin

definition less_eq_Priority :: "Priority \<Rightarrow> Priority \<Rightarrow> bool" where
  "less_eq_Priority p q \<longleftrightarrow> Priority_code p \<le> Priority_code q"

definition less_Priority :: "Priority \<Rightarrow> Priority \<Rightarrow> bool" where
  "less_Priority p q \<longleftrightarrow> Priority_code p < Priority_code q"

instance
proof
  fix p q r :: Priority
  show "p < q \<longleftrightarrow> p \<le> q \<and> \<not> q \<le> p"
    by (auto simp: less_eq_Priority_def less_Priority_def)
  show "p \<le> p" by (simp add: less_eq_Priority_def)
  show "p \<le> q \<or> q \<le> p" by (auto simp: less_eq_Priority_def)
  show "p \<le> q \<Longrightarrow> q \<le> r \<Longrightarrow> p \<le> r" by (auto simp: less_eq_Priority_def)
  show "p \<le> q \<Longrightarrow> q \<le> p \<Longrightarrow> p = q"
    by (cases p; cases q) (auto simp: less_eq_Priority_def)
qed

end

section \<open>Object representation\<close>

definition MsgHeader_bytes :: "MsgHeader \<Rightarrow> u8 list" where
  "MsgHeader_bytes h =
     le_bytes 8 (seq_id h) @ le_bytes 4 (func_id h) @ le_bytes 4 (payload_len h)"

definition MsgHeader_value :: "u8 list \<Rightarrow> MsgHeader" where
  "MsgHeader_value bs =
     \<lparr>seq_id = le_value (take 8 bs),
      func_id = le_value (take 4 (drop 8 bs)),
      payload_len = le_value (take 4 (drop 12 bs))\<rparr>"

text \<open>The struct is trivially destructible: its destructor leaves the bytes alone.\<close>

definition MsgHeader_type :: "MsgHeader cpp_type" where
  "MsgHeader_type =
     \<lparr>size_of = kSize, obj_bytes = MsgHeader_bytes, obj_value = MsgHeader_value,
      obj_destroy = (\<lambda>bs. bs)\<rparr>"

lemma length_MsgHeader_bytes [simp]: "length (MsgHeader_bytes h) = 16"
  by (simp add: MsgHeader_bytes_def)

lemma MsgHeader_value_bytes [simp]: "MsgHeader_value (MsgHeader_bytes h) = h"
  by (simp add: MsgHeader_value_def MsgHeader_bytes_def)

lemma size_of_MsgHeader [simp]: "size_of MsgHeader_type = 16"
  by (simp add: MsgHeader_type_def kSize_def)

interpretation msg: object_type MsgHeader_type
  by unfold_locales (simp_all add: MsgHeader_type_def kSize_def)

lemma MsgHeader_TotalSize_exact:
  "unat (MsgHeader_TotalSize h) = 16 + unat (payload_len h)"
proof -
  have "unat (payload_len h) < 2 ^ 32" using unsigned_less [of "payload_len h"] by simp
  then show ?thesis
    by (simp add: MsgHeader_TotalSize_def kSize_def unat_word_ariths unsigned_ucast_eq take_bit_eq_mod)
qed

end
