(* ===== verification/Bounded_Fifo.thy ===== *)
theory Bounded_Fifo
  imports Main
begin

text \<open>
  The abstract contract of the library's queues: a bounded first-in first-out list. The step
  functions below run one call on the specification and on an implementation; the locale
  \<open>bounded_fifo\<close> is the interface an implementation has to meet, and its lemmas are what a
  client may rely on for any sequence of calls.
\<close>

datatype 'a queue_op = Op_Push 'a | Op_Peek | Op_Pop

datatype 'a queue_result = Pushed bool | Front "'a option" | Popped bool

fun fifo_step :: "nat \<Rightarrow> 'a queue_op \<Rightarrow> 'a list \<Rightarrow> 'a queue_result \<times> 'a list" where
  "fifo_step cap (Op_Push x) xs =
     (if length xs < cap then (Pushed True, xs @ [x]) else (Pushed False, xs))"
| "fifo_step cap Op_Peek xs = (Front (case xs of [] \<Rightarrow> None | x # _ \<Rightarrow> Some x), xs)"
| "fifo_step cap Op_Pop xs = (case xs of [] \<Rightarrow> (Popped False, []) | _ # ys \<Rightarrow> (Popped True, ys))"

fun queue_step ::
  "('a \<Rightarrow> 's \<Rightarrow> bool \<times> 's) \<Rightarrow> ('s \<Rightarrow> 'a option) \<Rightarrow> ('s \<Rightarrow> bool \<times> 's) \<Rightarrow>
   'a queue_op \<Rightarrow> 's \<Rightarrow> 'a queue_result \<times> 's" where
  "queue_step push front pop (Op_Push x) s = (let (ok, s') = push x s in (Pushed ok, s'))"
| "queue_step push front pop Op_Peek s = (Front (front s), s)"
| "queue_step push front pop Op_Pop s = (let (ok, s') = pop s in (Popped ok, s'))"

text \<open>A sequence of calls, with the results in the order of the calls.\<close>

fun run_ops :: "('op \<Rightarrow> 's \<Rightarrow> 'r \<times> 's) \<Rightarrow> 'op list \<Rightarrow> 's \<Rightarrow> 'r list \<times> 's" where
  "run_ops step [] s = ([], s)"
| "run_ops step (x # xs) s =
     (let (r, s') = step x s; (rs, s'') = run_ops step xs s' in (r # rs, s''))"

text \<open>The values a sequence of calls got accepted.\<close>

fun accepted :: "'a queue_op list \<Rightarrow> 'a queue_result list \<Rightarrow> 'a list" where
  "accepted (Op_Push x # xs) (Pushed True # rs) = x # accepted xs rs"
| "accepted (_ # xs) (_ # rs) = accepted xs rs"
| "accepted _ _ = []"

text \<open>How many values a sequence of calls took out.\<close>

fun taken :: "'a queue_result list \<Rightarrow> nat" where
  "taken (Popped True # rs) = Suc (taken rs)"
| "taken (_ # rs) = taken rs"
| "taken [] = 0"

lemma fifo_step_bounded: "length xs \<le> cap \<Longrightarrow> length (snd (fifo_step cap x xs)) \<le> cap"
  by (cases x) (auto split: list.splits)

text \<open>
  Conservation for the specification: what was there and what was accepted, in order, is what
  was taken out followed by what is left.
\<close>

lemma fifo_run_conserves:
  "run_ops (fifo_step cap) ops xs = (rs, ys) \<Longrightarrow> drop (taken rs) (xs @ accepted ops rs) = ys
    \<and> taken rs \<le> length xs + length (accepted ops rs)"
proof (induction ops arbitrary: xs rs)
  case Nil
  then show ?case by simp
next
  case (Cons x ops)
  obtain r xs' rs' where step: "fifo_step cap x xs = (r, xs')"
    and run: "run_ops (fifo_step cap) ops xs' = (rs', ys)" and rs: "rs = r # rs'"
    using Cons.prems by (auto split: prod.splits)
  note IH = Cons.IH [OF run]
  show ?case
  proof (cases x)
    case (Op_Push v)
    then have "xs @ accepted (x # ops) rs = xs' @ accepted ops rs'" and "taken rs = taken rs'"
      using step rs by (auto split: if_splits)
    then show ?thesis using IH by (metis length_append)
  next
    case Op_Peek
    then show ?thesis using step IH rs by auto
  next
    case Op_Pop
    then show ?thesis using step IH rs by (auto split: list.splits)
  qed
qed

text \<open>
  An implementation may be good for a number of further calls only, for instance until an index
  wraps around: \<open>inv n s\<close> promises it for the next \<open>n\<close> of them.
\<close>

locale budgeted_fifo =
  fixes push :: "'a \<Rightarrow> 's \<Rightarrow> bool \<times> 's"
    and front :: "'s \<Rightarrow> 'a option"
    and pop :: "'s \<Rightarrow> bool \<times> 's"
    and elems :: "'s \<Rightarrow> 'a list"
    and inv :: "nat \<Rightarrow> 's \<Rightarrow> bool"
    and capacity :: nat
  assumes inv_less: "inv (Suc n) s \<Longrightarrow> inv n s"
    and elems_bounded: "inv n s \<Longrightarrow> length (elems s) \<le> capacity"
    and push_full: "inv n s \<Longrightarrow> length (elems s) = capacity \<Longrightarrow> push x s = (False, s)"
    and push_room: "inv (Suc n) s \<Longrightarrow> length (elems s) < capacity \<Longrightarrow>
      \<exists>s'. push x s = (True, s') \<and> inv n s' \<and> elems s' = elems s @ [x]"
    and front_elems: "inv n s \<Longrightarrow> front s = (case elems s of [] \<Rightarrow> None | x # _ \<Rightarrow> Some x)"
    and pop_empty: "inv n s \<Longrightarrow> elems s = [] \<Longrightarrow> pop s = (False, s)"
    and pop_front: "inv n s \<Longrightarrow> elems s = x # xs \<Longrightarrow>
      \<exists>s'. pop s = (True, s') \<and> inv n s' \<and> elems s' = xs"
begin

lemma step_refines:
  assumes inv: "inv (Suc n) s" and step: "queue_step push front pop x s = (r, s')"
  shows "inv n s' \<and> fifo_step capacity x (elems s) = (r, elems s')"
proof (cases x)
  case (Op_Push v)
  show ?thesis
  proof (cases "length (elems s) < capacity")
    case True
    from push_room [OF inv this, of v] show ?thesis using Op_Push step True by auto
  next
    case False
    then have "length (elems s) = capacity" using elems_bounded [OF inv] by simp
    from push_full [OF inv this, of v] show ?thesis
      using Op_Push step False inv_less [OF inv] by auto
  qed
next
  case Op_Peek
  then show ?thesis using step inv_less [OF inv] by (auto simp: front_elems)
next
  case Op_Pop
  show ?thesis
  proof (cases "elems s")
    case Nil
    from pop_empty [OF inv this] show ?thesis using Op_Pop step Nil inv_less [OF inv] by auto
  next
    case (Cons v vs)
    from pop_front [OF inv this] show ?thesis using Op_Pop step Cons inv_less by auto
  qed
qed

lemma run_refines:
  "inv (length ops + n) s \<Longrightarrow> run_ops (queue_step push front pop) ops s = (rs, s') \<Longrightarrow>
    inv n s' \<and> run_ops (fifo_step capacity) ops (elems s) = (rs, elems s')"
proof (induction ops arbitrary: s rs)
  case Nil
  then show ?case by simp
next
  case (Cons x ops)
  obtain r s1 rs1 where step: "queue_step push front pop x s = (r, s1)"
    and run: "run_ops (queue_step push front pop) ops s1 = (rs1, s')" and rs: "rs = r # rs1"
    using Cons.prems(2) by (auto split: prod.splits)
  have "inv (Suc (length ops + n)) s" using Cons.prems(1) by simp
  from step_refines [OF this step] Cons.IH [OF _ run] rs show ?case by simp
qed

lemma run_conserves:
  assumes "inv (length ops) s" and "run_ops (queue_step push front pop) ops s = (rs, s')"
  shows "elems s @ accepted ops rs = take (taken rs) (elems s @ accepted ops rs) @ elems s'"
  using fifo_run_conserves [of capacity ops "elems s" rs "elems s'"] run_refines [of ops 0 s rs s'] assms
    append_take_drop_id [of "taken rs" "elems s @ accepted ops rs"] by simp

end

text \<open>The contract without a budget: the invariant is kept for ever.\<close>

locale bounded_fifo =
  fixes push :: "'a \<Rightarrow> 's \<Rightarrow> bool \<times> 's"
    and front :: "'s \<Rightarrow> 'a option"
    and pop :: "'s \<Rightarrow> bool \<times> 's"
    and elems :: "'s \<Rightarrow> 'a list"
    and inv :: "'s \<Rightarrow> bool"
    and capacity :: nat
  assumes elems_bounded: "inv s \<Longrightarrow> length (elems s) \<le> capacity"
    and push_full: "inv s \<Longrightarrow> length (elems s) = capacity \<Longrightarrow> push x s = (False, s)"
    and push_room: "inv s \<Longrightarrow> length (elems s) < capacity \<Longrightarrow>
      \<exists>s'. push x s = (True, s') \<and> inv s' \<and> elems s' = elems s @ [x]"
    and front_elems: "inv s \<Longrightarrow> front s = (case elems s of [] \<Rightarrow> None | x # _ \<Rightarrow> Some x)"
    and pop_empty: "inv s \<Longrightarrow> elems s = [] \<Longrightarrow> pop s = (False, s)"
    and pop_front: "inv s \<Longrightarrow> elems s = x # xs \<Longrightarrow>
      \<exists>s'. pop s = (True, s') \<and> inv s' \<and> elems s' = xs"

sublocale bounded_fifo \<subseteq> forever: budgeted_fifo push front pop elems "\<lambda>_. inv" capacity
  by unfold_locales
    (use elems_bounded push_full push_room front_elems pop_empty pop_front in blast)+

context bounded_fifo
begin

lemma run_refines:
  "inv s \<Longrightarrow> run_ops (queue_step push front pop) ops s = (rs, s') \<Longrightarrow>
    inv s' \<and> run_ops (fifo_step capacity) ops (elems s) = (rs, elems s')"
  using forever.run_refines by blast

end

end
