(* ===== verification/Spsc_Ring_Buffer.thy ===== *)
theory Spsc_Ring_Buffer
  imports Msg_Header Bounded_Fifo
begin

text \<open>
  The single-producer single-consumer ring buffer of
  \<open>include/phoenix/core/spsc_ring_buffer.hpp\<close>. The class template parameters are
  arguments: \<open>T\<close> is the element type and \<open>cap\<close> the capacity. A member function takes the
  buffer's fields and, where it touches the elements, the memory that holds them. This
  theory gives the calls run one at a time; \<open>Spsc_Concurrent\<close> interleaves their loads and
  stores.
\<close>

record SpscRingBuffer =
  rb_buffer_start :: address
  rb_buffer_size :: u64
  rb_write_idx :: u64
  rb_read_idx :: u64

definition Spsc_construct :: "address \<Rightarrow> u64 \<Rightarrow> SpscRingBuffer" where
  "Spsc_construct start bsize =
     \<lparr>rb_buffer_start = start, rb_buffer_size = bsize, rb_write_idx = 0, rb_read_idx = 0\<rparr>"

definition Spsc_BufferOffset :: "'a cpp_type \<Rightarrow> u64 \<Rightarrow> u64 \<Rightarrow> u64" where
  "Spsc_BufferOffset T cap index = (index AND (cap - 1)) * size_of T"

definition Spsc_GetElementPtr :: "'a cpp_type \<Rightarrow> u64 \<Rightarrow> SpscRingBuffer \<Rightarrow> u64 \<Rightarrow> address" where
  "Spsc_GetElementPtr T cap q index = rb_buffer_start q + unat (Spsc_BufferOffset T cap index)"

definition Spsc_Push ::
  "'a cpp_type \<Rightarrow> u64 \<Rightarrow> 'a \<Rightarrow> SpscRingBuffer \<times> memory \<Rightarrow> bool \<times> SpscRingBuffer \<times> memory" where
  "Spsc_Push T cap item s =
     (let (q, m) = s;
          current_write = rb_write_idx q;
          current_read = rb_read_idx q
      in if current_write - current_read \<ge> cap then (False, q, m)
         else let slot = Spsc_GetElementPtr T cap q current_write;
                  m' = construct_at T m slot item
              in (True, q\<lparr>rb_write_idx := current_write + 1\<rparr>, m'))"

text \<open>\<open>item\<close> is the value \<open>T(std::forward<Args>(args)...)\<close> constructs.\<close>

definition Spsc_PushEmplace ::
  "'a cpp_type \<Rightarrow> u64 \<Rightarrow> 'a \<Rightarrow> SpscRingBuffer \<times> memory \<Rightarrow> address option \<times> SpscRingBuffer \<times> memory" where
  "Spsc_PushEmplace T cap item s =
     (let (q, m) = s;
          current_write = rb_write_idx q;
          current_read = rb_read_idx q
      in if current_write - current_read \<ge> cap then (None, q, m)
         else let slot = Spsc_GetElementPtr T cap q current_write;
                  m' = construct_at T m slot item
              in (Some slot, q\<lparr>rb_write_idx := current_write + 1\<rparr>, m'))"

definition Spsc_Peek :: "'a cpp_type \<Rightarrow> u64 \<Rightarrow> SpscRingBuffer \<Rightarrow> address option" where
  "Spsc_Peek T cap q =
     (let current_read = rb_read_idx q;
          current_write = rb_write_idx q
      in if current_write = current_read then None
         else Some (Spsc_GetElementPtr T cap q current_read))"

definition Spsc_Pop ::
  "'a cpp_type \<Rightarrow> u64 \<Rightarrow> SpscRingBuffer \<times> memory \<Rightarrow> bool \<times> SpscRingBuffer \<times> memory" where
  "Spsc_Pop T cap s =
     (let (q, m) = s;
          current_read = rb_read_idx q;
          current_write = rb_write_idx q
      in if current_write = current_read then (False, q, m)
         else let slot = Spsc_GetElementPtr T cap q current_read;
                  m' = destroy_at T m slot
              in (True, q\<lparr>rb_read_idx := current_read + 1\<rparr>, m'))"

definition Spsc_ForceAdvanceReadIndex :: "u64 \<Rightarrow> SpscRingBuffer \<Rightarrow> SpscRingBuffer" where
  "Spsc_ForceAdvanceReadIndex count q =
     (let current_read = rb_read_idx q in q\<lparr>rb_read_idx := current_read + count\<rparr>)"

definition Spsc_Empty :: "SpscRingBuffer \<Rightarrow> bool" where
  "Spsc_Empty q \<longleftrightarrow> rb_write_idx q = rb_read_idx q"

definition Spsc_Full :: "u64 \<Rightarrow> SpscRingBuffer \<Rightarrow> bool" where
  "Spsc_Full cap q \<longleftrightarrow> rb_write_idx q - rb_read_idx q \<ge> cap"

definition Spsc_Size :: "SpscRingBuffer \<Rightarrow> u64" where
  "Spsc_Size q = rb_write_idx q - rb_read_idx q"

definition Spsc_WriteIndex :: "SpscRingBuffer \<Rightarrow> u64" where
  "Spsc_WriteIndex q = rb_write_idx q"

definition Spsc_ReadIndex :: "SpscRingBuffer \<Rightarrow> u64" where
  "Spsc_ReadIndex q = rb_read_idx q"

definition Spsc_Available :: "SpscRingBuffer \<Rightarrow> u64" where
  "Spsc_Available q = Spsc_Size q"

definition Spsc_FreeSpace :: "u64 \<Rightarrow> SpscRingBuffer \<Rightarrow> u64" where
  "Spsc_FreeSpace cap q = cap - (rb_write_idx q - rb_read_idx q)"

definition Spsc_Initialize ::
  "'a cpp_type \<Rightarrow> u64 \<Rightarrow> address \<Rightarrow> u64 \<Rightarrow> SpscRingBuffer \<Rightarrow> bool \<times> SpscRingBuffer" where
  "Spsc_Initialize T cap start bsize q =
     (let required_size = size_of T * cap
      in if bsize < required_size then (False, q)
         else (True, q\<lparr>rb_buffer_start := start, rb_buffer_size := bsize,
                        rb_write_idx := 0, rb_read_idx := 0\<rparr>))"

definition Spsc_IsInitialized :: "SpscRingBuffer \<Rightarrow> bool" where
  "Spsc_IsInitialized q \<longleftrightarrow> rb_buffer_start q \<noteq> nullptr"

section \<open>Invariant and abstraction\<close>

text \<open>
  The template's static assertions, the size the comment on the constructor asks for, and the
  bound on the distance of the two indices, which may have wrapped around.
\<close>

definition Spsc_inv :: "'a cpp_type \<Rightarrow> u64 \<Rightarrow> SpscRingBuffer \<Rightarrow> bool" where
  "Spsc_inv T cap q \<longleftrightarrow>
     is_pow2 cap \<and> unat (size_of T) * unat cap < 2 ^ 64 \<and>
     size_of T * cap \<le> rb_buffer_size q \<and>
     rb_write_idx q - rb_read_idx q \<le> cap"

text \<open>The queued values, front first.\<close>

definition Spsc_contents :: "'a cpp_type \<Rightarrow> u64 \<Rightarrow> SpscRingBuffer \<times> memory \<Rightarrow> 'a list" where
  "Spsc_contents T cap s =
     (let (q, m) = s
      in idx_contents T (Spsc_GetElementPtr T cap q) (rb_write_idx q) (rb_read_idx q) m)"

lemma length_Spsc_contents [simp]: "length (Spsc_contents T cap (q, m)) = unat (Spsc_Size q)"
  by (simp add: Spsc_contents_def Spsc_Size_def)

lemma Spsc_inv_Size: "Spsc_inv T cap q \<Longrightarrow> unat (Spsc_Size q) \<le> unat cap"
  by (simp add: Spsc_inv_def Spsc_Size_def word_le_nat_alt)

lemma Spsc_inv_pow2: "Spsc_inv T cap q \<Longrightarrow> is_pow2 cap"
  by (simp add: Spsc_inv_def)

lemma Spsc_Full_iff: "Spsc_Full cap q \<longleftrightarrow> unat cap \<le> unat (Spsc_Size q)"
  by (simp add: Spsc_Full_def Spsc_Size_def word_le_nat_alt)

lemma Spsc_Empty_iff: "Spsc_Empty q \<longleftrightarrow> unat (Spsc_Size q) = 0"
  by (auto simp: Spsc_Empty_def Spsc_Size_def unat_eq_0)

subsection \<open>Slots\<close>

context object_type
begin

abbreviation sz :: nat where
  "sz \<equiv> unat (size_of T)"

lemma element_ptr:
  assumes "is_pow2 cap" and "sz * unat cap < 2 ^ 64"
  shows "Spsc_GetElementPtr T cap q i = rb_buffer_start q + (unat i mod unat cap) * sz"
proof -
  let ?k = "unat i mod unat cap"
  have "?k < unat cap" using is_pow2_pos [OF assms(1)] by simp
  then have "?k * sz \<le> sz * unat cap" by (simp add: mult.commute [of sz])
  then have "?k * sz < 2 ^ 64" using assms(2) by (rule le_less_trans)
  then have "unat ((i AND (cap - 1)) * size_of T) = ?k * sz"
    by (simp add: unat_mult_small_u64 and_pow2_minus_1 [OF assms(1)])
  then show ?thesis by (simp add: Spsc_GetElementPtr_def Spsc_BufferOffset_def)
qed

lemma slot_in_buffer:
  assumes "Spsc_inv T cap q"
  shows "rb_buffer_start q \<le> Spsc_GetElementPtr T cap q i"
    and "Spsc_GetElementPtr T cap q i + sz \<le> rb_buffer_start q + unat (rb_buffer_size q)"
proof -
  let ?k = "unat i mod unat cap"
  have pow: "is_pow2 cap" and fits: "sz * unat cap < 2 ^ 64"
    and room: "size_of T * cap \<le> rb_buffer_size q"
    using assms by (simp_all add: Spsc_inv_def)
  note ptr = element_ptr [OF pow fits]
  show "rb_buffer_start q \<le> Spsc_GetElementPtr T cap q i" by (simp add: ptr)
  have "Suc ?k \<le> unat cap" using is_pow2_pos [OF pow] by (simp add: Suc_le_eq)
  then have "Suc ?k * sz \<le> unat cap * sz" by (rule mult_le_mono1)
  moreover have "unat cap * sz \<le> unat (rb_buffer_size q)"
    using room unat_mult_small_u64 [OF fits] by (simp add: word_le_nat_alt mult.commute)
  ultimately show "Spsc_GetElementPtr T cap q i + sz \<le> rb_buffer_start q + unat (rb_buffer_size q)"
    by (simp add: ptr)
qed

lemma slots_apart:
  assumes inv: "Spsc_inv T cap q" and ij: "i < j" and near: "j - i < unat cap"
  shows "apart (Spsc_GetElementPtr T cap q (r + of_nat i)) sz
               (Spsc_GetElementPtr T cap q (r + of_nat j)) sz"
proof -
  have pow: "is_pow2 cap" and fits: "sz * unat cap < 2 ^ 64"
    using inv by (simp_all add: Spsc_inv_def)
  have "unat (r + of_nat i) mod unat cap \<noteq> unat (r + of_nat j) mod unat cap"
    using mod_distinct [OF ij near] by (simp only: unat_mod_dvd [OF is_pow2_dvd [OF pow]]) simp
  then show ?thesis unfolding element_ptr [OF pow fits] by (rule multiples_apart)
qed

subsection \<open>What each operation does to the contents\<close>

lemma ptr_ignores_indices [simp]:
  "Spsc_GetElementPtr T cap (q\<lparr>rb_write_idx := x\<rparr>) = Spsc_GetElementPtr T cap q"
  "Spsc_GetElementPtr T cap (q\<lparr>rb_read_idx := x\<rparr>) = Spsc_GetElementPtr T cap q"
  by (simp_all add: fun_eq_iff Spsc_GetElementPtr_def)

lemma Push_full:
  "unat cap \<le> length (Spsc_contents T cap (q, m)) \<Longrightarrow> Spsc_Push T cap x (q, m) = (False, q, m)"
  by (simp add: Spsc_Push_def Spsc_Size_def word_le_nat_alt)

lemma Push_room:
  assumes inv: "Spsc_inv T cap q" and room: "length (Spsc_contents T cap (q, m)) < unat cap"
  shows "Spsc_Push T cap x (q, m) =
      (True, q\<lparr>rb_write_idx := rb_write_idx q + 1\<rparr>,
       construct_at T m (Spsc_GetElementPtr T cap q (rb_write_idx q)) x)"
  using room by (simp add: Spsc_Push_def Let_def Spsc_Size_def word_le_nat_alt)

lemma Size_after_push:
  assumes inv: "Spsc_inv T cap q" and room: "unat (Spsc_Size q) < unat cap"
  shows "unat (Spsc_Size (q\<lparr>rb_write_idx := rb_write_idx q + 1\<rparr>)) = Suc (unat (Spsc_Size q))"
proof -
  have "unat (Spsc_Size q) < 2 ^ 64 - 1"
    using less_le_trans [OF room, of "2 ^ 64 - 1"] unat_u64_bound [of cap] by simp
  then show ?thesis by (simp add: Spsc_Size_def unat_add_diff_u64)
qed

lemma Push_inv:
  assumes inv: "Spsc_inv T cap q" and room: "unat (Spsc_Size q) < unat cap"
  shows "Spsc_inv T cap (q\<lparr>rb_write_idx := rb_write_idx q + 1\<rparr>)"
  using inv Size_after_push [OF assms] room
  by (simp add: Spsc_inv_def Spsc_Size_def word_le_nat_alt)

lemma Push_contents:
  assumes inv: "Spsc_inv T cap q" and room: "unat (Spsc_Size q) < unat cap"
  shows "Spsc_contents T cap
      (q\<lparr>rb_write_idx := rb_write_idx q + 1\<rparr>,
       construct_at T m (Spsc_GetElementPtr T cap q (rb_write_idx q)) x) =
    Spsc_contents T cap (q, m) @ [x]"
proof -
  let ?w = "rb_write_idx q" and ?r = "rb_read_idx q"
  have near: "unat (?w - ?r) < unat cap" using room by (simp add: Spsc_Size_def)
  then have "unat (?w - ?r) < 2 ^ 64 - 1" using unat_u64_lt [of cap] by linarith
  moreover have "apart (Spsc_GetElementPtr T cap q ?w) sz (Spsc_GetElementPtr T cap q (?r + of_nat i)) sz"
    if "i < unat (?w - ?r)" for i
    using slots_apart [OF inv that, of ?r] near by (simp add: apart_sym)
  ultimately show ?thesis
    by (simp add: Spsc_contents_def idx_contents_push)
qed

lemma Pop_empty: "Spsc_contents T cap (q, m) = [] \<Longrightarrow> Spsc_Pop T cap (q, m) = (False, q, m)"
  using length_Spsc_contents [of T cap q m]
  by (simp add: Spsc_Pop_def Spsc_Size_def unat_eq_0)

lemma Pop_nonempty:
  assumes "0 < unat (Spsc_Size q)"
  shows "Spsc_Pop T cap (q, m) =
      (True, Spsc_ForceAdvanceReadIndex 1 q,
       destroy_at T m (Spsc_GetElementPtr T cap q (rb_read_idx q)))"
  using assms by (auto simp: Spsc_Pop_def Let_def Spsc_Size_def Spsc_ForceAdvanceReadIndex_def)

lemma Peek_empty: "Spsc_contents T cap (q, m) = [] \<Longrightarrow> Spsc_Peek T cap q = None"
  using length_Spsc_contents [of T cap q m]
  by (simp add: Spsc_Peek_def Spsc_Size_def unat_eq_0)

lemma Peek_nonempty:
  assumes "0 < unat (Spsc_Size q)"
  shows "Spsc_Peek T cap q = Some (Spsc_GetElementPtr T cap q (rb_read_idx q))"
    and "object_at T m (Spsc_GetElementPtr T cap q (rb_read_idx q)) =
      hd (Spsc_contents T cap (q, m))"
proof -
  show "Spsc_Peek T cap q = Some (Spsc_GetElementPtr T cap q (rb_read_idx q))"
    using assms by (auto simp: Spsc_Peek_def Spsc_Size_def Let_def)
  show "object_at T m (Spsc_GetElementPtr T cap q (rb_read_idx q)) =
      hd (Spsc_contents T cap (q, m))"
    using assms idx_contents_front [of "rb_write_idx q" "rb_read_idx q"]
    by (simp add: Spsc_contents_def Spsc_Size_def)
qed

lemma Size_after_advance:
  assumes "unat c \<le> unat (Spsc_Size q)"
  shows "unat (Spsc_Size (Spsc_ForceAdvanceReadIndex c q)) = unat (Spsc_Size q) - unat c"
  using assms by (simp add: Spsc_Size_def Spsc_ForceAdvanceReadIndex_def unat_diff_advance_u64)

lemma Advance_inv:
  assumes "Spsc_inv T cap q" and "unat c \<le> unat (Spsc_Size q)"
  shows "Spsc_inv T cap (Spsc_ForceAdvanceReadIndex c q)"
proof -
  have "unat (Spsc_Size (Spsc_ForceAdvanceReadIndex c q)) \<le> unat cap"
    using Size_after_advance [OF assms(2)] Spsc_inv_Size [OF assms(1)] by simp
  then show ?thesis
    using assms(1)
    by (simp add: Spsc_inv_def Spsc_Size_def Spsc_ForceAdvanceReadIndex_def word_le_nat_alt)
qed

lemma Advance_contents:
  assumes "unat c \<le> unat (Spsc_Size q)"
  shows "Spsc_contents T cap (Spsc_ForceAdvanceReadIndex c q, m) =
    drop (unat c) (Spsc_contents T cap (q, m))"
  using idx_contents_advance [of c "rb_write_idx q" "rb_read_idx q"] assms
  by (simp add: Spsc_contents_def Spsc_ForceAdvanceReadIndex_def Spsc_Size_def)

lemma destroy_front_contents:
  assumes inv: "Spsc_inv T cap q" and ne: "0 < unat (Spsc_Size q)"
  shows "Spsc_contents T cap (Spsc_ForceAdvanceReadIndex 1 q,
      destroy_at T m (Spsc_GetElementPtr T cap q (rb_read_idx q))) =
    Spsc_contents T cap (Spsc_ForceAdvanceReadIndex 1 q, m)"
proof -
  let ?r = "rb_read_idx q" and ?p = "Spsc_GetElementPtr T cap q (rb_read_idx q)"
  have "object_at T (destroy_at T m ?p) (Spsc_GetElementPtr T cap q (?r + 1 + of_nat i)) =
      object_at T m (Spsc_GetElementPtr T cap q (?r + 1 + of_nat i))"
    if i: "i < unat (rb_write_idx q - (?r + 1))" for i
  proof -
    have shift: "?r + 1 + of_nat i = ?r + of_nat (Suc i)" by (simp add: add.assoc)
    have "Suc i < unat (Spsc_Size q)"
      using i ne unat_diff_advance_u64 [of 1 "rb_write_idx q" ?r] by (simp add: Spsc_Size_def)
    then have "Suc i < unat cap" using Spsc_inv_Size [OF inv] by simp
    then have "apart ?p sz (Spsc_GetElementPtr T cap q (?r + of_nat (Suc i))) sz"
      using slots_apart [OF inv, of 0 "Suc i" ?r] by simp
    then show ?thesis unfolding shift by (rule object_destroy_apart)
  qed
  then have "idx_contents T (Spsc_GetElementPtr T cap q) (rb_write_idx q) (?r + 1) (destroy_at T m ?p) =
      idx_contents T (Spsc_GetElementPtr T cap q) (rb_write_idx q) (?r + 1) m"
    by (rule idx_contents_cong)
  then show ?thesis by (simp add: Spsc_contents_def Spsc_ForceAdvanceReadIndex_def)
qed

lemma Pop_contents:
  assumes "Spsc_inv T cap q" and "0 < unat (Spsc_Size q)"
  shows "Spsc_contents T cap (Spsc_ForceAdvanceReadIndex 1 q,
      destroy_at T m (Spsc_GetElementPtr T cap q (rb_read_idx q))) =
    tl (Spsc_contents T cap (q, m))"
  using destroy_front_contents [OF assms] Advance_contents [of 1 q] assms(2)
  by (simp add: drop_Suc)

end

section \<open>The ring buffer is a bounded queue\<close>

text \<open>What a consumer sees through \<open>Peek\<close>: the value the returned pointer leads to.\<close>

definition Spsc_front :: "'a cpp_type \<Rightarrow> u64 \<Rightarrow> SpscRingBuffer \<times> memory \<Rightarrow> 'a option" where
  "Spsc_front T cap s = (let (q, m) = s in map_option (object_at T m) (Spsc_Peek T cap q))"

text \<open>Every element type with a sound object representation gives a bounded queue.\<close>

sublocale object_type \<subseteq> ring: bounded_fifo "Spsc_Push T cap" "Spsc_front T cap"
  "Spsc_Pop T cap" "Spsc_contents T cap" "\<lambda>s. Spsc_inv T cap (fst s)" "unat cap" for cap :: u64
proof (unfold_locales, goal_cases)
  case (1 s)
  then show ?case using Spsc_inv_Size by (cases s) simp
next
  case (2 s x)
  then show ?case by (cases s) (simp add: Push_full)
next
  case (3 s x)
  obtain q m where s: "s = (q, m)" by (cases s)
  from 3 s have inv: "Spsc_inv T cap q" and room: "unat (Spsc_Size q) < unat cap" by simp_all
  then show ?case
    unfolding s by (simp add: Push_room Push_inv Push_contents)
next
  case (4 s)
  obtain q m where s: "s = (q, m)" by (cases s)
  show ?case
  proof (cases "unat (Spsc_Size q)")
    case 0
    then have "Spsc_contents T cap (q, m) = []" by (simp flip: length_0_conv)
    then show ?thesis by (simp add: s Spsc_front_def Peek_empty)
  next
    case (Suc n)
    then have "Spsc_contents T cap (q, m) \<noteq> []" by (simp flip: length_greater_0_conv)
    then show ?thesis
      using Peek_nonempty [where q = q and cap = cap] Suc by (auto simp: s Spsc_front_def split: list.splits)
  qed
next
  case (5 s)
  then show ?case by (cases s) (simp add: Pop_empty)
next
  case (6 s x xs)
  obtain q m where s: "s = (q, m)" by (cases s)
  have "length (Spsc_contents T cap (q, m)) = Suc (length xs)" using 6 s by simp
  then have ne: "0 < unat (Spsc_Size q)" by simp
  then have "unat (1 :: u64) \<le> unat (Spsc_Size q)" by simp
  with 6 s ne show ?case by (simp add: Pop_nonempty Advance_inv Pop_contents)
qed

context object_type
begin

lemma Push_outside:
  assumes "Spsc_inv T cap q" and "Spsc_Push T cap x (q, m) = (ok, q', m')"
    and "a < rb_buffer_start q \<or> rb_buffer_start q + unat (rb_buffer_size q) \<le> a"
  shows "m' a = m a"
proof -
  let ?p = "Spsc_GetElementPtr T cap q (rb_write_idx q)"
  have "a < ?p \<or> ?p + sz \<le> a" using slot_in_buffer [OF assms(1), of "rb_write_idx q"] assms(3) by auto
  then show ?thesis
    using assms(2) by (auto simp: Spsc_Push_def Let_def construct_outside split: if_splits)
qed

lemma Pop_outside:
  assumes "Spsc_inv T cap q" and "Spsc_Pop T cap (q, m) = (ok, q', m')"
    and "a < rb_buffer_start q \<or> rb_buffer_start q + unat (rb_buffer_size q) \<le> a"
  shows "m' a = m a"
proof -
  let ?p = "Spsc_GetElementPtr T cap q (rb_read_idx q)"
  have "a < ?p \<or> ?p + sz \<le> a" using slot_in_buffer [OF assms(1), of "rb_read_idx q"] assms(3) by auto
  then show ?thesis
    using assms(2) by (auto simp: Spsc_Pop_def Let_def destroy_outside split: if_splits)
qed

end

lemma Spsc_Initialize_ok:
  assumes "is_pow2 cap" and "unat (size_of T) * unat cap < 2 ^ 64" and "size_of T * cap \<le> bsize"
  shows "\<exists>q'. Spsc_Initialize T cap start bsize q = (True, q') \<and> Spsc_inv T cap q' \<and>
    Spsc_Empty q' \<and> rb_buffer_start q' = start \<and> rb_buffer_size q' = bsize"
  using assms by (auto simp: Spsc_Initialize_def Spsc_inv_def Spsc_Empty_def not_less)

lemma Spsc_Empty_contents: "Spsc_Empty q \<Longrightarrow> Spsc_contents T cap (q, m) = []"
  by (simp add: Spsc_Empty_iff flip: length_0_conv)

lemma advance_past_end:
  assumes "unat (Spsc_Size q) < unat count"
    and "unat count - unat (Spsc_Size q) \<le> 2 ^ 64 - unat cap"
  shows "unat (Spsc_Size (Spsc_ForceAdvanceReadIndex count q)) =
      2 ^ 64 - (unat count - unat (Spsc_Size q))"
    and "Spsc_Full cap (Spsc_ForceAdvanceReadIndex count q)"
    and "\<not> Spsc_Empty (Spsc_ForceAdvanceReadIndex count q)"
proof -
  let ?q = "Spsc_ForceAdvanceReadIndex count q"
  have "Spsc_Size ?q = Spsc_Size q - count"
    by (simp add: Spsc_Size_def Spsc_ForceAdvanceReadIndex_def)
  moreover have "Spsc_Size q < count" using assms(1) by (simp add: word_less_nat_alt)
  ultimately show size: "unat (Spsc_Size ?q) = 2 ^ 64 - (unat count - unat (Spsc_Size q))"
    using assms(1) unat_u64_bound [of count] by (simp add: unat_diff_idx)
  show "Spsc_Full cap ?q"
    unfolding Spsc_Full_iff using size assms unat_u64_lt [of cap] by linarith
  have "0 < unat (Spsc_Size ?q)" using size assms unat_u64_lt [of count] by linarith
  then show "\<not> Spsc_Empty ?q" by (simp add: Spsc_Empty_iff)
qed

section \<open>Properties\<close>

text \<open>
  C2. Any sequence of \<open>Push\<close>, \<open>Peek\<close> and \<open>Pop\<close> calls on a ring of message headers returns
  exactly what the same calls on a bounded first-in first-out list return, and keeps the ring's
  invariant. The indices are arbitrary, so the equality covers the wrap-around of the slots and
  of the 64-bit indices themselves.
\<close>

theorem Spsc_refines_fifo:
  assumes "Spsc_inv MsgHeader_type cap q"
  shows "let (rs, q', m') = run_ops (queue_step (Spsc_Push MsgHeader_type cap)
             (Spsc_front MsgHeader_type cap) (Spsc_Pop MsgHeader_type cap)) ops (q, m)
         in Spsc_inv MsgHeader_type cap q' \<and>
            run_ops (fifo_step (unat cap)) ops (Spsc_contents MsgHeader_type cap (q, m)) =
              (rs, Spsc_contents MsgHeader_type cap (q', m'))"
proof -
  have inv: "Spsc_inv MsgHeader_type cap (fst (q, m))" using assms by simp
  obtain rs q' m' where run: "run_ops (queue_step (Spsc_Push MsgHeader_type cap)
      (Spsc_front MsgHeader_type cap) (Spsc_Pop MsgHeader_type cap)) ops (q, m) = (rs, q', m')"
    using prod_cases3 by blast
  show ?thesis using msg.ring.run_refines [OF inv run] run by simp
qed

text \<open>A ring of 16 headers at address 4096 whose indices are about to wrap around.\<close>

abbreviation (input) wrapping_ring :: SpscRingBuffer where
  "wrapping_ring \<equiv> (Spsc_construct 4096 256)\<lparr>rb_write_idx := -1, rb_read_idx := -1\<rparr>"

lemma wrapping_ring_inv: "Spsc_inv MsgHeader_type 16 wrapping_ring"
  by (simp add: Spsc_inv_def is_pow2_def Spsc_construct_def)

theorem Spsc_refines_fifo_witness:
  "Spsc_inv MsgHeader_type 16 wrapping_ring \<and>
   (let (rs, q', m') = run_ops (queue_step (Spsc_Push MsgHeader_type 16)
          (Spsc_front MsgHeader_type 16) (Spsc_Pop MsgHeader_type 16))
          [Op_Push \<lparr>seq_id = 7, func_id = 1, payload_len = 0\<rparr>,
           Op_Push \<lparr>seq_id = 8, func_id = 1, payload_len = 0\<rparr>, Op_Pop, Op_Peek]
          (wrapping_ring, \<lambda>_. 0)
    in rs = [Pushed True, Pushed True, Popped True,
             Front (Some \<lparr>seq_id = 8, func_id = 1, payload_len = 0\<rparr>)])"
proof -
  have "Spsc_contents MsgHeader_type 16 (wrapping_ring, \<lambda>_. 0) = []"
    by (simp add: Spsc_contents_def idx_contents_def)
  then show ?thesis
    using Spsc_refines_fifo [OF wrapping_ring_inv, of
        "[Op_Push \<lparr>seq_id = 7, func_id = 1, payload_len = 0\<rparr>,
          Op_Push \<lparr>seq_id = 8, func_id = 1, payload_len = 0\<rparr>, Op_Pop, Op_Peek]" "\<lambda>_. 0"]
      wrapping_ring_inv
    by (auto simp: Let_def split: prod.splits)
qed

text \<open>
  On a ring of message headers \<open>Push\<close> and \<open>Pop\<close> change no byte outside the ring's own
  buffer, whether they succeed or not, and the pointer \<open>Peek\<close> returns leads to a header that
  lies inside it.
\<close>

theorem Spsc_confined:
  assumes inv: "Spsc_inv MsgHeader_type cap q"
    and outside: "a < rb_buffer_start q \<or> rb_buffer_start q + unat (rb_buffer_size q) \<le> a"
  shows "snd (snd (Spsc_Push MsgHeader_type cap h (q, m))) a = m a \<and>
    snd (snd (Spsc_Pop MsgHeader_type cap (q, m))) a = m a \<and>
    (case Spsc_Peek MsgHeader_type cap q of None \<Rightarrow> True
     | Some p \<Rightarrow> rb_buffer_start q \<le> p \<and> p + 16 \<le> rb_buffer_start q + unat (rb_buffer_size q))"
proof (intro conjI)
  show "snd (snd (Spsc_Push MsgHeader_type cap h (q, m))) a = m a"
    using msg.Push_outside [OF inv _ outside] by (metis prod.collapse)
  show "snd (snd (Spsc_Pop MsgHeader_type cap (q, m))) a = m a"
    using msg.Pop_outside [OF inv _ outside] by (metis prod.collapse)
  show "case Spsc_Peek MsgHeader_type cap q of None \<Rightarrow> True
     | Some p \<Rightarrow> rb_buffer_start q \<le> p \<and> p + 16 \<le> rb_buffer_start q + unat (rb_buffer_size q)"
    using msg.slot_in_buffer [OF inv] by (simp add: Spsc_Peek_def Let_def)
qed

theorem Spsc_confined_witness:
  "snd (snd (Spsc_Push MsgHeader_type 16 \<lparr>seq_id = 7, func_id = 1, payload_len = 0\<rparr>
      (wrapping_ring, \<lambda>_. 0))) 4352 = 0"
  using Spsc_confined [OF wrapping_ring_inv, of 4352] by (simp add: Spsc_construct_def)

text \<open>
  Crash recovery on a ring that holds at least \<open>count\<close> messages: forcing the read index
  forward drops exactly the \<open>count\<close> oldest messages, keeps the others in order and keeps the
  invariant.
\<close>

theorem Spsc_skip_drops_oldest:
  assumes "Spsc_inv MsgHeader_type cap q"
    and "unat count \<le> length (Spsc_contents MsgHeader_type cap (q, m))"
  shows "Spsc_inv MsgHeader_type cap (Spsc_ForceAdvanceReadIndex count q) \<and>
    Spsc_contents MsgHeader_type cap (Spsc_ForceAdvanceReadIndex count q, m) =
      drop (unat count) (Spsc_contents MsgHeader_type cap (q, m))"
  using assms by (simp add: msg.Advance_inv msg.Advance_contents)

theorem Spsc_skip_drops_oldest_witness:
  "Spsc_inv MsgHeader_type 16 (Spsc_ForceAdvanceReadIndex 2 (wrapping_ring\<lparr>rb_write_idx := 2\<rparr>))"
  using Spsc_skip_drops_oldest [of 16 "wrapping_ring\<lparr>rb_write_idx := 2\<rparr>" 2 "\<lambda>_. 0"]
  by (simp add: Spsc_inv_def is_pow2_def Spsc_construct_def Spsc_Size_def)

text \<open>
  Nothing bounds \<open>count\<close> by the number of queued messages: when it is larger, by an
  overshoot of at most \<open>2 ^ 64 - cap\<close>, the read index overtakes the write index, the size wraps
  around to \<open>2 ^ 64\<close> minus the overshoot, and the ring claims to be full and not empty, so
  every later \<open>Push\<close> is refused while \<open>Peek\<close> hands out a slot that holds no message.
\<close>

theorem Spsc_skip_past_end:
  assumes "unat (Spsc_Size q) < unat count"
    and "unat count - unat (Spsc_Size q) \<le> 2 ^ 64 - unat cap"
  shows "let q' = Spsc_ForceAdvanceReadIndex count q
     in unat (Spsc_Size q') = 2 ^ 64 - (unat count - unat (Spsc_Size q)) \<and>
        Spsc_Full cap q' \<and> \<not> Spsc_Empty q' \<and>
        Spsc_Push MsgHeader_type cap h (q', m) = (False, q', m) \<and>
        Spsc_Peek MsgHeader_type cap q' =
          Some (Spsc_GetElementPtr MsgHeader_type cap q' (rb_read_idx q'))"
proof -
  let ?q = "Spsc_ForceAdvanceReadIndex count q"
  note wrap = advance_past_end [OF assms]
  then have "unat cap \<le> unat (Spsc_Size ?q)" and "0 < unat (Spsc_Size ?q)"
    by (simp_all only: Spsc_Full_iff Spsc_Empty_iff)
  then show ?thesis
    using wrap msg.Push_full [of cap ?q m h] msg.Peek_nonempty(1) [of ?q cap] by (simp add: Let_def)
qed

theorem Spsc_skip_past_end_witness:
  "Spsc_Full 1024 (Spsc_ForceAdvanceReadIndex 1 (Spsc_construct 4096 16384))"
  using Spsc_skip_past_end [of "Spsc_construct 4096 16384" 1 1024]
  by (simp add: Spsc_construct_def Spsc_Size_def Let_def)

text \<open>
  The queries agree with the queued messages: \<open>Size\<close> and \<open>Available\<close> are their number,
  \<open>FreeSpace\<close> is what is left of the capacity, \<open>Empty\<close> and \<open>Full\<close> hold exactly at the two
  ends, and exactly one of "\<open>Push\<close> succeeds" and "\<open>Full\<close>" holds.
\<close>

theorem Spsc_queries_exact:
  assumes "Spsc_inv MsgHeader_type cap q"
  shows "let xs = Spsc_contents MsgHeader_type cap (q, m)
     in unat (Spsc_Size q) = length xs \<and> Spsc_Available q = Spsc_Size q \<and>
        unat (Spsc_FreeSpace cap q) = unat cap - length xs \<and>
        (Spsc_Empty q \<longleftrightarrow> xs = []) \<and> (Spsc_Full cap q \<longleftrightarrow> length xs = unat cap) \<and>
        (fst (Spsc_Push MsgHeader_type cap h (q, m)) \<longleftrightarrow> \<not> Spsc_Full cap q)"
proof -
  have le: "unat (Spsc_Size q) \<le> unat cap" using assms by (rule Spsc_inv_Size)
  then have "unat (Spsc_FreeSpace cap q) = unat cap - unat (Spsc_Size q)"
    by (simp add: Spsc_FreeSpace_def Spsc_Size_def unat_sub word_le_nat_alt)
  moreover have "Spsc_Empty q \<longleftrightarrow> Spsc_contents MsgHeader_type cap (q, m) = []"
    by (simp add: Spsc_Empty_iff flip: length_0_conv)
  moreover have "fst (Spsc_Push MsgHeader_type cap h (q, m)) \<longleftrightarrow> \<not> Spsc_Full cap q"
    by (simp add: Spsc_Push_def Spsc_Full_def Let_def)
  ultimately show ?thesis using le by (auto simp: Let_def Spsc_Full_iff Spsc_Available_def)
qed

theorem Spsc_queries_exact_witness:
  "unat (Spsc_FreeSpace 16 (wrapping_ring\<lparr>rb_write_idx := 2\<rparr>)) = 13"
  using Spsc_queries_exact [of 16 "wrapping_ring\<lparr>rb_write_idx := 2\<rparr>" "\<lambda>_. 0"]
  by (simp add: Spsc_inv_def is_pow2_def Spsc_construct_def Spsc_Size_def Let_def)

end
