(* ===== verification/Ring_Protocol.thy ===== *)
theory Ring_Protocol
  imports Index_Ring
begin

text \<open>
  The protocol both message queues follow when one thread pushes and another pops at the same
  time: each thread stores one of the two 64-bit indices, loads the other one, possibly stale,
  and touches only the slot its own index names. The locale \<open>ring_protocol\<close> states what a queue
  has to provide, above all slots that do not overlap over any stretch of a capacity; its
  lemmas prove first-in first-out delivery and the absence of data races for every interleaving.
\<close>

section \<open>Threads and steps\<close>

text \<open>The producer inside \<open>Push(item)\<close>: after loading its own index, after the capacity test
  passed, after constructing the element.\<close>

datatype 'a producer_pc =
  P_Idle
| P_LoadedWrite 'a u64
| P_HasRoom 'a u64
| P_Constructed 'a u64

text \<open>The consumer: inside \<open>Peek\<close>; holding the pointer \<open>Peek\<close> returned; after reading the
  element through it; inside \<open>Pop\<close> before and after the emptiness test and after the element
  is given up.\<close>

datatype 'a consumer_pc =
  C_Idle
| C_PeekLoadedRead u64
| C_HoldsPointer u64
| C_HasValue 'a
| C_PopLoadedRead u64 'a
| C_PopNonempty u64 'a
| C_Destroyed u64 'a

text \<open>
  The indices and the memory, where each thread is, the value of the other's index each thread
  saw last, and two histories: what was pushed and what was read and popped.
\<close>

record 'a protocol_state =
  write_at :: u64
  read_at :: u64
  bytes :: memory
  pusher :: "'a producer_pc"
  popper :: "'a consumer_pc"
  last_read :: u64
  last_write :: u64
  log_sent :: "'a list"
  log_taken :: "'a list"

text \<open>A load may return \<open>v\<close> when the index moved from \<open>seen\<close> through \<open>v\<close> to \<open>now\<close>.\<close>

definition may_load :: "u64 \<Rightarrow> u64 \<Rightarrow> u64 \<Rightarrow> bool" where
  "may_load seen now v \<longleftrightarrow> v - seen \<le> now - seen"

lemma may_load_now [simp]: "may_load seen now now"
  by (simp add: may_load_def)

text \<open>\<open>dtor m a\<close> is what giving up the element at \<open>a\<close> does to the memory. Either thread may also
  write to memory that is no slot.\<close>

inductive protocol_step ::
    "'a cpp_type \<Rightarrow> u64 \<Rightarrow> (u64 \<Rightarrow> address) \<Rightarrow> (memory \<Rightarrow> address \<Rightarrow> memory) \<Rightarrow>
     'a protocol_state \<Rightarrow> 'a protocol_state \<Rightarrow> bool"
  for T :: "'a cpp_type" and cap :: u64 and slot :: "u64 \<Rightarrow> address"
    and dtor :: "memory \<Rightarrow> address \<Rightarrow> memory" where
  load_write:
    "pusher s = P_Idle \<Longrightarrow>
     protocol_step T cap slot dtor s (s\<lparr>pusher := P_LoadedWrite item (write_at s)\<rparr>)"
| full:
    "pusher s = P_LoadedWrite item cw \<Longrightarrow> may_load (last_read s) (read_at s) cr \<Longrightarrow>
     protocol_step T cap slot dtor s (s\<lparr>pusher := P_Idle, last_read := cr\<rparr>)"
| has_room:
    "pusher s = P_LoadedWrite item cw \<Longrightarrow> may_load (last_read s) (read_at s) cr \<Longrightarrow>
     \<not> cw - cr \<ge> cap \<Longrightarrow>
     protocol_step T cap slot dtor s (s\<lparr>pusher := P_HasRoom item cw, last_read := cr\<rparr>)"
| construct:
    "pusher s = P_HasRoom item cw \<Longrightarrow>
     protocol_step T cap slot dtor s (s\<lparr>pusher := P_Constructed item cw,
       bytes := construct_at T (bytes s) (slot cw) item\<rparr>)"
| store_write:
    "pusher s = P_Constructed item cw \<Longrightarrow>
     protocol_step T cap slot dtor s (s\<lparr>pusher := P_Idle, write_at := cw + 1,
       log_sent := log_sent s @ [item]\<rparr>)"
| peek_load:
    "popper s = C_Idle \<Longrightarrow>
     protocol_step T cap slot dtor s (s\<lparr>popper := C_PeekLoadedRead (read_at s)\<rparr>)"
| peek_fails:
    "popper s = C_PeekLoadedRead cr \<Longrightarrow> may_load (last_write s) (write_at s) cw \<Longrightarrow>
     protocol_step T cap slot dtor s (s\<lparr>popper := C_Idle, last_write := cw\<rparr>)"
| peek_points:
    "popper s = C_PeekLoadedRead cr \<Longrightarrow> may_load (last_write s) (write_at s) cw \<Longrightarrow>
     cw \<noteq> cr \<Longrightarrow>
     protocol_step T cap slot dtor s (s\<lparr>popper := C_HoldsPointer cr, last_write := cw\<rparr>)"
| read_slot:
    "popper s = C_HoldsPointer cr \<Longrightarrow>
     protocol_step T cap slot dtor s (s\<lparr>popper := C_HasValue (object_at T (bytes s) (slot cr))\<rparr>)"
| pop_load:
    "popper s = C_HasValue v \<Longrightarrow>
     protocol_step T cap slot dtor s (s\<lparr>popper := C_PopLoadedRead (read_at s) v\<rparr>)"
| pop_fails:
    "popper s = C_PopLoadedRead cr v \<Longrightarrow> may_load (last_write s) (write_at s) cw \<Longrightarrow>
     protocol_step T cap slot dtor s (s\<lparr>popper := C_Idle, last_write := cw\<rparr>)"
| pop_goes_on:
    "popper s = C_PopLoadedRead cr v \<Longrightarrow> may_load (last_write s) (write_at s) cw \<Longrightarrow>
     cw \<noteq> cr \<Longrightarrow>
     protocol_step T cap slot dtor s (s\<lparr>popper := C_PopNonempty cr v, last_write := cw\<rparr>)"
| give_up:
    "popper s = C_PopNonempty cr v \<Longrightarrow>
     protocol_step T cap slot dtor s (s\<lparr>popper := C_Destroyed cr v, bytes := dtor (bytes s) (slot cr)\<rparr>)"
| store_read:
    "popper s = C_Destroyed cr v \<Longrightarrow>
     protocol_step T cap slot dtor s (s\<lparr>popper := C_Idle, read_at := cr + 1,
       log_taken := log_taken s @ [v]\<rparr>)"
| elsewhere:
    "(\<And>i. object_at T m (slot i) = object_at T (bytes s) (slot i)) \<Longrightarrow>
     protocol_step T cap slot dtor s (s\<lparr>bytes := m\<rparr>)"

text \<open>Both threads idle on an empty queue whose indices are \<open>w\<close>.\<close>

definition protocol_start :: "u64 \<Rightarrow> memory \<Rightarrow> 'a protocol_state" where
  "protocol_start w m = \<lparr>write_at = w, read_at = w, bytes = m, pusher = P_Idle, popper = C_Idle,
     last_read = w, last_write = w, log_sent = [], log_taken = []\<rparr>"

inductive_cases protocol_stepE: "protocol_step T cap slot dtor s t"

lemma protocol_sent_grows:
  "protocol_step T cap slot dtor s t \<Longrightarrow> length (log_sent s) \<le> length (log_sent t)"
  by (auto elim!: protocol_stepE)

section \<open>Counting indices\<close>

text \<open>Every index is the start index plus a count; the counts never wrap around.\<close>

lemma index_eq_iff:
  assumes "a \<le> b" and "b - a < 2 ^ 64"
  shows "(w + of_nat b :: u64) = w + of_nat a \<longleftrightarrow> b = a"
proof
  assume "(w + of_nat b :: u64) = w + of_nat a"
  then have "(of_nat b :: u64) - of_nat a = 0" by simp
  then have "unat ((of_nat b :: u64) - of_nat a) = 0" by simp
  then show "b = a" using unat_idx_diff [OF assms] assms(1) by simp
qed simp

lemma index_distance:
  assumes "a \<le> b" and "b - a < 2 ^ 64"
  shows "unat ((w + of_nat b :: u64) - (w + of_nat a)) = b - a"
  using unat_idx_diff [OF assms] by simp

lemma may_load_count:
  assumes "may_load (w + of_nat a) (w + of_nat b) v" and "a \<le> b" and "b - a < 2 ^ 64"
  obtains c where "a \<le> c" and "c \<le> b" and "v = w + of_nat c"
proof
  let ?d = "unat (v - (w + of_nat a))"
  have "?d \<le> b - a"
    using assms(1) index_distance [OF assms(2,3), of w] by (simp only: may_load_def word_le_nat_alt)
  then show "a + ?d \<le> b" using assms(2) by simp
  show "v = w + of_nat (a + ?d)" by simp
qed simp

section \<open>The invariant\<close>

text \<open>What the program counter of each thread adds to it.\<close>

fun producer_ok :: "'a cpp_type \<Rightarrow> u64 \<Rightarrow> (u64 \<Rightarrow> address) \<Rightarrow> nat \<Rightarrow> nat \<Rightarrow> u64 \<Rightarrow> memory \<Rightarrow>
    'a producer_pc \<Rightarrow> bool" where
  "producer_ok T cap slot n_sent n_seen w m P_Idle = True"
| "producer_ok T cap slot n_sent n_seen w m (P_LoadedWrite item cw) = (cw = w + of_nat n_sent)"
| "producer_ok T cap slot n_sent n_seen w m (P_HasRoom item cw) =
     (cw = w + of_nat n_sent \<and> n_sent < n_seen + unat cap)"
| "producer_ok T cap slot n_sent n_seen w m (P_Constructed item cw) =
     (cw = w + of_nat n_sent \<and> n_sent < n_seen + unat cap \<and> object_at T m (slot cw) = item)"

fun consumer_ok :: "'a list \<Rightarrow> nat \<Rightarrow> nat \<Rightarrow> u64 \<Rightarrow> 'a consumer_pc \<Rightarrow> bool" where
  "consumer_ok hist n_taken n_seen w C_Idle = True"
| "consumer_ok hist n_taken n_seen w (C_PeekLoadedRead cr) = (cr = w + of_nat n_taken)"
| "consumer_ok hist n_taken n_seen w (C_HoldsPointer cr) =
     (cr = w + of_nat n_taken \<and> n_taken < n_seen)"
| "consumer_ok hist n_taken n_seen w (C_HasValue v) =
     (n_taken < n_seen \<and> v = hist ! n_taken)"
| "consumer_ok hist n_taken n_seen w (C_PopLoadedRead cr v) =
     (cr = w + of_nat n_taken \<and> n_taken < n_seen \<and> v = hist ! n_taken)"
| "consumer_ok hist n_taken n_seen w (C_PopNonempty cr v) =
     (cr = w + of_nat n_taken \<and> n_taken < n_seen \<and> v = hist ! n_taken)"
| "consumer_ok hist n_taken n_seen w (C_Destroyed cr v) =
     (cr = w + of_nat n_taken \<and> n_taken < n_seen \<and> v = hist ! n_taken)"

text \<open>The first slot that still has to hold its element: none of the consumer's once it ran
  the destructor.\<close>

fun live_from :: "'a consumer_pc \<Rightarrow> nat \<Rightarrow> nat" where
  "live_from (C_Destroyed cr v) n_taken = Suc n_taken"
| "live_from _ n_taken = n_taken"

definition protocol_inv ::
  "'a cpp_type \<Rightarrow> u64 \<Rightarrow> (u64 \<Rightarrow> address) \<Rightarrow> u64 \<Rightarrow> nat \<Rightarrow> nat \<Rightarrow> 'a protocol_state \<Rightarrow> bool" where
  "protocol_inv T cap slot w p_seen c_seen s \<longleftrightarrow>
     write_at s = w + of_nat (length (log_sent s)) \<and> read_at s = w + of_nat (length (log_taken s)) \<and>
     last_read s = w + of_nat p_seen \<and> last_write s = w + of_nat c_seen \<and>
     p_seen \<le> length (log_taken s) \<and> length (log_taken s) \<le> c_seen \<and> c_seen \<le> length (log_sent s) \<and>
     length (log_sent s) \<le> p_seen + unat cap \<and>
     log_taken s = take (length (log_taken s)) (log_sent s) \<and>
     (\<forall>k. live_from (popper s) (length (log_taken s)) \<le> k \<and> k < length (log_sent s) \<longrightarrow>
        object_at T (bytes s) (slot (w + of_nat k)) = log_sent s ! k) \<and>
     producer_ok T cap slot (length (log_sent s)) p_seen w (bytes s) (pusher s) \<and>
     consumer_ok (log_sent s) (length (log_taken s)) c_seen w (popper s)"

lemma live_from_bounds: "n \<le> live_from c n" "live_from c n \<le> Suc n"
  by (cases c; simp)+

lemma protocol_inv_start: "protocol_inv T cap slot w 0 0 (protocol_start w m)"
  by (simp add: protocol_inv_def protocol_start_def)

lemma protocol_inv_bounds:
  assumes "protocol_inv T cap slot w p c s"
  shows "p \<le> length (log_taken s)" and "length (log_taken s) \<le> c" and "c \<le> length (log_sent s)"
    and "length (log_sent s) \<le> p + unat cap"
    and "length (log_sent s) - p < 2 ^ 64" and "length (log_sent s) - length (log_taken s) < 2 ^ 64"
proof -
  show *: "p \<le> length (log_taken s)" "length (log_taken s) \<le> c" "c \<le> length (log_sent s)"
      "length (log_sent s) \<le> p + unat cap"
    using assms by (simp_all add: protocol_inv_def)
  then show "length (log_sent s) - p < 2 ^ 64" "length (log_sent s) - length (log_taken s) < 2 ^ 64"
    using unat_u64_lt [of cap] by linarith+
qed

text \<open>What the consumer may load as write index, and the producer as read index.\<close>

lemma load_write_count:
  assumes inv: "protocol_inv T cap slot w p c s"
    and ld: "may_load (last_write s) (write_at s) cw"
  obtains c' where "c \<le> c'" and "c' \<le> length (log_sent s)" and "cw = w + of_nat c'"
    and "cw = w + of_nat (length (log_taken s)) \<longleftrightarrow> c' = length (log_taken s)"
proof -
  note near = protocol_inv_bounds(6) [OF inv] and le = protocol_inv_bounds(3) [OF inv]
    and taken_le = protocol_inv_bounds(2) [OF inv]
  have "may_load (w + of_nat c) (w + of_nat (length (log_sent s))) cw"
    using inv ld by (simp add: protocol_inv_def)
  then obtain c' where c': "c \<le> c'" "c' \<le> length (log_sent s)" "cw = w + of_nat c'"
    using le near taken_le by (auto elim: may_load_count)
  have "cw = w + of_nat (length (log_taken s)) \<longleftrightarrow> c' = length (log_taken s)"
    unfolding c'(3) using c' near taken_le by (intro index_eq_iff) auto
  with c' show thesis by (rule that)
qed

lemma load_read_count:
  assumes inv: "protocol_inv T cap slot w p c s"
    and ld: "may_load (last_read s) (read_at s) cr"
  obtains p' where "p \<le> p'" and "p' \<le> length (log_taken s)" and "cr = w + of_nat p'"
    and "w + of_nat (length (log_sent s)) - cr \<ge> cap \<longleftrightarrow> p' + unat cap \<le> length (log_sent s)"
proof -
  note near = protocol_inv_bounds(5) [OF inv] and le = protocol_inv_bounds(1) [OF inv]
  have taken_le: "length (log_taken s) \<le> length (log_sent s)"
    using protocol_inv_bounds(2,3) [OF inv] by simp
  have "may_load (w + of_nat p) (w + of_nat (length (log_taken s))) cr"
    using inv ld by (simp add: protocol_inv_def)
  then obtain p' where p': "p \<le> p'" "p' \<le> length (log_taken s)" "cr = w + of_nat p'"
    using le near taken_le by (auto elim: may_load_count)
  have "unat (w + of_nat (length (log_sent s)) - cr) = length (log_sent s) - p'"
    unfolding p'(3) using p' near taken_le by (intro index_distance) auto
  then have "w + of_nat (length (log_sent s)) - cr \<ge> cap \<longleftrightarrow> unat cap \<le> length (log_sent s) - p'"
    by (simp only: word_le_nat_alt)
  also have "\<dots> \<longleftrightarrow> p' + unat cap \<le> length (log_sent s)"
    using p' taken_le by auto
  finally show thesis using p' that by blast
qed

lemma protocol_inv_sizes:
  assumes "protocol_inv T cap slot w p c s"
  shows "length (log_taken s) \<le> length (log_sent s)" and "length (log_sent s) \<le> length (log_taken s) + unat cap"
    and "unat (write_at s - read_at s) = length (log_sent s) - length (log_taken s)"
proof -
  show *: "length (log_taken s) \<le> length (log_sent s)" "length (log_sent s) \<le> length (log_taken s) + unat cap"
    using assms by (simp_all add: protocol_inv_def)
  then have "length (log_sent s) - length (log_taken s) < 2 ^ 64"
    using unat_u64_lt [of cap] by linarith
  then show "unat (write_at s - read_at s) = length (log_sent s) - length (log_taken s)"
    using assms index_distance [OF *(1), of w] by (simp add: protocol_inv_def)
qed

section \<open>The interface of a queue\<close>

text \<open>
  A queue is given by a configuration \<open>q\<close>: its capacity, the slot of an index, the value both
  indices start at. \<open>usable q n\<close> says that the index reached after \<open>n\<close> messages is still within
  what the queue supports; up to there slots less than a capacity apart must not overlap.
\<close>

locale ring_protocol = object_type T for T :: "'a cpp_type" +
  fixes capacity :: "'q \<Rightarrow> u64"
    and slot :: "'q \<Rightarrow> u64 \<Rightarrow> address"
    and dtor :: "memory \<Rightarrow> address \<Rightarrow> memory"
    and origin :: "'q \<Rightarrow> u64"
    and valid :: "'q \<Rightarrow> bool"
    and usable :: "'q \<Rightarrow> nat \<Rightarrow> bool"
  assumes slots_distinct: "valid q \<Longrightarrow> i < j \<Longrightarrow> j < i + unat (capacity q) \<Longrightarrow> usable q j \<Longrightarrow>
      apart (slot q (origin q + of_nat i)) (unat (size_of T))
            (slot q (origin q + of_nat j)) (unat (size_of T))"
    and dtor_elsewhere: "apart a (unat (size_of T)) b (unat (size_of T)) \<Longrightarrow>
      object_at T (dtor m a) b = object_at T m b"
    and usable_down: "usable q n \<Longrightarrow> k \<le> n \<Longrightarrow> usable q k"
begin

abbreviation step where "step q \<equiv> protocol_step T (capacity q) (slot q) dtor"
abbreviation inv where "inv q \<equiv> protocol_inv T (capacity q) (slot q) (origin q)"
abbreviation place where "place q k \<equiv> slot q (origin q + of_nat k)"

lemma places_apart:
  assumes "valid q" and "j \<noteq> k" and "j < k + unat (capacity q)" and "k < j + unat (capacity q)"
    and "j \<le> n" and "k \<le> n" and "usable q n"
  shows "apart (place q j) (unat (size_of T)) (place q k) (unat (size_of T))"
proof (cases "j < k")
  case True
  with assms show ?thesis by (intro slots_distinct usable_down [OF assms(7)])
next
  case False
  with assms have "apart (place q k) (unat (size_of T)) (place q j) (unat (size_of T))"
    by (intro slots_distinct usable_down [OF assms(7)]) auto
  then show ?thesis by (simp only: apart_sym)
qed

lemma inv_construct:
  assumes inv: "inv q p c s" and pc: "pusher s = P_HasRoom item cw"
    and q: "valid q" "usable q (length (log_sent s))"
  shows "inv q p c (s\<lparr>pusher := P_Constructed item cw, bytes := construct_at T (bytes s) (slot q cw) item\<rparr>)"
proof -
  have cw: "cw = origin q + of_nat (length (log_sent s))" and room: "length (log_sent s) < p + unat (capacity q)"
    using inv pc by (simp_all add: protocol_inv_def)
  have "object_at T (construct_at T (bytes s) (slot q cw) item) (place q k) =
      object_at T (bytes s) (place q k)"
    if k: "length (log_taken s) \<le> k" "k < length (log_sent s)" for k
    unfolding cw
  proof (intro object_construct_apart places_apart [OF q(1) _ _ _ _ _ q(2)])
    show "length (log_sent s) < k + unat (capacity q)"
      using room k inv by (auto simp: protocol_inv_def)
  qed (use k in auto)
  then show ?thesis
    using inv pc live_from_bounds(1) [of "length (log_taken s)" "popper s"]
    by (auto simp: protocol_inv_def)
qed

lemma inv_give_up:
  assumes inv: "inv q p c s" and pc: "popper s = C_PopNonempty cr v"
    and q: "valid q" "usable q (length (log_sent s))"
  shows "inv q p c (s\<lparr>popper := C_Destroyed cr v, bytes := dtor (bytes s) (slot q cr)\<rparr>)"
proof -
  let ?m = "dtor (bytes s) (slot q cr)"
  have cr: "cr = origin q + of_nat (length (log_taken s))"
    and bound: "length (log_sent s) \<le> p + unat (capacity q)" "p \<le> length (log_taken s)"
    and lt: "length (log_taken s) < length (log_sent s)"
    using inv pc by (auto simp: protocol_inv_def)
  have kept: "object_at T ?m (place q k) = object_at T (bytes s) (place q k)"
    if "length (log_taken s) < k" "k < length (log_taken s) + unat (capacity q)" "k \<le> length (log_sent s)" for k
    unfolding cr
    by (intro dtor_elsewhere places_apart [OF q(1) _ _ _ _ _ q(2)]) (use that lt in auto)
  have "producer_ok T (capacity q) (slot q) (length (log_sent s)) p (origin q) ?m (pusher s)"
  proof (cases "pusher s")
    case (P_Constructed item cw)
    then have "cw = origin q + of_nat (length (log_sent s))" "length (log_sent s) < p + unat (capacity q)"
      "object_at T (bytes s) (slot q cw) = item"
      using inv by (auto simp: protocol_inv_def)
    then show ?thesis using P_Constructed kept [OF lt] bound by simp
  qed (use inv in \<open>auto simp: protocol_inv_def\<close>)
  moreover have "object_at T ?m (place q k) = log_sent s ! k"
    if k: "Suc (length (log_taken s)) \<le> k" "k < length (log_sent s)" for k
    using kept [of k] k bound inv pc by (simp add: protocol_inv_def)
  ultimately show ?thesis
    using inv pc bound unfolding cr by (simp add: protocol_inv_def)
qed

lemma inv_store_write:
  assumes inv: "inv q p c s" and pc: "pusher s = P_Constructed item cw"
  shows "inv q p c (s\<lparr>pusher := P_Idle, write_at := cw + 1, log_sent := log_sent s @ [item]\<rparr>)"
proof -
  have "consumer_ok (log_sent s @ [item]) (length (log_taken s)) c (origin q) (popper s)"
    using inv by (cases "popper s") (auto simp: protocol_inv_def nth_append)
  then show ?thesis
    using inv pc by (auto simp: protocol_inv_def nth_append less_Suc_eq)
qed

lemma inv_store_read:
  assumes inv: "inv q p c s" and pc: "popper s = C_Destroyed cr v"
  shows "inv q p c (s\<lparr>popper := C_Idle, read_at := cr + 1, log_taken := log_taken s @ [v]\<rparr>)"
proof -
  have lt: "length (log_taken s) < c" and v: "v = log_sent s ! length (log_taken s)"
    and hist: "log_taken s = take (length (log_taken s)) (log_sent s)" and c: "c \<le> length (log_sent s)"
    using inv pc by (simp_all add: protocol_inv_def)
  have "log_taken s @ [v] = take (Suc (length (log_taken s))) (log_sent s)"
    using hist lt c by (simp add: take_Suc_conv_app_nth v)
  then show ?thesis using inv pc lt by (auto simp: protocol_inv_def)
qed

lemma inv_step:
  assumes "step q s t" and inv: "inv q p c s" and q: "valid q" "usable q (length (log_sent s))"
  shows "\<exists>p' c'. inv q p' c' t"
  using assms(1)
proof cases
  case (load_write item)
  then have "inv q p c t" using inv by (auto simp: protocol_inv_def)
  then show ?thesis by blast
next
  case (full item cw cr)
  obtain p' where "p \<le> p'" "p' \<le> length (log_taken s)" "cr = origin q + of_nat p'"
    using load_read_count [OF inv full(3)] by blast
  then have "inv q p' c t" using inv full by (auto simp: protocol_inv_def)
  then show ?thesis by blast
next
  case (has_room item cw cr)
  have cw: "cw = origin q + of_nat (length (log_sent s))" using inv has_room(2) by (simp add: protocol_inv_def)
  obtain p' where "p \<le> p'" "p' \<le> length (log_taken s)" "cr = origin q + of_nat p'"
      "length (log_sent s) < p' + unat (capacity q)"
    using load_read_count [OF inv has_room(3)] has_room(4) unfolding cw by (metis not_le)
  then have "inv q p' c t" using inv has_room cw by (auto simp: protocol_inv_def)
  then show ?thesis by blast
next
  case (construct item cw)
  then show ?thesis using inv_construct [OF inv _ q] by blast
next
  case (store_write item cw)
  then show ?thesis using inv_store_write [OF inv] by blast
next
  case peek_load
  then have "inv q p c t" using inv by (auto simp: protocol_inv_def)
  then show ?thesis by blast
next
  case (peek_fails cr cw)
  obtain c' where "c \<le> c'" "c' \<le> length (log_sent s)" "cw = origin q + of_nat c'"
    using load_write_count [OF inv peek_fails(3)] by blast
  then have "inv q p c' t" using inv peek_fails by (auto simp: protocol_inv_def)
  then show ?thesis by blast
next
  case (peek_points cr cw)
  obtain c' where "c \<le> c'" "c' \<le> length (log_sent s)" "cw = origin q + of_nat c'"
      "cw = origin q + of_nat (length (log_taken s)) \<longleftrightarrow> c' = length (log_taken s)"
    using load_write_count [OF inv peek_points(3)] by blast
  then have "inv q p c' t" using inv peek_points by (auto simp: protocol_inv_def)
  then show ?thesis by blast
next
  case (read_slot cr)
  then have "inv q p c t" using inv by (auto simp: protocol_inv_def)
  then show ?thesis by blast
next
  case (pop_load v)
  then have "inv q p c t" using inv by (auto simp: protocol_inv_def)
  then show ?thesis by blast
next
  case (pop_fails cr v cw)
  obtain c' where "c \<le> c'" "c' \<le> length (log_sent s)" "cw = origin q + of_nat c'"
    using load_write_count [OF inv pop_fails(3)] by blast
  then have "inv q p c' t" using inv pop_fails by (auto simp: protocol_inv_def)
  then show ?thesis by blast
next
  case (pop_goes_on cr v cw)
  obtain c' where "c \<le> c'" "c' \<le> length (log_sent s)" "cw = origin q + of_nat c'"
    using load_write_count [OF inv pop_goes_on(3)] by blast
  then have "inv q p c' t" using inv pop_goes_on by (auto simp: protocol_inv_def)
  then show ?thesis by blast
next
  case (give_up cr v)
  then show ?thesis using inv_give_up [OF inv _ q] by blast
next
  case (store_read cr v)
  then show ?thesis using inv_store_read [OF inv] by blast
next
  case (elsewhere m)
  then have "inv q p c t" using inv by (cases "pusher s") (auto simp: protocol_inv_def)
  then show ?thesis by blast
qed

text \<open>The invariant holds in every reachable state the queue supports.\<close>

lemma reachable_inv:
  assumes "(step q)\<^sup>*\<^sup>* (protocol_start (origin q) m) s" and "valid q" and "usable q (length (log_sent s))"
  shows "\<exists>p c. inv q p c s"
  using assms(1,3)
proof (induction rule: rtranclp_induct)
  case base
  then show ?case using protocol_inv_start by blast
next
  case (step s t)
  then have us: "usable q (length (log_sent s))" by (blast intro: usable_down protocol_sent_grows)
  then show ?case using step.IH inv_step [OF step.hyps(2) _ assms(2)] by blast
qed

text \<open>What every interleaving keeps to: order, no loss, no duplication, and the bound.\<close>

lemma fifo:
  assumes "(step q)\<^sup>*\<^sup>* (protocol_start (origin q) m) s" and "valid q" and "usable q (length (log_sent s))"
  shows "log_taken s = take (length (log_taken s)) (log_sent s)"
    and "length (log_taken s) \<le> length (log_sent s)"
    and "length (log_sent s) \<le> length (log_taken s) + unat (capacity q)"
    and "unat (write_at s - read_at s) = length (log_sent s) - length (log_taken s)"
  using reachable_inv [OF assms] by (auto simp: protocol_inv_sizes) (simp add: protocol_inv_def)

text \<open>The slots the two threads are about to touch never overlap.\<close>

lemma no_overlap:
  assumes "(step q)\<^sup>*\<^sup>* (protocol_start (origin q) m) s" and "valid q" and "usable q (length (log_sent s))"
    and pa: "pusher s = P_HasRoom item cw"
    and ca: "popper s = C_HoldsPointer cr \<or> popper s = C_PopNonempty cr v"
  shows "apart (slot q cw) (unat (size_of T)) (slot q cr) (unat (size_of T))"
proof -
  obtain p c where inv: "inv q p c s" using reachable_inv [OF assms(1-3)] by blast
  note bounds = protocol_inv_bounds [OF inv]
  have a: "cw = origin q + of_nat (length (log_sent s))" and room: "length (log_sent s) < p + unat (capacity q)"
    using inv pa by (simp_all add: protocol_inv_def)
  have b: "cr = origin q + of_nat (length (log_taken s))" and ne: "length (log_taken s) < c"
    using inv ca by (auto simp: protocol_inv_def)
  show ?thesis
    unfolding a b using room ne bounds by (intro places_apart [OF assms(2) _ _ _ _ _ assms(3)]) auto
qed

text \<open>Whenever the consumer is about to read a slot, it holds the oldest element not yet taken;
  an idle consumer finds it at the read index.\<close>

lemma reads_oldest:
  assumes "(step q)\<^sup>*\<^sup>* (protocol_start (origin q) m) s" and "valid q" and "usable q (length (log_sent s))"
    and "popper s = C_HoldsPointer cr"
  shows "length (log_taken s) < length (log_sent s)"
    and "object_at T (bytes s) (slot q cr) = log_sent s ! length (log_taken s)"
  using reachable_inv [OF assms(1-3)] assms(4) by (auto simp: protocol_inv_def)

lemma idle_front:
  assumes "(step q)\<^sup>*\<^sup>* (protocol_start (origin q) m) s" and "valid q" and "usable q (length (log_sent s))"
    and "popper s = C_Idle" and "length (log_taken s) < length (log_sent s)"
  shows "write_at s \<noteq> read_at s"
    and "object_at T (bytes s) (slot q (read_at s)) = log_sent s ! length (log_taken s)"
proof -
  show "write_at s \<noteq> read_at s" using fifo(4) [OF assms(1-3)] assms(5) by auto
  show "object_at T (bytes s) (slot q (read_at s)) = log_sent s ! length (log_taken s)"
    using reachable_inv [OF assms(1-3)] assms(4,5) by (auto simp: protocol_inv_def)
qed

end

section \<open>Queues whose elements stay behind\<close>

text \<open>
  Where giving up an element leaves its bytes alone, the slot of a message still holds it after
  the pop, until the producer constructs the message one capacity later.
\<close>

definition overwritten :: "u64 \<Rightarrow> 'a protocol_state \<Rightarrow> nat \<Rightarrow> bool" where
  "overwritten cap s k \<longleftrightarrow> k + unat cap < length (log_sent s) \<or>
     k + unat cap = length (log_sent s) \<and> (\<exists>item cw. pusher s = P_Constructed item cw)"

locale keeping_protocol = ring_protocol +
  assumes dtor_keeps: "dtor m a = m"
begin

lemma kept_step:
  assumes "step q s t" and inv: "inv q p c s" and q: "valid q" "usable q (length (log_sent s))"
    and kept: "\<And>k. k < length (log_sent s) \<Longrightarrow> \<not> overwritten (capacity q) s k \<Longrightarrow>
      object_at T (bytes s) (place q k) = log_sent s ! k"
    and k: "k < length (log_sent t)" and fresh: "\<not> overwritten (capacity q) t k"
  shows "object_at T (bytes t) (place q k) = log_sent t ! k"
  using assms(1)
proof cases
  case (construct item cw)
  have cw: "cw = origin q + of_nat (length (log_sent s))"
    using inv construct by (simp add: protocol_inv_def)
  have "length (log_sent s) < k + unat (capacity q)" "k < length (log_sent s)"
    using fresh k construct by (auto simp: overwritten_def)
  moreover from this have "\<not> overwritten (capacity q) s k" by (simp add: overwritten_def)
  ultimately show ?thesis
    using construct kept [of k] unfolding cw
    by (simp add: object_construct_apart places_apart [OF q(1) _ _ _ _ _ q(2)])
next
  case (store_write item cw)
  have built: "object_at T (bytes s) (place q (length (log_sent s))) = item"
    using inv store_write by (auto simp: protocol_inv_def)
  have "k < length (log_sent s) \<Longrightarrow> \<not> overwritten (capacity q) s k"
    using fresh store_write by (auto simp: overwritten_def)
  then show ?thesis
    using store_write built kept [of k] k by (cases "k = length (log_sent s)") (auto simp: nth_append)
qed (use kept k fresh in \<open>auto simp: overwritten_def dtor_keeps\<close>)

lemma kept:
  assumes "(step q)\<^sup>*\<^sup>* (protocol_start (origin q) m) s" and "valid q" and "usable q (length (log_sent s))"
    and "k < length (log_sent s)" and "\<not> overwritten (capacity q) s k"
  shows "object_at T (bytes s) (place q k) = log_sent s ! k"
  using assms(1,3-5)
proof (induction arbitrary: k rule: rtranclp_induct)
  case base
  then show ?case by (simp add: protocol_start_def)
next
  case (step s t)
  have us: "usable q (length (log_sent s))"
    by (rule usable_down [OF step.prems(1) protocol_sent_grows [OF step.hyps(2)]])
  obtain p c where "inv q p c s" using reachable_inv [OF step.hyps(1) assms(2) us] by blast
  then show ?case using kept_step [OF step.hyps(2) _ assms(2) us step.IH [OF us]] step.prems by blast
qed

end

end
