(* ===== verification/Spsc_Concurrent.thy ===== *)
theory Spsc_Concurrent
  imports Spsc_Ring_Buffer Ring_Protocol
begin

text \<open>
  One producer thread and one consumer thread on a shared ring of
  \<open>include/phoenix/core/spsc_ring_buffer.hpp\<close>, interleaved at every atomic load, atomic store
  and element access of \<open>Push\<close>, \<open>Peek\<close> and \<open>Pop\<close>. An acquire load of the other thread's
  index need not return the newest value: it returns any value between the last one this thread
  saw and the current one (coherence of one atomic object whose values only move forward).
\<close>

section \<open>Threads and steps\<close>

text \<open>
  The shared ring and memory, where each thread is, the value of the other's index each thread
  saw last, and two histories: what was pushed and what was read and popped.
\<close>

record 'a spsc_state =
  ring :: SpscRingBuffer
  mem :: memory
  producer :: "'a producer_pc"
  consumer :: "'a consumer_pc"
  seen_read :: u64
  seen_write :: u64
  pushed :: "'a list"
  popped :: "'a list"

inductive spsc_step :: "'a cpp_type \<Rightarrow> u64 \<Rightarrow> 'a spsc_state \<Rightarrow> 'a spsc_state \<Rightarrow> bool"
  for T :: "'a cpp_type" and cap :: u64 where
  push_load_write:
    "producer s = P_Idle \<Longrightarrow>
     spsc_step T cap s (s\<lparr>producer := P_LoadedWrite item (rb_write_idx (ring s))\<rparr>)"
| push_full:
    "producer s = P_LoadedWrite item cw \<Longrightarrow> may_load (seen_read s) (rb_read_idx (ring s)) cr \<Longrightarrow>
     cw - cr \<ge> cap \<Longrightarrow>
     spsc_step T cap s (s\<lparr>producer := P_Idle, seen_read := cr\<rparr>)"
| push_has_room:
    "producer s = P_LoadedWrite item cw \<Longrightarrow> may_load (seen_read s) (rb_read_idx (ring s)) cr \<Longrightarrow>
     \<not> cw - cr \<ge> cap \<Longrightarrow>
     spsc_step T cap s (s\<lparr>producer := P_HasRoom item cw, seen_read := cr\<rparr>)"
| push_construct:
    "producer s = P_HasRoom item cw \<Longrightarrow>
     spsc_step T cap s (s\<lparr>producer := P_Constructed item cw,
       mem := construct_at T (mem s) (Spsc_GetElementPtr T cap (ring s) cw) item\<rparr>)"
| push_store_write:
    "producer s = P_Constructed item cw \<Longrightarrow>
     spsc_step T cap s (s\<lparr>producer := P_Idle, ring := (ring s)\<lparr>rb_write_idx := cw + 1\<rparr>,
       pushed := pushed s @ [item]\<rparr>)"
| peek_load_read:
    "consumer s = C_Idle \<Longrightarrow>
     spsc_step T cap s (s\<lparr>consumer := C_PeekLoadedRead (rb_read_idx (ring s))\<rparr>)"
| peek_empty:
    "consumer s = C_PeekLoadedRead cr \<Longrightarrow> may_load (seen_write s) (rb_write_idx (ring s)) cw \<Longrightarrow>
     cw = cr \<Longrightarrow>
     spsc_step T cap s (s\<lparr>consumer := C_Idle, seen_write := cw\<rparr>)"
| peek_found:
    "consumer s = C_PeekLoadedRead cr \<Longrightarrow> may_load (seen_write s) (rb_write_idx (ring s)) cw \<Longrightarrow>
     cw \<noteq> cr \<Longrightarrow>
     spsc_step T cap s (s\<lparr>consumer := C_HoldsPointer cr, seen_write := cw\<rparr>)"
| read_element:
    "consumer s = C_HoldsPointer cr \<Longrightarrow>
     spsc_step T cap s (s\<lparr>consumer :=
       C_HasValue (object_at T (mem s) (Spsc_GetElementPtr T cap (ring s) cr))\<rparr>)"
| pop_load_read:
    "consumer s = C_HasValue v \<Longrightarrow>
     spsc_step T cap s (s\<lparr>consumer := C_PopLoadedRead (rb_read_idx (ring s)) v\<rparr>)"
| pop_empty:
    "consumer s = C_PopLoadedRead cr v \<Longrightarrow> may_load (seen_write s) (rb_write_idx (ring s)) cw \<Longrightarrow>
     cw = cr \<Longrightarrow>
     spsc_step T cap s (s\<lparr>consumer := C_Idle, seen_write := cw\<rparr>)"
| pop_nonempty:
    "consumer s = C_PopLoadedRead cr v \<Longrightarrow> may_load (seen_write s) (rb_write_idx (ring s)) cw \<Longrightarrow>
     cw \<noteq> cr \<Longrightarrow>
     spsc_step T cap s (s\<lparr>consumer := C_PopNonempty cr v, seen_write := cw\<rparr>)"
| pop_destroy:
    "consumer s = C_PopNonempty cr v \<Longrightarrow>
     spsc_step T cap s (s\<lparr>consumer := C_Destroyed cr v,
       mem := destroy_at T (mem s) (Spsc_GetElementPtr T cap (ring s) cr)\<rparr>)"
| pop_store_read:
    "consumer s = C_Destroyed cr v \<Longrightarrow>
     spsc_step T cap s (s\<lparr>consumer := C_Idle, ring := (ring s)\<lparr>rb_read_idx := cr + 1\<rparr>,
       popped := popped s @ [v]\<rparr>)"

text \<open>Both threads idle on an empty ring, at any index.\<close>

definition spsc_start :: "SpscRingBuffer \<Rightarrow> memory \<Rightarrow> 'a spsc_state" where
  "spsc_start q m = \<lparr>ring = q, mem = m, producer = P_Idle, consumer = C_Idle,
     seen_read = rb_read_idx q, seen_write = rb_write_idx q, pushed = [], popped = []\<rparr>"

inductive spsc_reachable ::
    "'a cpp_type \<Rightarrow> u64 \<Rightarrow> SpscRingBuffer \<Rightarrow> memory \<Rightarrow> 'a spsc_state \<Rightarrow> bool"
  for T :: "'a cpp_type" and cap :: u64 and q :: SpscRingBuffer and m :: memory where
  start: "spsc_reachable T cap q m (spsc_start q m)"
| step: "spsc_reachable T cap q m s \<Longrightarrow> spsc_step T cap s t \<Longrightarrow> spsc_reachable T cap q m t"

inductive_cases spsc_stepE: "spsc_step T cap s t"

section \<open>The ring follows the protocol\<close>

definition spsc_view :: "'a spsc_state \<Rightarrow> 'a protocol_state" where
  "spsc_view s = \<lparr>write_at = rb_write_idx (ring s), read_at = rb_read_idx (ring s), bytes = mem s,
     pusher = producer s, popper = consumer s, last_read = seen_read s, last_write = seen_write s,
     log_sent = pushed s, log_taken = popped s\<rparr>"

lemma spsc_view_simps [simp]:
  "write_at (spsc_view s) = rb_write_idx (ring s)" "read_at (spsc_view s) = rb_read_idx (ring s)"
  "bytes (spsc_view s) = mem s" "pusher (spsc_view s) = producer s"
  "popper (spsc_view s) = consumer s" "last_read (spsc_view s) = seen_read s"
  "last_write (spsc_view s) = seen_write s" "log_sent (spsc_view s) = pushed s"
  "log_taken (spsc_view s) = popped s"
  by (simp_all add: spsc_view_def)

text \<open>A step only moves indices, and the step of the protocol with the same name matches it.\<close>

lemma spsc_step_slots:
  "spsc_step T cap s t \<Longrightarrow> Spsc_GetElementPtr T cap (ring t) = Spsc_GetElementPtr T cap (ring s)"
  by (auto elim!: spsc_stepE simp: Spsc_GetElementPtr_def fun_eq_iff)

lemma spsc_step_simulated:
  assumes "spsc_step T cap s t"
  shows "protocol_step T cap (Spsc_GetElementPtr T cap (ring s)) (destroy_at T) (spsc_view s) (spsc_view t)"
  using assms by cases (auto simp: spsc_view_def protocol_step.simps)

text \<open>So a reachable state of the ring is, seen through its indices, one of the protocol.\<close>

lemma spsc_reachable_view:
  fixes T :: "'a cpp_type"
  assumes "spsc_reachable T cap q m s" and "Spsc_Empty q"
  shows "(protocol_step T cap (Spsc_GetElementPtr T cap q) (destroy_at T))\<^sup>*\<^sup>*
      (protocol_start (rb_read_idx q) m) (spsc_view s) \<and>
    Spsc_GetElementPtr T cap (ring s) = Spsc_GetElementPtr T cap q"
  using assms(1)
proof induction
  case start
  have "spsc_view (spsc_start q m :: 'a spsc_state) = protocol_start (rb_read_idx q) m"
    using assms(2) by (simp add: spsc_view_def spsc_start_def protocol_start_def Spsc_Empty_def)
  moreover have "ring (spsc_start q m :: 'a spsc_state) = q" by (simp add: spsc_start_def)
  ultimately show ?case by simp
next
  case (step s t)
  then show ?case
    using spsc_step_simulated [OF step.hyps(2)] spsc_step_slots [OF step.hyps(2)]
    by (auto intro: rtranclp.rtrancl_into_rtrancl)
qed

text \<open>The configuration is the capacity and the ring at the start, at whatever index.\<close>

definition spsc_valid :: "'a cpp_type \<Rightarrow> u64 \<times> SpscRingBuffer \<Rightarrow> bool" where
  "spsc_valid T = (\<lambda>(cap, q). Spsc_inv T cap q \<and> Spsc_Empty q)"

sublocale object_type \<subseteq> spsc: ring_protocol T fst "\<lambda>(cap, q). Spsc_GetElementPtr T cap q"
    "destroy_at T" "\<lambda>(cap, q). rb_read_idx q" "spsc_valid T" "\<lambda>_ _. True"
proof (unfold_locales, goal_cases)
  case (1 q i j)
  then show ?case by (cases q) (auto simp: spsc_valid_def intro!: slots_apart)
next
  case (2 a b m)
  then show ?case by (rule object_destroy_apart)
qed simp

section \<open>Element accesses\<close>

text \<open>The slot a thread is about to write, read or destroy in its next step, if any.\<close>

fun producer_access :: "'a cpp_type \<Rightarrow> u64 \<Rightarrow> SpscRingBuffer \<Rightarrow> 'a producer_pc \<Rightarrow> address option" where
  "producer_access T cap q (P_HasRoom item cw) = Some (Spsc_GetElementPtr T cap q cw)"
| "producer_access T cap q _ = None"

fun consumer_access :: "'a cpp_type \<Rightarrow> u64 \<Rightarrow> SpscRingBuffer \<Rightarrow> 'a consumer_pc \<Rightarrow> address option" where
  "consumer_access T cap q (C_HoldsPointer cr) = Some (Spsc_GetElementPtr T cap q cr)"
| "consumer_access T cap q (C_PopNonempty cr v) = Some (Spsc_GetElementPtr T cap q cr)"
| "consumer_access T cap q _ = None"

context object_type
begin

lemma spsc_run:
  assumes "spsc_reachable T cap q m s" and "Spsc_inv T cap q" and "Spsc_Empty q"
  shows "(spsc.step (cap, q))\<^sup>*\<^sup>* (protocol_start (case (cap, q) of (cap, q) \<Rightarrow> rb_read_idx q) m) (spsc_view s)"
    and "spsc_valid T (cap, q)"
    and "Spsc_GetElementPtr T cap (ring s) = Spsc_GetElementPtr T cap q"
  using spsc_reachable_view [OF assms(1,3)] assms(2,3) by (simp_all add: spsc_valid_def)

lemma accesses_apart:
  assumes "spsc_reachable T cap q m s" and "Spsc_inv T cap q" and "Spsc_Empty q"
    and pa: "producer_access T cap (ring s) (producer s) = Some a"
    and ca: "consumer_access T cap (ring s) (consumer s) = Some b"
  shows "apart a sz b sz"
proof -
  note run = spsc_run [OF assms(1-3)]
  obtain item cw where p: "producer s = P_HasRoom item cw" "a = Spsc_GetElementPtr T cap q cw"
    using pa run(3) by (cases "producer s") auto
  obtain cr v where c: "consumer s = C_HoldsPointer cr \<or> consumer s = C_PopNonempty cr v"
      "b = Spsc_GetElementPtr T cap q cr"
    using ca run(3) by (cases "consumer s") auto
  show ?thesis using spsc.no_overlap [OF run(1,2), of item cw cr v] p c by simp
qed

lemma access_in_buffer:
  assumes "spsc_reachable T cap q m s" and "Spsc_inv T cap q" and "Spsc_Empty q"
    and "producer_access T cap (ring s) (producer s) = Some a \<or> consumer_access T cap (ring s) (consumer s) = Some a"
  shows "rb_buffer_start q \<le> a" and "a + sz \<le> rb_buffer_start q + unat (rb_buffer_size q)"
proof -
  obtain i where "a = Spsc_GetElementPtr T cap q i"
    using assms(4) spsc_run(3) [OF assms(1-3)] by (cases "producer s"; cases "consumer s"; auto)
  then show "rb_buffer_start q \<le> a" and "a + sz \<le> rb_buffer_start q + unat (rb_buffer_size q)"
    using slot_in_buffer [OF assms(2)] by simp_all
qed

text \<open>The consumer alone, loading current indices, takes the oldest message.\<close>

lemma consumer_takes_next:
  assumes run: "spsc_reachable T cap q m s" "Spsc_inv T cap q" "Spsc_Empty q" and idle: "consumer s = C_Idle"
    and ne: "length (popped s) < length (pushed s)"
  shows "\<exists>t. (spsc_step T cap)\<^sup>*\<^sup>* s t \<and> producer t = producer s \<and> pushed t = pushed s \<and>
    consumer t = C_Idle \<and> popped t = popped s @ [pushed s ! length (popped s)]"
proof -
  let ?cr = "rb_read_idx (ring s)" and ?cw = "rb_write_idx (ring s)"
  let ?p = "Spsc_GetElementPtr T cap (ring s) ?cr"
  let ?v = "object_at T (mem s) ?p"
  have ne': "?cw \<noteq> ?cr"
    using spsc.idle_front(1) [OF spsc_run(1,2) [OF run]] idle ne by simp
  have v: "?v = pushed s ! length (popped s)"
    using spsc.idle_front(2) [OF spsc_run(1,2) [OF run]] spsc_run(3) [OF run] idle ne by simp
  have load: "may_load x ?cw ?cw" for x by (simp add: may_load_def)
  let ?s1 = "s\<lparr>consumer := C_PeekLoadedRead ?cr\<rparr>"
  let ?s2 = "?s1\<lparr>consumer := C_HoldsPointer ?cr, seen_write := ?cw\<rparr>"
  let ?s3 = "?s2\<lparr>consumer := C_HasValue ?v\<rparr>"
  let ?s4 = "?s3\<lparr>consumer := C_PopLoadedRead ?cr ?v\<rparr>"
  let ?s5 = "?s4\<lparr>consumer := C_PopNonempty ?cr ?v, seen_write := ?cw\<rparr>"
  let ?s6 = "?s5\<lparr>consumer := C_Destroyed ?cr ?v, mem := destroy_at T (mem s) ?p\<rparr>"
  let ?s7 = "?s6\<lparr>consumer := C_Idle, ring := (ring s)\<lparr>rb_read_idx := ?cr + 1\<rparr>,
    popped := popped s @ [?v]\<rparr>"
  have "spsc_step T cap s ?s1" using peek_load_read [OF idle, of T cap] by simp
  moreover have "spsc_step T cap ?s1 ?s2"
    using peek_found [of ?s1 ?cr ?cw T cap] ne' load by simp
  moreover have "spsc_step T cap ?s2 ?s3" using read_element [of ?s2 ?cr T cap] by simp
  moreover have "spsc_step T cap ?s3 ?s4" using pop_load_read [of ?s3 ?v T cap] by simp
  moreover have "spsc_step T cap ?s4 ?s5"
    using pop_nonempty [of ?s4 ?cr ?v ?cw T cap] ne' load by simp
  moreover have "spsc_step T cap ?s5 ?s6" using pop_destroy [of ?s5 ?cr ?v T cap] by simp
  moreover have "spsc_step T cap ?s6 ?s7" using pop_store_read [of ?s6 ?cr ?v T cap] by simp
  ultimately have "(spsc_step T cap)\<^sup>*\<^sup>* s ?s7"
    by (meson converse_rtranclp_into_rtranclp rtranclp.rtrancl_refl)
  moreover have "producer ?s7 = producer s" "pushed ?s7 = pushed s" "consumer ?s7 = C_Idle"
    "popped ?s7 = popped s @ [pushed s ! length (popped s)]" using v by simp_all
  ultimately show ?thesis by blast
qed

end

section \<open>Properties\<close>

text \<open>
  C1. Whatever the interleaving of the two threads and however stale the index values they
  load, the headers the consumer read and popped are a prefix of the headers the producer
  pushed, in order and without loss, duplication or corruption, and at most \<open>cap\<close> headers are
  in flight.
\<close>

theorem spsc_concurrent_fifo:
  assumes "spsc_reachable MsgHeader_type cap q m s"
    and "Spsc_inv MsgHeader_type cap q" and "Spsc_Empty q"
  shows "popped s = take (length (popped s)) (pushed s) \<and>
    length (popped s) \<le> length (pushed s) \<and>
    length (pushed s) - length (popped s) \<le> unat cap \<and>
    unat (Spsc_Size (ring s)) = length (pushed s) - length (popped s)"
  using msg.spsc.fifo [OF msg.spsc_run(1,2) [OF assms]] by (simp add: Spsc_Size_def)

text \<open>
  C18. The threads never race on a slot: whenever the producer is about to construct a header
  and the consumer is about to read or destroy one, the two slots do not overlap; every slot a
  thread is about to touch lies in the buffer of the ring; and what the consumer is about to read
  through the pointer of \<open>Peek\<close> is the oldest header not yet popped.
\<close>

theorem spsc_no_data_race:
  assumes "spsc_reachable MsgHeader_type cap q m s"
    and "Spsc_inv MsgHeader_type cap q" and "Spsc_Empty q"
  shows "(\<forall>a b. producer_access MsgHeader_type cap (ring s) (producer s) = Some a \<and>
        consumer_access MsgHeader_type cap (ring s) (consumer s) = Some b \<longrightarrow> apart a 16 b 16) \<and>
    (\<forall>a. producer_access MsgHeader_type cap (ring s) (producer s) = Some a \<or>
        consumer_access MsgHeader_type cap (ring s) (consumer s) = Some a \<longrightarrow>
        rb_buffer_start q \<le> a \<and> a + 16 \<le> rb_buffer_start q + unat (rb_buffer_size q)) \<and>
    (\<forall>cr. consumer s = C_HoldsPointer cr \<longrightarrow>
        object_at MsgHeader_type (mem s) (Spsc_GetElementPtr MsgHeader_type cap (ring s) cr) =
          pushed s ! length (popped s) \<and> length (popped s) < length (pushed s))"
  using msg.accesses_apart [OF assms] msg.access_in_buffer [OF assms]
    msg.spsc.reads_oldest [OF msg.spsc_run(1,2) [OF assms]] msg.spsc_run(3) [OF assms] by auto

text \<open>
  A pushed header can always be received: from any reachable state with a header in flight
  and an idle consumer, the consumer on its own reaches a state in which it has popped exactly
  the next header, with the producer wherever it was.
\<close>

theorem spsc_consumer_progress:
  assumes "spsc_reachable MsgHeader_type cap q m s"
    and "Spsc_inv MsgHeader_type cap q" and "Spsc_Empty q"
    and "consumer s = C_Idle" and "length (popped s) < length (pushed s)"
  shows "\<exists>t. (spsc_step MsgHeader_type cap)\<^sup>*\<^sup>* s t \<and> producer t = producer s \<and> pushed t = pushed s \<and>
    consumer t = C_Idle \<and> popped t = popped s @ [pushed s ! length (popped s)]"
  using assms by (rule msg.consumer_takes_next)

subsection \<open>Witnesses\<close>

text \<open>The producer pushed one header and is about to construct a second one in the wrapped-around
  slot while the consumer holds the pointer to the first.\<close>

definition sample_header :: "u64 \<Rightarrow> MsgHeader" where
  "sample_header n = \<lparr>seq_id = n, func_id = 1, payload_len = 0\<rparr>"

lemma wrapping_ring_empty: "Spsc_Empty wrapping_ring"
  by (simp add: Spsc_Empty_def)

lemma after_one_push:
  "\<exists>s. spsc_reachable MsgHeader_type 16 wrapping_ring (\<lambda>_. 0) s \<and> producer s = P_Idle \<and>
     consumer s = C_Idle \<and> rb_write_idx (ring s) = 0 \<and> rb_read_idx (ring s) = -1 \<and>
     seen_read s = -1 \<and> seen_write s = -1 \<and> pushed s = [sample_header 1] \<and> popped s = []"
proof -
  let ?T = MsgHeader_type and ?R = "spsc_reachable MsgHeader_type 16 wrapping_ring (\<lambda>_. 0)"
  let ?s0 = "spsc_start wrapping_ring (\<lambda>_. 0) :: MsgHeader spsc_state"
  let ?s1 = "?s0\<lparr>producer := P_LoadedWrite (sample_header 1) (-1)\<rparr>"
  let ?s2 = "?s1\<lparr>producer := P_HasRoom (sample_header 1) (-1), seen_read := -1\<rparr>"
  let ?s3 = "?s2\<lparr>producer := P_Constructed (sample_header 1) (-1), mem :=
    construct_at ?T (\<lambda>_. 0) (Spsc_GetElementPtr ?T 16 wrapping_ring (-1)) (sample_header 1)\<rparr>"
  let ?s4 = "?s3\<lparr>producer := P_Idle, ring := wrapping_ring\<lparr>rb_write_idx := -1 + 1\<rparr>,
    pushed := [sample_header 1]\<rparr>"
  have "?R ?s1"
    using spsc_reachable.step [OF spsc_reachable.start push_load_write [of ?s0 ?T 16 "sample_header 1"]]
    by (simp add: spsc_start_def)
  then have "?R ?s2"
    using spsc_reachable.step [OF _ push_has_room [of ?s1 "sample_header 1" "-1" "-1" 16 ?T]]
    by (simp add: spsc_start_def may_load_def)
  then have "?R ?s3"
    using spsc_reachable.step [OF _ push_construct [of ?s2 "sample_header 1" "-1" ?T 16]]
    by (simp add: spsc_start_def)
  then have "?R ?s4"
    using spsc_reachable.step [OF _ push_store_write [of ?s3 "sample_header 1" "-1" ?T 16]]
    by (simp add: spsc_start_def)
  then show ?thesis by (rule exI [where x = ?s4, OF conjI]) (simp add: spsc_start_def)
qed

lemma both_at_a_slot:
  "\<exists>s. spsc_reachable MsgHeader_type 16 wrapping_ring (\<lambda>_. 0) s \<and>
     producer s = P_HasRoom (sample_header 2) 0 \<and> consumer s = C_HoldsPointer (-1)"
proof -
  let ?T = MsgHeader_type and ?R = "spsc_reachable MsgHeader_type 16 wrapping_ring (\<lambda>_. 0)"
  obtain s where s: "?R s" "producer s = P_Idle" "consumer s = C_Idle" "rb_write_idx (ring s) = 0"
      "rb_read_idx (ring s) = -1" "seen_read s = -1" "seen_write s = -1"
    using after_one_push by blast
  let ?s1 = "s\<lparr>producer := P_LoadedWrite (sample_header 2) 0\<rparr>"
  let ?s2 = "?s1\<lparr>producer := P_HasRoom (sample_header 2) 0, seen_read := -1\<rparr>"
  let ?s3 = "?s2\<lparr>consumer := C_PeekLoadedRead (-1)\<rparr>"
  let ?s4 = "?s3\<lparr>consumer := C_HoldsPointer (-1), seen_write := 0\<rparr>"
  have "?R ?s1"
    using spsc_reachable.step [OF s(1) push_load_write [of s ?T 16 "sample_header 2"]] s by simp
  then have "?R ?s2"
    using spsc_reachable.step [OF _ push_has_room [of ?s1 "sample_header 2" 0 "-1" 16 ?T]] s
    by (simp add: may_load_def word_le_nat_alt)
  then have "?R ?s3"
    using spsc_reachable.step [OF _ peek_load_read [of ?s2 ?T 16]] s by simp
  then have "?R ?s4"
    using spsc_reachable.step [OF _ peek_found [of ?s3 "-1" 0 ?T 16]] s
    by (simp add: may_load_def)
  then show ?thesis by (rule exI [where x = ?s4, OF conjI]) simp
qed

theorem spsc_concurrent_fifo_witness:
  "\<exists>s. spsc_reachable MsgHeader_type 16 wrapping_ring (\<lambda>_. 0) s \<and> unat (Spsc_Size (ring s)) = 1"
proof -
  obtain s where s: "spsc_reachable MsgHeader_type 16 wrapping_ring (\<lambda>_. 0) s"
      "pushed s = [sample_header 1]" "popped s = []"
    using after_one_push by blast
  then show ?thesis
    using spsc_concurrent_fifo [OF s(1) wrapping_ring_inv wrapping_ring_empty] by auto
qed

theorem spsc_no_data_race_witness:
  "\<exists>s a b. spsc_reachable MsgHeader_type 16 wrapping_ring (\<lambda>_. 0) s \<and>
     producer_access MsgHeader_type 16 (ring s) (producer s) = Some a \<and>
     consumer_access MsgHeader_type 16 (ring s) (consumer s) = Some b \<and> apart a 16 b 16 \<and>
     rb_buffer_start wrapping_ring \<le> b \<and> b + 16 \<le> rb_buffer_start wrapping_ring + unat (rb_buffer_size wrapping_ring)"
proof -
  obtain s where s: "spsc_reachable MsgHeader_type 16 wrapping_ring (\<lambda>_. 0) s"
      "producer s = P_HasRoom (sample_header 2) 0" "consumer s = C_HoldsPointer (-1)"
    using both_at_a_slot by blast
  then show ?thesis
    using spsc_no_data_race [OF s(1) wrapping_ring_inv wrapping_ring_empty] by auto
qed

theorem spsc_consumer_progress_witness:
  "\<exists>s t. spsc_reachable MsgHeader_type 16 wrapping_ring (\<lambda>_. 0) s \<and>
     (spsc_step MsgHeader_type 16)\<^sup>*\<^sup>* s t \<and> popped t = [sample_header 1]"
proof -
  obtain s where s: "spsc_reachable MsgHeader_type 16 wrapping_ring (\<lambda>_. 0) s" "consumer s = C_Idle"
      "pushed s = [sample_header 1]" "popped s = []"
    using after_one_push by blast
  then show ?thesis
    using spsc_consumer_progress [OF s(1) wrapping_ring_inv wrapping_ring_empty s(2)] by auto
qed

end
