(* ===== verification/Spsc_Shared_Producers.thy ===== *)
theory Spsc_Shared_Producers
  imports Spsc_Concurrent
begin

text \<open>
  Two producers on one ring, which its header rules out but server and client are: both push to
  the request rings of the segment, and the calls of one object may come from several threads.
  The second producer runs the same \<open>Push\<close> as the first, with a program counter and an index
  seen last of its own.
\<close>

type_synonym 'a two_producers = "'a spsc_state \<times> 'a producer_pc \<times> u64"

inductive shared_step :: "'a cpp_type \<Rightarrow> u64 \<Rightarrow> 'a two_producers \<Rightarrow> 'a two_producers \<Rightarrow> bool"
  for T :: "'a cpp_type" and cap :: u64 where
  first: "spsc_step T cap s t \<Longrightarrow> shared_step T cap (s, pc, seen) (t, pc, seen)"
| second:
    "spsc_step T cap (s\<lparr>producer := pc, seen_read := seen\<rparr>) t \<Longrightarrow> consumer t = consumer s \<Longrightarrow>
     shared_step T cap (s, pc, seen) (t\<lparr>producer := producer s, seen_read := seen_read s\<rparr>, producer t, seen_read t)"

inductive shared_reachable :: "'a cpp_type \<Rightarrow> u64 \<Rightarrow> 'a two_producers \<Rightarrow> 'a two_producers \<Rightarrow> bool"
  for T :: "'a cpp_type" and cap :: u64 and s0 :: "'a two_producers" where
  start: "shared_reachable T cap s0 s0"
| step: "shared_reachable T cap s0 s \<Longrightarrow> shared_step T cap s t \<Longrightarrow> shared_reachable T cap s0 t"

text \<open>Both producers idle on an empty ring.\<close>

definition shared_start :: "SpscRingBuffer \<Rightarrow> memory \<Rightarrow> 'a two_producers" where
  "shared_start q m = (spsc_start q m, P_Idle, rb_read_idx q)"

text \<open>
  The run: both load the write index, both find room, both construct their element in the same
  slot, both store the same new index.
\<close>

lemma lost_push:
  fixes q :: SpscRingBuffer and T :: "'a cpp_type"
  assumes "0 < cap" and "rb_read_idx q = rb_write_idx q"
  defines "slot \<equiv> Spsc_GetElementPtr T cap q (rb_write_idx q)"
  shows "shared_reachable T cap (shared_start q m)
    (\<lparr>ring = q\<lparr>rb_write_idx := rb_write_idx q + 1\<rparr>,
      mem = construct_at T (construct_at T m slot a) slot b, producer = P_Idle, consumer = C_Idle,
      seen_read = rb_write_idx q, seen_write = rb_write_idx q, pushed = [a, b], popped = []\<rparr>,
     P_Idle, rb_write_idx q)"
proof -
  let ?w = "rb_write_idx q"
  let ?s = "\<lambda>ring mem pc pushed. \<lparr>ring = ring, mem = mem, producer = pc, consumer = C_Idle,
      seen_read = ?w, seen_write = ?w, pushed = pushed, popped = []\<rparr>"
  let ?q = "q\<lparr>rb_write_idx := ?w + 1\<rparr>"
  let ?ma = "construct_at T m slot a" let ?mb = "construct_at T ?ma slot b"
  have "shared_start q m = (?s q m (P_Idle :: 'a producer_pc) [], P_Idle, ?w)"
    using assms(2) by (simp add: shared_start_def spsc_start_def)
  then have 0: "shared_reachable T cap (shared_start q m) (?s q m P_Idle [], P_Idle, ?w)"
    using shared_reachable.start [of T cap "shared_start q m"] by simp
  have 1: "shared_step T cap (?s q m P_Idle [], P_Idle, ?w) (?s q m (P_LoadedWrite a ?w) [], P_Idle, ?w)"
    using shared_step.first [OF spsc_step.push_load_write [of "?s q m P_Idle []" T cap a]] by simp
  have 2: "shared_step T cap (?s q m (P_LoadedWrite a ?w) [], P_Idle, ?w)
      (?s q m (P_LoadedWrite a ?w) [], P_LoadedWrite b ?w, ?w)"
    using shared_step.second [OF spsc_step.push_load_write [of "(?s q m (P_LoadedWrite a ?w) [])
      \<lparr>producer := P_Idle, seen_read := ?w\<rparr>" T cap b]] by simp
  have 3: "shared_step T cap (?s q m (P_LoadedWrite a ?w) [], P_LoadedWrite b ?w, ?w)
      (?s q m (P_HasRoom a ?w) [], P_LoadedWrite b ?w, ?w)"
    using shared_step.first [OF spsc_step.push_has_room [of "?s q m (P_LoadedWrite a ?w) []" a ?w ?w cap T]]
      assms(1,2) by simp
  have 4: "shared_step T cap (?s q m (P_HasRoom a ?w) [], P_LoadedWrite b ?w, ?w)
      (?s q m (P_HasRoom a ?w) [], P_HasRoom b ?w, ?w)"
    using shared_step.second [OF spsc_step.push_has_room [of "(?s q m (P_HasRoom a ?w) [])
      \<lparr>producer := P_LoadedWrite b ?w, seen_read := ?w\<rparr>" b ?w ?w cap T]] assms(1,2) by simp
  have 5: "shared_step T cap (?s q m (P_HasRoom a ?w) [], P_HasRoom b ?w, ?w)
      (?s q ?ma (P_Constructed a ?w) [], P_HasRoom b ?w, ?w)"
    using shared_step.first [OF spsc_step.push_construct [of "?s q m (P_HasRoom a ?w) []" a ?w T cap]]
    by (simp add: slot_def)
  have 6: "shared_step T cap (?s q ?ma (P_Constructed a ?w) [], P_HasRoom b ?w, ?w)
      (?s q ?mb (P_Constructed a ?w) [], P_Constructed b ?w, ?w)"
    using shared_step.second [OF spsc_step.push_construct [of "(?s q ?ma (P_Constructed a ?w) [])
      \<lparr>producer := P_HasRoom b ?w, seen_read := ?w\<rparr>" b ?w T cap]] by (simp add: slot_def)
  have 7: "shared_step T cap (?s q ?mb (P_Constructed a ?w) [], P_Constructed b ?w, ?w)
      (?s ?q ?mb P_Idle [a], P_Constructed b ?w, ?w)"
    using shared_step.first [OF spsc_step.push_store_write [of "?s q ?mb (P_Constructed a ?w) []" a ?w T cap]] by simp
  have 8: "shared_step T cap (?s ?q ?mb P_Idle [a], P_Constructed b ?w, ?w) (?s ?q ?mb P_Idle [a, b], P_Idle, ?w)"
    using shared_step.second [OF spsc_step.push_store_write [of "(?s ?q ?mb P_Idle [a])
      \<lparr>producer := P_Constructed b ?w, seen_read := ?w\<rparr>" b ?w T cap]] by simp
  show ?thesis
    by (rule shared_reachable.step [OF shared_reachable.step [OF shared_reachable.step [OF
          shared_reachable.step [OF shared_reachable.step [OF shared_reachable.step [OF
          shared_reachable.step [OF shared_reachable.step [OF 0 1] 2] 3] 4] 5] 6] 7] 8])
qed

section \<open>Properties\<close>

text \<open>
  C33. With two producers on an empty ring of message headers a run exists in which both pushes
  return true and the ring then holds a single header, the second: the first is lost although
  the ring had room for both.
\<close>

theorem Spsc_two_producers_lose:
  assumes "Spsc_inv MsgHeader_type cap q" and "Spsc_Empty q"
  shows "\<exists>s. shared_reachable MsgHeader_type cap (shared_start q m) (s, P_Idle, rb_read_idx q) \<and>
    producer s = P_Idle \<and> pushed s = [a, b] \<and> popped s = [] \<and>
    Spsc_contents MsgHeader_type cap (ring s, mem s) = [b]"
proof -
  let ?w = "rb_write_idx q"
  let ?slot = "Spsc_GetElementPtr MsgHeader_type cap q ?w"
  let ?m = "construct_at MsgHeader_type m ?slot a"
  have idx: "rb_read_idx q = ?w" using assms(2) by (simp add: Spsc_Empty_def)
  have "is_pow2 cap" using assms(1) by (rule Spsc_inv_pow2)
  then have "0 < unat cap" by (rule is_pow2_pos)
  then have pos: "0 < cap" by (simp add: word_less_nat_alt)
  have size: "unat (Spsc_Size q) = 0" using assms(2) by (simp add: Spsc_Empty_iff)
  have "Spsc_contents MsgHeader_type cap (q\<lparr>rb_write_idx := ?w + 1\<rparr>, construct_at MsgHeader_type ?m ?slot b) =
      Spsc_contents MsgHeader_type cap (q, ?m) @ [b]"
    using \<open>0 < unat cap\<close> size by (intro msg.Push_contents [OF assms(1)]) simp
  also have "\<dots> = [b]" by (simp add: Spsc_Empty_contents [OF assms(2)])
  finally show ?thesis
    using lost_push [OF pos idx, of MsgHeader_type m a b] idx by (intro exI conjI) (assumption | simp)+
qed

theorem Spsc_two_producers_lose_witness:
  "\<exists>s. shared_reachable MsgHeader_type 16 (shared_start wrapping_ring (\<lambda>_. 0)) (s, P_Idle, -1) \<and>
     pushed s = [\<lparr>seq_id = 7, func_id = 1, payload_len = 0\<rparr>, \<lparr>seq_id = 8, func_id = 1, payload_len = 0\<rparr>] \<and>
     Spsc_contents MsgHeader_type 16 (ring s, mem s) = [\<lparr>seq_id = 8, func_id = 1, payload_len = 0\<rparr>]"
  using Spsc_two_producers_lose [OF wrapping_ring_inv, of "\<lambda>_. 0"
      "\<lparr>seq_id = 7, func_id = 1, payload_len = 0\<rparr>" "\<lparr>seq_id = 8, func_id = 1, payload_len = 0\<rparr>"]
  by (auto simp: Spsc_Empty_def)

end
