(* ===== verification/Thread_Monitor.thy ===== *)
theory Thread_Monitor
  imports Prelude
begin

text \<open>
  The crash-detection monitor of \<open>include/phoenix/layout/thread_monitor.hpp\<close>: one record of
  atomics per worker, written by the worker around each request and read by the supervisor.
  The value of the clock is an argument of the functions that read it. A transaction begins
  with five separate stores; \<open>BeginTransaction_stores\<close> lists them in program order, so that
  what a concurrent reader may see in between is a prefix of the list.
\<close>

record ThreadMonitor =
  tm_status :: u8
  tm_processing_seq :: u64
  tm_start_timestamp :: u64
  tm_group_id :: u8
  tm_worker_index :: u16

text \<open>Cache-line aligned; the status is padded to 8 bytes and the group id to 2.\<close>

definition sizeof_ThreadMonitor :: nat where
  "sizeof_ThreadMonitor = align_up 64 (8 + 8 + 8 + 2 + 2)"

definition kStatusIdle :: u8 where
  "kStatusIdle = 0"

definition kStatusProcessing :: u8 where
  "kStatusProcessing = 1"

definition Monitor_construct :: ThreadMonitor where
  "Monitor_construct =
     \<lparr>tm_status = kStatusIdle, tm_processing_seq = 0, tm_start_timestamp = 0,
      tm_group_id = 0, tm_worker_index = 0\<rparr>"

record WorkerGroupConfig =
  wg_group_id :: u8
  wg_worker_count :: u16
  wg_queue_capacity :: u32
  wg_stack_size :: u32
  wg_priority :: u32

text \<open>\<open>struct timespec\<close> as \<open>clock_gettime\<close> fills it: two signed 64-bit fields.\<close>

record timespec =
  tv_sec :: int
  tv_nsec :: int

definition Monitor_GetTimestamp :: "timespec \<Rightarrow> u64" where
  "Monitor_GetTimestamp ts = of_int (tv_sec ts) * 1000000 + of_int (tv_nsec ts) div 1000"

definition Monitor_BeginTransaction ::
  "u64 \<Rightarrow> u64 \<Rightarrow> u8 \<Rightarrow> u16 \<Rightarrow> ThreadMonitor \<Rightarrow> ThreadMonitor" where
  "Monitor_BeginTransaction now seq grp index m =
     m\<lparr>tm_status := kStatusProcessing, tm_processing_seq := seq, tm_start_timestamp := now,
       tm_group_id := grp, tm_worker_index := index\<rparr>"

definition Monitor_EndTransaction :: "ThreadMonitor \<Rightarrow> ThreadMonitor" where
  "Monitor_EndTransaction m = m\<lparr>tm_status := kStatusIdle\<rparr>"

definition Monitor_IsProcessing :: "ThreadMonitor \<Rightarrow> bool" where
  "Monitor_IsProcessing m \<longleftrightarrow> tm_status m = kStatusProcessing"

definition Monitor_GetProcessingSeq :: "ThreadMonitor \<Rightarrow> u64" where
  "Monitor_GetProcessingSeq m = tm_processing_seq m"

definition Monitor_GetStartTimestamp :: "ThreadMonitor \<Rightarrow> u64" where
  "Monitor_GetStartTimestamp m = tm_start_timestamp m"

definition Monitor_GetGroupId :: "ThreadMonitor \<Rightarrow> u8" where
  "Monitor_GetGroupId m = tm_group_id m"

definition Monitor_GetWorkerIndex :: "ThreadMonitor \<Rightarrow> u16" where
  "Monitor_GetWorkerIndex m = tm_worker_index m"

definition Monitor_HasTimedOut :: "u64 \<Rightarrow> u64 \<Rightarrow> ThreadMonitor \<Rightarrow> bool" where
  "Monitor_HasTimedOut now timeout_us m \<longleftrightarrow>
     (if \<not> Monitor_IsProcessing m then False
      else let start = Monitor_GetStartTimestamp m in now - start > timeout_us)"

definition Monitor_Reset :: "ThreadMonitor \<Rightarrow> ThreadMonitor" where
  "Monitor_Reset m =
     m\<lparr>tm_status := kStatusIdle, tm_processing_seq := 0, tm_start_timestamp := 0,
       tm_group_id := 0, tm_worker_index := 0\<rparr>"

section \<open>The stores of a transaction\<close>

datatype monitor_store =
  Store_status u8
| Store_processing_seq u64
| Store_start_timestamp u64
| Store_group_id u8
| Store_worker_index u16

primrec apply_store :: "monitor_store \<Rightarrow> ThreadMonitor \<Rightarrow> ThreadMonitor" where
  "apply_store (Store_status x) m = m\<lparr>tm_status := x\<rparr>"
| "apply_store (Store_processing_seq x) m = m\<lparr>tm_processing_seq := x\<rparr>"
| "apply_store (Store_start_timestamp x) m = m\<lparr>tm_start_timestamp := x\<rparr>"
| "apply_store (Store_group_id x) m = m\<lparr>tm_group_id := x\<rparr>"
| "apply_store (Store_worker_index x) m = m\<lparr>tm_worker_index := x\<rparr>"

definition BeginTransaction_stores :: "u64 \<Rightarrow> u64 \<Rightarrow> u8 \<Rightarrow> u16 \<Rightarrow> monitor_store list" where
  "BeginTransaction_stores now seq grp index =
     [Store_status kStatusProcessing, Store_processing_seq seq, Store_start_timestamp now,
      Store_group_id grp, Store_worker_index index]"

lemma BeginTransaction_stores_all:
  "fold apply_store (BeginTransaction_stores now seq grp index) m =
     Monitor_BeginTransaction now seq grp index m"
  by (simp add: BeginTransaction_stores_def Monitor_BeginTransaction_def)

section \<open>Sequences of calls\<close>

datatype monitor_op = Begin u64 u64 u8 u16 | End | ResetOp

primrec monitor_step :: "monitor_op \<Rightarrow> ThreadMonitor \<Rightarrow> ThreadMonitor" where
  "monitor_step (Begin now seq grp index) m = Monitor_BeginTransaction now seq grp index m"
| "monitor_step End m = Monitor_EndTransaction m"
| "monitor_step ResetOp m = Monitor_Reset m"

text \<open>The transaction the calls leave recorded: the last begun one, unless a reset followed.\<close>

fun last_begun :: "monitor_op list \<Rightarrow> u64 \<times> u64 \<times> u8 \<times> u16 \<Rightarrow> u64 \<times> u64 \<times> u8 \<times> u16" where
  "last_begun [] t = t"
| "last_begun (Begin now seq grp index # ops) t = last_begun ops (now, seq, grp, index)"
| "last_begun (End # ops) t = last_begun ops t"
| "last_begun (ResetOp # ops) t = last_begun ops (0, 0, 0, 0)"

definition recorded :: "ThreadMonitor \<Rightarrow> u64 \<times> u64 \<times> u8 \<times> u16" where
  "recorded m = (Monitor_GetStartTimestamp m, Monitor_GetProcessingSeq m, Monitor_GetGroupId m,
     Monitor_GetWorkerIndex m)"

lemmas monitor_defs =
  Monitor_construct_def Monitor_BeginTransaction_def Monitor_EndTransaction_def
  Monitor_IsProcessing_def Monitor_GetProcessingSeq_def Monitor_GetStartTimestamp_def
  Monitor_GetGroupId_def Monitor_GetWorkerIndex_def Monitor_Reset_def
  kStatusIdle_def kStatusProcessing_def recorded_def

lemma monitor_step_processing:
  "Monitor_IsProcessing (monitor_step x m) \<longleftrightarrow> (\<exists>now seq grp index. x = Begin now seq grp index)"
  by (cases x) (simp_all add: monitor_defs)

lemma monitor_step_recorded: "recorded (monitor_step x m) = last_begun [x] (recorded m)"
  by (cases x) (simp_all add: monitor_defs)

lemma last_begun_append: "last_begun (xs @ ys) t = last_begun ys (last_begun xs t)"
  by (induction xs t rule: last_begun.induct) simp_all

lemma fold_monitor_recorded: "recorded (fold monitor_step ops m) = last_begun ops (recorded m)"
  by (induction ops arbitrary: m) (simp_all add: monitor_step_recorded flip: last_begun_append)

section \<open>Properties\<close>

text \<open>
  After any sequence of \<open>BeginTransaction\<close>, \<open>EndTransaction\<close> and \<open>Reset\<close> calls on a fresh
  monitor, it reports PROCESSING exactly when the last call began a transaction, and its
  sequence number, timestamp, group and worker index are those of the last begun transaction,
  zero if none was begun since the last reset.
\<close>

theorem Monitor_history:
  "let m = fold monitor_step ops Monitor_construct
   in (Monitor_IsProcessing m \<longleftrightarrow>
         (\<exists>now seq grp index. ops \<noteq> [] \<and> last ops = Begin now seq grp index)) \<and>
      (Monitor_GetStartTimestamp m, Monitor_GetProcessingSeq m, Monitor_GetGroupId m,
       Monitor_GetWorkerIndex m) = last_begun ops (0, 0, 0, 0)"
proof -
  have "Monitor_IsProcessing (fold monitor_step ops Monitor_construct) \<longleftrightarrow>
      (\<exists>now seq grp index. ops \<noteq> [] \<and> last ops = Begin now seq grp index)"
  proof (cases ops rule: rev_cases)
    case Nil
    then show ?thesis by (simp add: monitor_defs)
  next
    case (snoc xs x)
    then show ?thesis by (simp add: monitor_step_processing)
  qed
  moreover have "recorded (fold monitor_step ops Monitor_construct) = last_begun ops (0, 0, 0, 0)"
    by (simp add: fold_monitor_recorded) (simp add: monitor_defs)
  ultimately show ?thesis by (simp add: recorded_def Let_def)
qed

text \<open>
  A monitor has timed out exactly when it is processing and more than \<open>timeout_us\<close>
  microseconds passed since the transaction began, as long as the clock did not run backwards;
  when the clock reads less than the recorded start, the unsigned difference wraps around to
  \<open>2 ^ 64\<close> minus the gap.
\<close>

theorem Monitor_timeout_exact:
  "Monitor_HasTimedOut now timeout_us m \<longleftrightarrow>
     Monitor_IsProcessing m \<and>
     (if Monitor_GetStartTimestamp m \<le> now
      then unat (Monitor_GetStartTimestamp m) + unat timeout_us < unat now
      else unat timeout_us + (unat (Monitor_GetStartTimestamp m) - unat now) < 2 ^ 64)"
proof -
  have "unat now < unat (Monitor_GetStartTimestamp m) \<Longrightarrow>
      (unat timeout_us < 2 ^ 64 + unat now - unat (Monitor_GetStartTimestamp m)) =
      (unat timeout_us + (unat (Monitor_GetStartTimestamp m) - unat now) < 2 ^ 64)"
    using unat_u64_lt [of "Monitor_GetStartTimestamp m"] by linarith
  then show ?thesis
    by (auto simp: Monitor_HasTimedOut_def Let_def word_less_nat_alt word_le_nat_alt unat_diff_idx
        less_diff_conv add.commute)
qed

text \<open>
  The status is published first. After the first of the stores of \<open>BeginTransaction\<close> a
  reader already sees PROCESSING but still the sequence number and the timestamp of the previous
  transaction, and from then on the monitor counts as timed out whenever the previous
  transaction would; only from the second store on is the sequence number the new one, and only
  from the third on the timestamp.
\<close>

theorem Monitor_begin_publishes_status_first:
  assumes "1 \<le> k" and "k \<le> length (BeginTransaction_stores now seq grp index)"
  shows "let m' = fold apply_store (take k (BeginTransaction_stores now seq grp index)) m
     in Monitor_IsProcessing m' \<and>
        Monitor_GetProcessingSeq m' = (if k = 1 then Monitor_GetProcessingSeq m else seq) \<and>
        Monitor_GetStartTimestamp m' = (if k \<le> 2 then Monitor_GetStartTimestamp m else now) \<and>
        (k \<le> 2 \<longrightarrow> (Monitor_HasTimedOut t us m' \<longleftrightarrow> t - Monitor_GetStartTimestamp m > us))"
proof -
  have "k \<in> {1, 2, 3, 4, 5}" using assms by (auto simp: BeginTransaction_stores_def)
  then show ?thesis
    by (elim insertE emptyE)
      (simp_all add: BeginTransaction_stores_def monitor_defs Monitor_HasTimedOut_def Let_def)
qed

theorem Monitor_begin_publishes_status_first_witness:
  "Monitor_HasTimedOut 6000000 5000000
     (fold apply_store (take 1 (BeginTransaction_stores 6000000 42 0 0)) Monitor_construct)"
  using Monitor_begin_publishes_status_first [of 1 6000000 42 0 0 Monitor_construct 6000000 5000000]
  by (simp add: BeginTransaction_stores_def Let_def monitor_defs)

end
