(* ===== verification/Simplified_Shm_Layout.thy ===== *)
theory Simplified_Shm_Layout
  imports Msg_Header Thread_Monitor Bounded_Fifo
begin

text \<open>
  The layout of a segment shared by one producer and one consumer process, from
  \<open>include/phoenix/layout/simplified_shm_layout.hpp\<close>: a header, the two queue indices, the
  crash monitor, a queue of message headers whose capacity is chosen at run time, and the
  payload buffer. The record holds the fields of the struct; \<open>this\<close> is the address it lives
  at. The queue slots and the payload bytes are in the memory behind it.
\<close>

record SimplifiedShmLayout =
  sl_magic_number :: u32
  sl_version :: u32
  sl_shm_size :: u64
  sl_header_size :: u64
  sl_queue_offset :: u64
  sl_payload_offset :: u64
  sl_queue_capacity :: u64
  sl_payload_size :: u64
  sl_producer_pid :: u64
  sl_creation_time :: u64
  sl_write_idx :: u64
  sl_read_idx :: u64
  sl_monitor :: ThreadMonitor

definition Simplified_kMagicNumber :: u32 where "Simplified_kMagicNumber = 0x50484E58"

definition Simplified_kVersion :: u32 where "Simplified_kVersion = 1"
definition Simplified_kCacheLineSize :: u64 where "Simplified_kCacheLineSize = 64"

text \<open>The indices and the monitor each start on a cache line of their own.\<close>

definition sizeof_SimplifiedShmLayout :: nat where
  "sizeof_SimplifiedShmLayout =
     (let write_idx = align_up 64 (4 + 4 + 8 * 8);
          read_idx = align_up 64 (write_idx + 8);
          monitor = align_up 64 (read_idx + 8)
      in align_up 64 (monitor + sizeof_ThreadMonitor))"

lemma sizeof_SimplifiedShmLayout_value [simp]: "sizeof_SimplifiedShmLayout = 320"
  by (simp add: sizeof_SimplifiedShmLayout_def sizeof_ThreadMonitor_def align_up_def)

text \<open>\<open>new (address) SimplifiedShmLayout()\<close>: zero initialisation, then the member initialisers.\<close>

definition Simplified_construct :: SimplifiedShmLayout where
  "Simplified_construct =
     \<lparr>sl_magic_number = 0, sl_version = 0, sl_shm_size = 0, sl_header_size = 0,
      sl_queue_offset = 0, sl_payload_offset = 0, sl_queue_capacity = 0, sl_payload_size = 0,
      sl_producer_pid = 0, sl_creation_time = 0, sl_write_idx = 0, sl_read_idx = 0,
      sl_monitor = Monitor_construct\<rparr>"

section \<open>Operations\<close>

text \<open>All sizes are computed in \<open>size_t\<close>. The process id is widened by sign extension; \<open>now\<close> is
  the value of \<open>time(nullptr)\<close>.\<close>

definition Simplified_Initialize ::
  "u64 \<Rightarrow> u64 \<Rightarrow> u64 \<Rightarrow> u64 \<Rightarrow> pid \<Rightarrow> SimplifiedShmLayout \<Rightarrow> bool \<times> SimplifiedShmLayout" where
  "Simplified_Initialize now total_shm_size queue_cap payload_buf_size prod_pid L =
     (let min_size = of_nat sizeof_SimplifiedShmLayout + queue_cap * size_of MsgHeader_type
            + payload_buf_size
      in if total_shm_size < min_size then (False, L)
         else let header_size = of_nat sizeof_SimplifiedShmLayout;
                  queue_offset = header_size;
                  payload_offset = queue_offset + queue_cap * size_of MsgHeader_type
              in (True,
                  L\<lparr>sl_magic_number := Simplified_kMagicNumber, sl_version := Simplified_kVersion,
                    sl_shm_size := total_shm_size, sl_header_size := header_size,
                    sl_queue_offset := queue_offset, sl_payload_offset := payload_offset,
                    sl_payload_size := payload_buf_size, sl_queue_capacity := queue_cap,
                    sl_producer_pid := scast prod_pid, sl_creation_time := now,
                    sl_write_idx := 0, sl_read_idx := 0,
                    sl_monitor := Monitor_Reset (sl_monitor L)\<rparr>))"

definition Simplified_IsValid :: "SimplifiedShmLayout \<Rightarrow> bool" where
  "Simplified_IsValid L \<longleftrightarrow>
     sl_magic_number L = Simplified_kMagicNumber \<and> sl_version L = Simplified_kVersion \<and>
     sl_shm_size L > 0 \<and> sl_queue_capacity L > 0"

definition Simplified_GetQueueCapacity :: "SimplifiedShmLayout \<Rightarrow> u64" where
  "Simplified_GetQueueCapacity L = sl_queue_capacity L"

definition Simplified_GetPayloadSize :: "SimplifiedShmLayout \<Rightarrow> u64" where
  "Simplified_GetPayloadSize L = sl_payload_size L"

definition Simplified_GetProducerPid :: "SimplifiedShmLayout \<Rightarrow> pid" where
  "Simplified_GetProducerPid L = ucast (sl_producer_pid L)"

text \<open>\<open>kill0 p\<close> tells whether \<open>kill(p, 0)\<close> returns 0; the call narrows the id to \<open>pid_t\<close>.\<close>

definition Simplified_IsProducerAlive :: "(pid \<Rightarrow> bool) \<Rightarrow> SimplifiedShmLayout \<Rightarrow> bool" where
  "Simplified_IsProducerAlive kill0 L \<longleftrightarrow>
     (if sl_producer_pid L = 0 then False else kill0 (ucast (sl_producer_pid L)))"

definition Simplified_IsEmpty :: "SimplifiedShmLayout \<Rightarrow> bool" where
  "Simplified_IsEmpty L \<longleftrightarrow> sl_write_idx L = sl_read_idx L"

definition Simplified_IsFull :: "SimplifiedShmLayout \<Rightarrow> bool" where
  "Simplified_IsFull L \<longleftrightarrow> sl_write_idx L - sl_read_idx L \<ge> sl_queue_capacity L"

definition Simplified_Available :: "SimplifiedShmLayout \<Rightarrow> u64" where
  "Simplified_Available L = sl_write_idx L - sl_read_idx L"

definition Simplified_FreeSpace :: "SimplifiedShmLayout \<Rightarrow> u64" where
  "Simplified_FreeSpace L = sl_queue_capacity L - (sl_write_idx L - sl_read_idx L)"

text \<open>With a capacity of 0 the remainder is undefined behaviour in C++; \<open>mod\<close> gives the index.\<close>

definition Simplified_GetMessage :: "address \<Rightarrow> u64 \<Rightarrow> SimplifiedShmLayout \<Rightarrow> address" where
  "Simplified_GetMessage this index L =
     (let offset = sl_queue_offset L + (index mod sl_queue_capacity L) * size_of MsgHeader_type
      in this + unat offset)"

definition Simplified_GetPayload :: "address \<Rightarrow> u64 \<Rightarrow> SimplifiedShmLayout \<Rightarrow> address" where
  "Simplified_GetPayload this offset L = this + unat (sl_payload_offset L) + unat offset"

definition Simplified_Push ::
  "address \<Rightarrow> MsgHeader \<Rightarrow> SimplifiedShmLayout \<times> memory \<Rightarrow> bool \<times> SimplifiedShmLayout \<times> memory" where
  "Simplified_Push this header s =
     (let (L, m) = s;
          current_write = sl_write_idx L;
          current_read = sl_read_idx L
      in if current_write - current_read \<ge> sl_queue_capacity L then (False, L, m)
         else let slot = Simplified_GetMessage this current_write L;
                  m' = construct_at MsgHeader_type m slot header
              in (True, L\<lparr>sl_write_idx := current_write + 1\<rparr>, m'))"

definition Simplified_Peek :: "address \<Rightarrow> SimplifiedShmLayout \<Rightarrow> address option" where
  "Simplified_Peek this L =
     (let current_read = sl_read_idx L;
          current_write = sl_write_idx L
      in if current_write = current_read then None
         else Some (Simplified_GetMessage this current_read L))"

definition Simplified_Pop :: "SimplifiedShmLayout \<Rightarrow> bool \<times> SimplifiedShmLayout" where
  "Simplified_Pop L =
     (let current_read = sl_read_idx L;
          current_write = sl_write_idx L
      in if current_write = current_read then (False, L)
         else (True, L\<lparr>sl_read_idx := current_read + 1\<rparr>))"

definition Simplified_ForceAdvanceReadIndex :: "u64 \<Rightarrow> SimplifiedShmLayout \<Rightarrow> SimplifiedShmLayout" where
  "Simplified_ForceAdvanceReadIndex count L =
     (let current_read = sl_read_idx L in L\<lparr>sl_read_idx := current_read + count\<rparr>)"

definition Simplified_GetWriteIndex :: "SimplifiedShmLayout \<Rightarrow> u64" where
  "Simplified_GetWriteIndex L = sl_write_idx L"

definition Simplified_GetReadIndex :: "SimplifiedShmLayout \<Rightarrow> u64" where
  "Simplified_GetReadIndex L = sl_read_idx L"

definition Simplified_CalculateSize :: "u64 \<Rightarrow> u64 \<Rightarrow> u64" where
  "Simplified_CalculateSize queue_capacity payload_size =
     of_nat sizeof_SimplifiedShmLayout + queue_capacity * size_of MsgHeader_type + payload_size"

definition Simplified_GetMinQueueCapacity :: u64 where "Simplified_GetMinQueueCapacity = 8"

definition Simplified_GetMinPayloadSize :: u64 where "Simplified_GetMinPayloadSize = 1024"

text \<open>\<open>Create\<close> returns whether it succeeded and what lies at the address afterwards; \<open>before\<close> is
  what lay there.\<close>

definition SimplifiedFactory_Create ::
  "u64 \<Rightarrow> u64 \<Rightarrow> u64 \<Rightarrow> u64 \<Rightarrow> pid \<Rightarrow> SimplifiedShmLayout \<Rightarrow> bool \<times> SimplifiedShmLayout" where
  "SimplifiedFactory_Create now bytes queue_cap payload_size prod_pid before =
     (if bytes < of_nat sizeof_SimplifiedShmLayout then (False, before)
      else Simplified_Initialize now bytes queue_cap payload_size prod_pid Simplified_construct)"

definition SimplifiedFactory_Get :: "SimplifiedShmLayout \<Rightarrow> SimplifiedShmLayout option" where
  "SimplifiedFactory_Get L = (if Simplified_IsValid L then Some L else None)"

section \<open>Invariant and abstraction\<close>

text \<open>
  The header describes regions that fit the segment without wrapping around, and the indices
  are at most a capacity apart. A capacity that does not divide \<open>2 ^ 64\<close> works only until the
  write index wraps around: the invariant promises \<open>n\<close> more messages.
\<close>

definition sl_required :: "SimplifiedShmLayout \<Rightarrow> nat" where
  "sl_required L = 320 + 16 * unat (sl_queue_capacity L) + unat (sl_payload_size L)"

definition Simplified_header_inv :: "SimplifiedShmLayout \<Rightarrow> bool" where
  "Simplified_header_inv L \<longleftrightarrow>
     Simplified_IsValid L \<and> sl_required L \<le> unat (sl_shm_size L) \<and>
     sl_header_size L = 320 \<and> sl_queue_offset L = 320 \<and>
     unat (sl_payload_offset L) = 320 + 16 * unat (sl_queue_capacity L)"

definition Simplified_inv :: "nat \<Rightarrow> SimplifiedShmLayout \<Rightarrow> bool" where
  "Simplified_inv n L \<longleftrightarrow>
     Simplified_header_inv L \<and>
     unat (Simplified_Available L) \<le> unat (sl_queue_capacity L) \<and>
     (unat (sl_queue_capacity L) dvd 2 ^ 64 \<or>
      unat (sl_read_idx L) \<le> unat (sl_write_idx L) \<and> unat (sl_write_idx L) + n < 2 ^ 64)"

definition Simplified_contents :: "address \<Rightarrow> SimplifiedShmLayout \<times> memory \<Rightarrow> MsgHeader list" where
  "Simplified_contents this s =
     (let (L, m) = s
      in idx_contents MsgHeader_type (\<lambda>i. Simplified_GetMessage this i L)
           (sl_write_idx L) (sl_read_idx L) m)"

definition Simplified_front :: "address \<Rightarrow> SimplifiedShmLayout \<times> memory \<Rightarrow> MsgHeader option" where
  "Simplified_front this s =
     (let (L, m) = s in map_option (object_at MsgHeader_type m) (Simplified_Peek this L))"

definition Simplified_Pop_at ::
  "SimplifiedShmLayout \<times> memory \<Rightarrow> bool \<times> SimplifiedShmLayout \<times> memory" where
  "Simplified_Pop_at s = (let (L, m) = s; (ok, L') = Simplified_Pop L in (ok, L', m))"

lemma length_Simplified_contents [simp]:
  "length (Simplified_contents this (L, m)) = unat (Simplified_Available L)"
  by (simp add: Simplified_contents_def Simplified_Available_def)

lemma Simplified_inv_less: "Simplified_inv (Suc n) L \<Longrightarrow> Simplified_inv n L"
  by (auto simp: Simplified_inv_def)

lemma Simplified_inv_header: "Simplified_inv n L \<Longrightarrow> Simplified_header_inv L"
  by (simp add: Simplified_inv_def)

lemma Simplified_capacity_pos: "Simplified_header_inv L \<Longrightarrow> 0 < unat (sl_queue_capacity L)"
  by (simp add: Simplified_header_inv_def Simplified_IsValid_def word_less_nat_alt)

lemma Simplified_queue_fits:
  assumes "Simplified_header_inv L"
  shows "320 + 16 * unat (sl_queue_capacity L) + unat (sl_payload_size L) < 2 ^ 64"
  using assms le_less_trans [OF _ unat_u64_lt [of "sl_shm_size L"]]
  by (simp add: Simplified_header_inv_def sl_required_def)

subsection \<open>Slots\<close>

lemma GetMessage_eq:
  assumes "Simplified_header_inv L"
  shows "Simplified_GetMessage this i L =
    this + 320 + (unat i mod unat (sl_queue_capacity L)) * 16"
proof -
  let ?c = "sl_queue_capacity L" and ?k = "unat i mod unat (sl_queue_capacity L)"
  have "?k < unat ?c" using Simplified_capacity_pos [OF assms] by simp
  then have bound: "320 + ?k * 16 < 2 ^ 64"
    using Simplified_queue_fits [OF assms] by linarith
  have "unat ((i mod ?c) * 16) = ?k * 16"
    using bound unat_mult_small_u64 [of "i mod ?c" 16] by (simp add: unat_mod)
  then have "unat (320 + (i mod ?c) * 16) = 320 + ?k * 16"
    using bound unat_add_small_u64 [of 320 "(i mod ?c) * 16"] by simp
  then show ?thesis
    using assms by (simp add: Simplified_GetMessage_def Simplified_header_inv_def)
qed

lemma GetMessage_in_queue:
  assumes "Simplified_header_inv L"
  shows "this + 320 \<le> Simplified_GetMessage this i L"
    and "Simplified_GetMessage this i L + 16 \<le> this + 320 + 16 * unat (sl_queue_capacity L)"
proof -
  let ?k = "unat i mod unat (sl_queue_capacity L)"
  have "Suc ?k \<le> unat (sl_queue_capacity L)"
    using Simplified_capacity_pos [OF assms] by (simp add: Suc_le_eq)
  then show "Simplified_GetMessage this i L + 16 \<le> this + 320 + 16 * unat (sl_queue_capacity L)"
    by (simp add: GetMessage_eq [OF assms])
qed (simp add: GetMessage_eq [OF assms])

lemma unat_index:
  assumes "Simplified_inv n L" and "k \<le> unat (Simplified_Available L)"
  shows "unat (sl_read_idx L + of_nat k) mod unat (sl_queue_capacity L) =
    (unat (sl_read_idx L) + k) mod unat (sl_queue_capacity L)"
proof (cases "unat (sl_queue_capacity L) dvd 2 ^ 64")
  case True
  then show ?thesis by (rule unat_mod_dvd)
next
  case False
  then have le: "unat (sl_read_idx L) \<le> unat (sl_write_idx L)"
    using assms(1) by (simp add: Simplified_inv_def)
  have "unat (sl_read_idx L) + k \<le> unat (sl_write_idx L)"
    using assms(2) le by (simp add: Simplified_Available_def unat_diff_idx word_le_nat_alt)
  then have bound: "unat (sl_read_idx L) + k < 2 ^ 64"
    using unat_u64_lt [of "sl_write_idx L"] by linarith
  then have "unat (of_nat k :: u64) = k" by (intro unat_of_nat_u64) simp
  then have "unat (sl_read_idx L + of_nat k) = unat (sl_read_idx L) + k"
    using bound unat_add_small_u64 [of "sl_read_idx L" "of_nat k"] by simp
  then show ?thesis by simp
qed

lemma messages_apart:
  assumes inv: "Simplified_inv n L" and ij: "i < j" and near: "j - i < unat (sl_queue_capacity L)"
    and j: "j \<le> unat (Simplified_Available L)"
  shows "apart (Simplified_GetMessage this (sl_read_idx L + of_nat i) L) 16
               (Simplified_GetMessage this (sl_read_idx L + of_nat j) L) 16"
proof -
  have "unat (sl_read_idx L + of_nat i) mod unat (sl_queue_capacity L) \<noteq>
      unat (sl_read_idx L + of_nat j) mod unat (sl_queue_capacity L)"
    using mod_distinct [OF ij near] unat_index [OF inv, of i] unat_index [OF inv j] ij j by simp
  then show ?thesis
    unfolding GetMessage_eq [OF Simplified_inv_header [OF inv]] by (rule multiples_apart)
qed

lemma GetMessage_ignores_indices [simp]:
  "Simplified_GetMessage this i (L\<lparr>sl_write_idx := x\<rparr>) = Simplified_GetMessage this i L"
  "Simplified_GetMessage this i (L\<lparr>sl_read_idx := x\<rparr>) = Simplified_GetMessage this i L"
  by (simp_all add: Simplified_GetMessage_def)

lemma header_inv_ignores_indices [simp]:
  "Simplified_header_inv (L\<lparr>sl_write_idx := x\<rparr>) = Simplified_header_inv L"
  "Simplified_header_inv (L\<lparr>sl_read_idx := x\<rparr>) = Simplified_header_inv L"
  by (simp_all add: Simplified_header_inv_def Simplified_IsValid_def sl_required_def)

subsection \<open>What each operation does to the contents\<close>

lemma Simplified_Push_full:
  "unat (sl_queue_capacity L) \<le> unat (Simplified_Available L) \<Longrightarrow>
    Simplified_Push this h (L, m) = (False, L, m)"
  by (simp add: Simplified_Push_def Simplified_Available_def word_le_nat_alt)

lemma Simplified_Push_room:
  "unat (Simplified_Available L) < unat (sl_queue_capacity L) \<Longrightarrow>
    Simplified_Push this h (L, m) = (True, L\<lparr>sl_write_idx := sl_write_idx L + 1\<rparr>,
      construct_at MsgHeader_type m (Simplified_GetMessage this (sl_write_idx L) L) h)"
  by (simp add: Simplified_Push_def Let_def Simplified_Available_def word_le_nat_alt)

lemma Available_after_push:
  assumes "unat (Simplified_Available L) < unat (sl_queue_capacity L)"
  shows "unat (Simplified_Available (L\<lparr>sl_write_idx := sl_write_idx L + 1\<rparr>)) =
    Suc (unat (Simplified_Available L))"
proof -
  have "unat (Simplified_Available L) < 2 ^ 64 - 1"
    using assms unat_u64_lt [of "sl_queue_capacity L"] by linarith
  then show ?thesis by (simp add: Simplified_Available_def unat_add_diff_u64)
qed

lemma Simplified_Push_inv:
  assumes inv: "Simplified_inv (Suc n) L"
    and room: "unat (Simplified_Available L) < unat (sl_queue_capacity L)"
  shows "Simplified_inv n (L\<lparr>sl_write_idx := sl_write_idx L + 1\<rparr>)"
proof -
  have "unat (sl_read_idx L) \<le> unat (sl_write_idx L + 1) \<and> unat (sl_write_idx L + 1) + n < 2 ^ 64"
    if "unat (sl_read_idx L) \<le> unat (sl_write_idx L)" "unat (sl_write_idx L) + Suc n < 2 ^ 64"
    using that unat_add_small_u64 [of "sl_write_idx L" 1] by simp
  then show ?thesis
    using inv room Available_after_push [OF room] by (auto simp: Simplified_inv_def)
qed

lemma Simplified_Push_contents:
  assumes inv: "Simplified_inv n L"
    and room: "unat (Simplified_Available L) < unat (sl_queue_capacity L)"
  shows "Simplified_contents this (L\<lparr>sl_write_idx := sl_write_idx L + 1\<rparr>,
      construct_at MsgHeader_type m (Simplified_GetMessage this (sl_write_idx L) L) h) =
    Simplified_contents this (L, m) @ [h]"
proof -
  let ?w = "sl_write_idx L" and ?r = "sl_read_idx L"
  have near: "unat (?w - ?r) < unat (sl_queue_capacity L)"
    using room by (simp add: Simplified_Available_def)
  then have "unat (?w - ?r) < 2 ^ 64 - 1" using unat_u64_lt [of "sl_queue_capacity L"] by linarith
  moreover have "apart (Simplified_GetMessage this ?w L) 16
      (Simplified_GetMessage this (?r + of_nat i) L) 16"
    if "i < unat (?w - ?r)" for i
    using messages_apart [OF inv that] near
    by (simp add: apart_sym Simplified_Available_def)
  ultimately show ?thesis
    using msg.idx_contents_push [of ?w ?r "\<lambda>i. Simplified_GetMessage this i L" m h]
    by (simp add: Simplified_contents_def)
qed

lemma Simplified_Advance_inv:
  assumes inv: "Simplified_inv n L" and c: "unat c \<le> unat (Simplified_Available L)"
  shows "Simplified_inv n (Simplified_ForceAdvanceReadIndex c L)"
proof -
  have "unat (sl_read_idx L + c) \<le> unat (sl_write_idx L)"
    if le: "unat (sl_read_idx L) \<le> unat (sl_write_idx L)"
  proof -
    have "unat (sl_read_idx L) + unat c \<le> unat (sl_write_idx L)"
      using c le by (simp add: Simplified_Available_def unat_diff_idx word_le_nat_alt)
    moreover from this have "unat (sl_read_idx L + c) = unat (sl_read_idx L) + unat c"
      using unat_u64_lt [of "sl_write_idx L"] by (intro unat_add_small_u64) linarith
    ultimately show ?thesis by simp
  qed
  then show ?thesis
    using inv c
    by (auto simp: Simplified_inv_def Simplified_ForceAdvanceReadIndex_def Simplified_Available_def
        unat_diff_advance_u64)
qed

lemma Simplified_Advance_contents:
  assumes "unat c \<le> unat (Simplified_Available L)"
  shows "Simplified_contents this (Simplified_ForceAdvanceReadIndex c L, m) =
    drop (unat c) (Simplified_contents this (L, m))"
  using idx_contents_advance [of c "sl_write_idx L" "sl_read_idx L"] assms
  by (simp add: Simplified_contents_def Simplified_ForceAdvanceReadIndex_def Simplified_Available_def)

lemma Simplified_Available_0: "unat (Simplified_Available L) = 0 \<longleftrightarrow> sl_write_idx L = sl_read_idx L"
  by (simp add: Simplified_Available_def unat_eq_0)

lemma Simplified_Pop_nonempty:
  "0 < unat (Simplified_Available L) \<Longrightarrow>
    Simplified_Pop L = (True, Simplified_ForceAdvanceReadIndex 1 L)"
  using Simplified_Available_0 [of L]
  by (simp add: Simplified_Pop_def Let_def Simplified_ForceAdvanceReadIndex_def)

lemma Simplified_Pop_empty:
  "unat (Simplified_Available L) = 0 \<Longrightarrow> Simplified_Pop L = (False, L)"
  by (simp add: Simplified_Pop_def Simplified_Available_0)

lemma Simplified_Peek_eq:
  "Simplified_Peek this L = (if unat (Simplified_Available L) = 0 then None
     else Some (Simplified_GetMessage this (sl_read_idx L) L))"
  by (simp add: Simplified_Peek_def Let_def Simplified_Available_0)

lemma Simplified_front_eq:
  "Simplified_front this (L, m) = (case Simplified_contents this (L, m) of [] \<Rightarrow> None | x # _ \<Rightarrow> Some x)"
proof (cases "unat (Simplified_Available L)")
  case 0
  then have "Simplified_contents this (L, m) = []" by (simp flip: length_0_conv)
  then show ?thesis using 0 by (simp add: Simplified_front_def Simplified_Peek_eq)
next
  case (Suc k)
  then have "Simplified_contents this (L, m) \<noteq> []" by (simp flip: length_greater_0_conv)
  then show ?thesis
    using Suc idx_contents_front [of "sl_write_idx L" "sl_read_idx L" MsgHeader_type m
        "\<lambda>i. Simplified_GetMessage this i L"]
    by (auto simp: Simplified_front_def Simplified_Peek_eq Simplified_contents_def
        Simplified_Available_def split: list.splits)
qed

section \<open>The queue is a bounded queue\<close>

interpretation simplified: budgeted_fifo "Simplified_Push this" "Simplified_front this"
  Simplified_Pop_at "Simplified_contents this"
  "\<lambda>n s. Simplified_inv n (fst s) \<and> unat (sl_queue_capacity (fst s)) = c" c for this c
proof (unfold_locales, goal_cases)
  case (1 n s)
  then show ?case by (simp add: Simplified_inv_less)
next
  case (2 n s)
  then show ?case by (cases s) (simp add: Simplified_inv_def)
next
  case (3 n s x)
  then show ?case by (cases s) (simp add: Simplified_Push_full)
next
  case (4 n s x)
  obtain L m where s: "s = (L, m)" by (cases s)
  from 4 s have inv: "Simplified_inv (Suc n) L"
    and room: "unat (Simplified_Available L) < unat (sl_queue_capacity L)"
    and c: "unat (sl_queue_capacity L) = c" by simp_all
  show ?case
    using Simplified_Push_inv [OF inv room] Simplified_Push_contents [OF inv room] c
    by (simp add: s Simplified_Push_room [OF room])
next
  case (5 n s)
  then show ?case by (cases s) (simp add: Simplified_front_eq)
next
  case (6 n s)
  obtain L m where s: "s = (L, m)" by (cases s)
  have "unat (Simplified_Available L) = 0"
    using 6 s length_Simplified_contents [of this L m] by simp
  then show ?case by (simp add: s Simplified_Pop_at_def Simplified_Pop_empty)
next
  case (7 n s x xs)
  obtain L m where s: "s = (L, m)" by (cases s)
  have len: "unat (Simplified_Available L) = Suc (length xs)"
    using 7 s length_Simplified_contents [of this L m] by simp
  then have "Simplified_contents this (Simplified_ForceAdvanceReadIndex 1 L, m) = xs"
    using 7 s Simplified_Advance_contents [of 1 L] by simp
  moreover have "Simplified_inv n (Simplified_ForceAdvanceReadIndex 1 L)"
    using 7 s len by (intro Simplified_Advance_inv) simp_all
  ultimately show ?case
    using 7 s len by (simp add: Simplified_Pop_at_def Simplified_Pop_nonempty)
      (simp add: Simplified_ForceAdvanceReadIndex_def)
qed

section \<open>Initialisation\<close>

lemma CalculateSize_exact:
  fixes c p :: u64
  assumes "320 + 16 * unat c + unat p < 2 ^ 64"
  shows "unat (Simplified_CalculateSize c p) = 320 + 16 * unat c + unat p"
proof -
  have m: "unat (c * 16) = unat c * 16"
    using assms by (intro trans [OF unat_mult_small_u64]) simp_all
  have a: "unat (320 + c * 16) = 320 + unat c * 16"
    using assms m by (intro trans [OF unat_add_small_u64]) simp_all
  have "unat (320 + c * 16 + p) = unat (320 + c * 16) + unat p"
    using assms a by (intro unat_add_small_u64) simp
  then show ?thesis by (simp add: Simplified_CalculateSize_def a)
qed

lemma payload_offset_exact:
  fixes c p :: u64
  assumes "320 + 16 * unat c + unat p < 2 ^ 64"
  shows "unat (320 + c * 16) = 320 + 16 * unat c"
  using assms CalculateSize_exact [of c 0] by (simp add: Simplified_CalculateSize_def)

lemma Initialize_fits:
  assumes "320 + 16 * unat c + unat p < 2 ^ 64"
  shows "fst (Simplified_Initialize now n c p pid L) \<longleftrightarrow> 320 + 16 * unat c + unat p \<le> unat n"
  using CalculateSize_exact [OF assms]
  by (simp add: Simplified_Initialize_def Simplified_CalculateSize_def Let_def word_less_nat_alt not_less)

lemma Initialize_inv:
  assumes "320 + 16 * unat c + unat p < 2 ^ 64" and "320 + 16 * unat c + unat p \<le> unat n"
    and "0 < unat c" and "Simplified_Initialize now n c p pid L = (True, L')" and "k < 2 ^ 64"
  shows "Simplified_inv k L'" and "Simplified_IsEmpty L'" and "sl_queue_capacity L' = c"
    and "sl_payload_size L' = p" and "sl_producer_pid L' = scast pid"
    and "\<not> Monitor_IsProcessing (sl_monitor L')"
  using assms payload_offset_exact [OF assms(1)]
  by (auto simp: Simplified_Initialize_def Let_def Simplified_inv_def Simplified_header_inv_def
      sl_required_def Simplified_IsValid_def Simplified_IsEmpty_def Simplified_Available_def
      word_less_nat_alt Monitor_IsProcessing_def Monitor_Reset_def kStatusIdle_def
      kStatusProcessing_def split: if_splits)

lemma pid_roundtrip: "ucast (scast (x :: pid) :: u64) = x"
  by (rule bit_word_eqI) (simp add: bit_simps)

lemma pid_zero: "(scast (x :: pid) :: u64) = 0 \<longleftrightarrow> x = 0"
  using pid_roundtrip [of x] by auto

section \<open>Properties\<close>

text \<open>
  C21. For any capacity, a power of two or not, any sequence of \<open>Push\<close>, \<open>Peek\<close> and \<open>Pop\<close> calls
  returns exactly what the same calls on a bounded first-in first-out list return. The
  invariant grants as many calls as the sequence has, which for a capacity that does not divide
  \<open>2 ^ 64\<close> means that the write index does not wrap around during the sequence.
\<close>

theorem Simplified_refines_fifo:
  assumes "Simplified_inv (length ops + n) L"
  shows "let (rs, L', m') = run_ops (queue_step (Simplified_Push this) (Simplified_front this)
             Simplified_Pop_at) ops (L, m)
         in Simplified_inv n L' \<and>
            run_ops (fifo_step (unat (sl_queue_capacity L))) ops (Simplified_contents this (L, m)) =
              (rs, Simplified_contents this (L', m'))"
proof -
  obtain rs L' m' where run: "run_ops (queue_step (Simplified_Push this) (Simplified_front this)
      Simplified_Pop_at) ops (L, m) = (rs, L', m')"
    using prod_cases3 by blast
  show ?thesis using simplified.run_refines [OF _ run] run assms by simp
qed

text \<open>A segment with room for six headers, a number that is not a power of two.\<close>

definition sample_simplified :: SimplifiedShmLayout where
  "sample_simplified = snd (Simplified_Initialize 0 4096 6 1024 77 Simplified_construct)"

lemma sample_simplified_inv: "n < 2 ^ 64 \<Longrightarrow> Simplified_inv n sample_simplified"
  using Initialize_inv(1) [of 6 1024 4096 0 77 Simplified_construct sample_simplified n]
    Initialize_fits [of 6 1024 0 4096 77 Simplified_construct]
  by (simp add: sample_simplified_def prod_eq_iff)

theorem Simplified_refines_fifo_witness:
  "Simplified_inv 3 sample_simplified \<and>
   (let (rs, L', m') = run_ops (queue_step (Simplified_Push 4096) (Simplified_front 4096)
          Simplified_Pop_at)
          [Op_Push \<lparr>seq_id = 7, func_id = 1, payload_len = 0\<rparr>, Op_Peek, Op_Pop]
          (sample_simplified, \<lambda>_. 0)
    in rs = [Pushed True, Front (Some \<lparr>seq_id = 7, func_id = 1, payload_len = 0\<rparr>), Popped True])"
proof -
  have "Simplified_contents 4096 (sample_simplified, \<lambda>_. 0) = []"
    by (simp add: Simplified_contents_def idx_contents_def sample_simplified_def
        Simplified_Initialize_def Let_def)
  moreover have "sl_queue_capacity sample_simplified = 6"
    by (simp add: sample_simplified_def Simplified_Initialize_def Let_def)
  ultimately show ?thesis
    using Simplified_refines_fifo [of "[Op_Push \<lparr>seq_id = 7, func_id = 1, payload_len = 0\<rparr>, Op_Peek, Op_Pop]"
        0 sample_simplified 4096 "\<lambda>_. 0"] sample_simplified_inv [of 3]
    by (auto simp: Let_def numeral_3_eq_3 split: prod.splits)
qed

text \<open>
  As long as the requested sizes do not wrap around in 64 bits, \<open>Initialize\<close> succeeds exactly
  when header, queue and payload buffer fit the segment. Then the layout is valid, the queue is
  empty and ready for any number of calls, the monitor is idle, and the process id of the
  producer is read back as given, so that \<open>IsProducerAlive\<close> asks for that very process.
\<close>

theorem Simplified_Initialize_correct:
  assumes fits: "320 + 16 * unat c + unat p < 2 ^ 64" and pos: "0 < unat c"
  shows "(fst (Simplified_Initialize now n c p pr L) \<longleftrightarrow> 320 + 16 * unat c + unat p \<le> unat n) \<and>
    (case Simplified_Initialize now n c p pr L of
       (False, L') \<Rightarrow> L' = L
     | (True, L') \<Rightarrow>
         Simplified_inv (2 ^ 64 - 1) L' \<and> SimplifiedFactory_Get L' = Some L' \<and>
         Simplified_contents this (L', m) = [] \<and> Simplified_GetQueueCapacity L' = c \<and>
         Simplified_GetPayloadSize L' = p \<and> \<not> Monitor_IsProcessing (sl_monitor L') \<and>
         Simplified_GetProducerPid L' = pr \<and>
         (Simplified_IsProducerAlive kill0 L' \<longleftrightarrow> pr \<noteq> 0 \<and> kill0 pr))"
proof (rule conjI [OF Initialize_fits [OF fits]])
  obtain ok L' where run: "Simplified_Initialize now n c p pr L = (ok, L')" by fastforce
  show "case Simplified_Initialize now n c p pr L of
       (False, L') \<Rightarrow> L' = L
     | (True, L') \<Rightarrow>
         Simplified_inv (2 ^ 64 - 1) L' \<and> SimplifiedFactory_Get L' = Some L' \<and>
         Simplified_contents this (L', m) = [] \<and> Simplified_GetQueueCapacity L' = c \<and>
         Simplified_GetPayloadSize L' = p \<and> \<not> Monitor_IsProcessing (sl_monitor L') \<and>
         Simplified_GetProducerPid L' = pr \<and>
         (Simplified_IsProducerAlive kill0 L' \<longleftrightarrow> pr \<noteq> 0 \<and> kill0 pr)"
  proof (cases ok)
    case False
    then show ?thesis using run by (auto simp: Simplified_Initialize_def Let_def split: if_splits)
  next
    case True
    then have run': "Simplified_Initialize now n c p pr L = (True, L')" using run by simp
    then have room: "320 + 16 * unat c + unat p \<le> unat n"
      using Initialize_fits [OF fits, of now n pr L] by simp
    note init = Initialize_inv [OF fits room pos run', of "2 ^ 64 - 1"]
    have "Simplified_contents this (L', m) = []"
      using init(2) by (simp add: Simplified_IsEmpty_def Simplified_contents_def idx_contents_def)
    moreover have "Simplified_IsValid L'"
      using init(1) by (simp add: Simplified_inv_def Simplified_header_inv_def)
    ultimately show ?thesis
      using run' init
      by (simp add: SimplifiedFactory_Get_def Simplified_GetQueueCapacity_def
          Simplified_GetPayloadSize_def Simplified_GetProducerPid_def pid_roundtrip
          Simplified_IsProducerAlive_def pid_zero)
  qed
qed

theorem Simplified_Initialize_correct_witness:
  "fst (Simplified_Initialize 0 4096 6 1024 77 Simplified_construct)"
  using Simplified_Initialize_correct [of 6 1024 0 4096 77 Simplified_construct]
  by simp

text \<open>
  A push writes to the queue region only: no byte of the payload buffer and none outside the
  segment changes. Every payload offset below the payload size addresses a byte of the segment,
  and \<open>Peek\<close> points into the queue region.
\<close>

theorem Simplified_confined:
  assumes inv: "Simplified_inv n L" and off: "off < sl_payload_size L"
    and out: "a < this \<or> this + unat (sl_shm_size L) \<le> a"
  shows "snd (snd (Simplified_Push this h (L, m))) (Simplified_GetPayload this off L) =
      m (Simplified_GetPayload this off L) \<and>
    snd (snd (Simplified_Push this h (L, m))) a = m a \<and>
    this + 320 + 16 * unat (sl_queue_capacity L) \<le> Simplified_GetPayload this off L \<and>
    Simplified_GetPayload this off L < this + unat (sl_shm_size L) \<and>
    (case Simplified_Peek this L of None \<Rightarrow> True
     | Some p \<Rightarrow> this + 320 \<le> p \<and> p + 16 \<le> this + 320 + 16 * unat (sl_queue_capacity L))"
proof -
  note hd = Simplified_inv_header [OF inv]
  let ?p = "Simplified_GetMessage this (sl_write_idx L) L"
  note slot = GetMessage_in_queue [OF hd, of this "sl_write_idx L"]
  have lay: "unat (sl_payload_offset L) = 320 + 16 * unat (sl_queue_capacity L)"
    "320 + 16 * unat (sl_queue_capacity L) + unat (sl_payload_size L) \<le> unat (sl_shm_size L)"
    using hd by (simp_all add: Simplified_header_inv_def sl_required_def)
  have o: "unat off < unat (sl_payload_size L)" using off by (simp add: word_less_nat_alt)
  have keep: "snd (snd (Simplified_Push this h (L, m))) x = m x" if "x < ?p \<or> ?p + 16 \<le> x" for x
    using that by (auto simp: Simplified_Push_def Let_def msg.construct_outside)
  have "a < ?p \<or> ?p + 16 \<le> a" using slot lay out by linarith
  moreover have pay: "this + 320 + 16 * unat (sl_queue_capacity L) \<le> Simplified_GetPayload this off L"
    "Simplified_GetPayload this off L < this + unat (sl_shm_size L)"
    using lay o by (simp_all add: Simplified_GetPayload_def)
  moreover have "?p + 16 \<le> Simplified_GetPayload this off L" using slot pay by linarith
  moreover have "case Simplified_Peek this L of None \<Rightarrow> True
     | Some p \<Rightarrow> this + 320 \<le> p \<and> p + 16 \<le> this + 320 + 16 * unat (sl_queue_capacity L)"
    using GetMessage_in_queue [OF hd, of this "sl_read_idx L"] by (simp add: Simplified_Peek_eq)
  ultimately show ?thesis using keep by blast
qed

theorem Simplified_confined_witness:
  "snd (snd (Simplified_Push 4096 \<lparr>seq_id = 7, func_id = 1, payload_len = 0\<rparr>
     (sample_simplified, \<lambda>_. 0))) 8192 = 0"
proof -
  have "sl_payload_size sample_simplified = 1024" "sl_shm_size sample_simplified = 4096"
    by (simp_all add: sample_simplified_def Simplified_Initialize_def Let_def)
  then show ?thesis
    using Simplified_confined [OF sample_simplified_inv [of 0], of 0 8192 4096 _ "\<lambda>_. 0"] by simp
qed

text \<open>
  The size check of \<open>Initialize\<close> is computed in 64 bits without an overflow test: a capacity
  of \<open>2 ^ 60 + c\<close> headers passes it in every segment that has room for \<open>c\<close> of them, and the
  layout is then valid although it has slots past the end of the segment.
\<close>

theorem Simplified_size_check_wraps:
  assumes fits: "320 + 16 * unat c + unat p \<le> unat n" and small: "unat n < 2 ^ 60"
  shows "case Simplified_Initialize now n (2 ^ 60 + c) p pr L of
      (ok, L') \<Rightarrow> ok \<and> Simplified_IsValid L' \<and>
        of_nat (unat n div 16) < sl_queue_capacity L' \<and>
        this + unat n < Simplified_GetMessage this (of_nat (unat n div 16)) L'"
proof -
  define k where "k = 2 ^ 60 + c"
  let ?i = "of_nat (unat n div 16) :: u64"
  have c: "unat k = 2 ^ 60 + unat c"
    using fits small unfolding k_def by (intro trans [OF unat_add_small_u64]) simp_all
  have wrap: "k * 16 = c * 16" by (simp add: k_def distrib_right)
  have i: "unat ?i = unat n div 16" by (rule unat_of_nat_u64) (use small in simp)
  then have lt: "?i < k" using small c by (simp add: word_less_nat_alt)
  then have "?i mod k = ?i" by (simp add: word_arith_nat_mod unat_mod word_less_nat_alt)
  moreover have "unat (?i * 16) = unat n div 16 * 16"
    using i small by (intro trans [OF unat_mult_small_u64]) simp_all
  ultimately have slot: "unat (320 + ?i mod k * 16) = 320 + unat n div 16 * 16"
    using small by (intro trans [OF unat_add_small_u64]) simp_all
  have "unat n < 320 + unat n div 16 * 16" by simp
  moreover have "320 + c * 16 + p \<le> n"
    using fits small CalculateSize_exact [of c p]
    by (simp add: Simplified_CalculateSize_def word_le_nat_alt)
  moreover have "0 < n" using fits by (simp add: word_less_nat_alt)
  moreover have "0 < k" using c by (simp add: word_less_nat_alt)
  ultimately show ?thesis
    using lt slot unfolding k_def [symmetric]
    by (simp add: Simplified_Initialize_def Let_def wrap not_less Simplified_IsValid_def
        Simplified_GetMessage_def)
qed

theorem Simplified_size_check_wraps_witness:
  "fst (Simplified_Initialize 0 4096 (2 ^ 60 + 6) 1024 77 Simplified_construct)"
  using Simplified_size_check_wraps [of 6 1024 4096 0 0 77 Simplified_construct]
  by (simp add: split_beta)

end
