(* ===== verification/Simplified_Concurrent.thy ===== *)
theory Simplified_Concurrent
  imports Ring_Protocol Simplified_Shm_Layout
begin

text \<open>
  \<open>Producer\<close> and \<open>Consumer\<close> at work at the same time on one segment: \<open>DoSend\<close> and \<open>DoReceive\<close> of
  \<open>src/ipc/phoenix_producer.cpp\<close> and \<open>src/ipc/phoenix_consumer.cpp\<close> with the \<open>Push\<close>, \<open>Peek\<close> and \<open>Pop\<close>
  of \<open>layout/simplified_shm_layout.hpp\<close> they call, interleaved at each load, store and access to
  a slot. A load of the other side's index may be stale as in \<open>Spsc_Concurrent\<close>. The consumer
  reads the header through the pointer of \<open>Peek\<close> twice: before \<open>Pop\<close>, for the length of the
  payload, and after it, for the value it returns.
\<close>

section \<open>States and steps\<close>

text \<open>
  \<open>q_released\<close> is the index of the slot \<open>DoReceive\<close> still points to after its \<open>Pop\<close>. Of the
  histories, \<open>q_popped\<close> holds the headers as read before \<open>Pop\<close>, \<open>q_returned\<close> the values returned.
\<close>

record simplified_state =
  q_layout :: SimplifiedShmLayout
  q_memory :: memory
  q_producer :: "MsgHeader producer_pc"
  q_consumer :: "MsgHeader consumer_pc"
  q_released :: "u64 option"
  q_seen_read :: u64
  q_seen_write :: u64
  q_pushed :: "MsgHeader list"
  q_popped :: "MsgHeader list"
  q_returned :: "MsgHeader list"

text \<open>\<open>write_payload\<close> is the \<open>memcpy\<close> of \<open>DoSend\<close>, which has checked the length. The preceding polls
  of \<open>IsFull\<close> and \<open>IsEmpty\<close> only load indices and are left out.\<close>

inductive simplified_step :: "address \<Rightarrow> simplified_state \<Rightarrow> simplified_state \<Rightarrow> bool"
  for this :: address where
  write_payload:
    "q_producer s = P_Idle \<Longrightarrow> length payload \<le> unat (sl_payload_size (q_layout s)) \<Longrightarrow>
     simplified_step this s (s\<lparr>q_memory :=
       write_bytes (q_memory s) (Simplified_GetPayload this 0 (q_layout s)) payload\<rparr>)"
| push_load_write:
    "q_producer s = P_Idle \<Longrightarrow>
     simplified_step this s (s\<lparr>q_producer := P_LoadedWrite header (sl_write_idx (q_layout s))\<rparr>)"
| push_full:
    "q_producer s = P_LoadedWrite header cw \<Longrightarrow>
     may_load (q_seen_read s) (sl_read_idx (q_layout s)) cr \<Longrightarrow>
     cw - cr \<ge> sl_queue_capacity (q_layout s) \<Longrightarrow>
     simplified_step this s (s\<lparr>q_producer := P_Idle, q_seen_read := cr\<rparr>)"
| push_has_room:
    "q_producer s = P_LoadedWrite header cw \<Longrightarrow>
     may_load (q_seen_read s) (sl_read_idx (q_layout s)) cr \<Longrightarrow>
     \<not> cw - cr \<ge> sl_queue_capacity (q_layout s) \<Longrightarrow>
     simplified_step this s (s\<lparr>q_producer := P_HasRoom header cw, q_seen_read := cr\<rparr>)"
| push_write_slot:
    "q_producer s = P_HasRoom header cw \<Longrightarrow>
     simplified_step this s (s\<lparr>q_producer := P_Constructed header cw, q_memory :=
       construct_at MsgHeader_type (q_memory s) (Simplified_GetMessage this cw (q_layout s)) header\<rparr>)"
| push_store_write:
    "q_producer s = P_Constructed header cw \<Longrightarrow>
     simplified_step this s (s\<lparr>q_producer := P_Idle,
       q_layout := (q_layout s)\<lparr>sl_write_idx := cw + 1\<rparr>, q_pushed := q_pushed s @ [header]\<rparr>)"
| peek_load_read:
    "q_consumer s = C_Idle \<Longrightarrow> q_released s = None \<Longrightarrow>
     simplified_step this s (s\<lparr>q_consumer := C_PeekLoadedRead (sl_read_idx (q_layout s))\<rparr>)"
| peek_empty:
    "q_consumer s = C_PeekLoadedRead cr \<Longrightarrow>
     may_load (q_seen_write s) (sl_write_idx (q_layout s)) cw \<Longrightarrow> cw = cr \<Longrightarrow>
     simplified_step this s (s\<lparr>q_consumer := C_Idle, q_seen_write := cw\<rparr>)"
| peek_found:
    "q_consumer s = C_PeekLoadedRead cr \<Longrightarrow>
     may_load (q_seen_write s) (sl_write_idx (q_layout s)) cw \<Longrightarrow> cw \<noteq> cr \<Longrightarrow>
     simplified_step this s (s\<lparr>q_consumer := C_HoldsPointer cr, q_seen_write := cw\<rparr>)"
| read_header:
    "q_consumer s = C_HoldsPointer cr \<Longrightarrow>
     simplified_step this s (s\<lparr>q_consumer := C_HasValue
       (object_at MsgHeader_type (q_memory s) (Simplified_GetMessage this cr (q_layout s)))\<rparr>)"
| pop_load_read:
    "q_consumer s = C_HasValue v \<Longrightarrow>
     simplified_step this s (s\<lparr>q_consumer := C_PopLoadedRead (sl_read_idx (q_layout s)) v\<rparr>)"
| pop_empty:
    "q_consumer s = C_PopLoadedRead cr v \<Longrightarrow>
     may_load (q_seen_write s) (sl_write_idx (q_layout s)) cw \<Longrightarrow> cw = cr \<Longrightarrow>
     simplified_step this s (s\<lparr>q_consumer := C_Idle, q_seen_write := cw\<rparr>)"
| pop_nonempty:
    "q_consumer s = C_PopLoadedRead cr v \<Longrightarrow>
     may_load (q_seen_write s) (sl_write_idx (q_layout s)) cw \<Longrightarrow> cw \<noteq> cr \<Longrightarrow>
     simplified_step this s (s\<lparr>q_consumer := C_PopNonempty cr v, q_seen_write := cw\<rparr>)"
| pop_store_read:
    "q_consumer s = C_PopNonempty cr v \<Longrightarrow>
     simplified_step this s (s\<lparr>q_consumer := C_Idle, q_released := Some cr,
       q_layout := (q_layout s)\<lparr>sl_read_idx := cr + 1\<rparr>, q_popped := q_popped s @ [v]\<rparr>)"
| return_header:
    "q_released s = Some cr \<Longrightarrow>
     simplified_step this s (s\<lparr>q_released := None, q_returned := q_returned s @
       [object_at MsgHeader_type (q_memory s) (Simplified_GetMessage this cr (q_layout s))]\<rparr>)"

text \<open>Both sides idle on an empty queue.\<close>

definition simplified_start :: "SimplifiedShmLayout \<Rightarrow> memory \<Rightarrow> simplified_state" where
  "simplified_start L m = \<lparr>q_layout = L, q_memory = m, q_producer = P_Idle, q_consumer = C_Idle,
     q_released = None, q_seen_read = sl_read_idx L, q_seen_write = sl_write_idx L, q_pushed = [],
     q_popped = [], q_returned = []\<rparr>"

inductive simplified_reachable ::
    "address \<Rightarrow> SimplifiedShmLayout \<Rightarrow> memory \<Rightarrow> simplified_state \<Rightarrow> bool"
  for this :: address and L :: SimplifiedShmLayout and m :: memory where
  start: "simplified_reachable this L m (simplified_start L m)"
| step: "simplified_reachable this L m s \<Longrightarrow> simplified_step this s t \<Longrightarrow>
    simplified_reachable this L m t"

inductive_cases simplified_stepE: "simplified_step this s t"

lemma reachable_steps:
  assumes "simplified_reachable this L m s" and "(simplified_step this)\<^sup>*\<^sup>* s t"
  shows "simplified_reachable this L m t"
  using assms(2,1) by induction (auto intro: simplified_reachable.step)

section \<open>The queue follows the protocol\<close>

definition simplified_view :: "simplified_state \<Rightarrow> MsgHeader protocol_state" where
  "simplified_view s = \<lparr>write_at = sl_write_idx (q_layout s), read_at = sl_read_idx (q_layout s),
     bytes = q_memory s, pusher = q_producer s, popper = q_consumer s, last_read = q_seen_read s,
     last_write = q_seen_write s, log_sent = q_pushed s, log_taken = q_popped s\<rparr>"

lemma simplified_view_simps [simp]:
  "write_at (simplified_view s) = sl_write_idx (q_layout s)"
  "read_at (simplified_view s) = sl_read_idx (q_layout s)"
  "bytes (simplified_view s) = q_memory s" "pusher (simplified_view s) = q_producer s"
  "popper (simplified_view s) = q_consumer s" "log_sent (simplified_view s) = q_pushed s"
  "log_taken (simplified_view s) = q_popped s"
  by (simp_all add: simplified_view_def)

text \<open>No step changes anything of the layout but the two indices.\<close>

definition same_queue :: "SimplifiedShmLayout \<Rightarrow> SimplifiedShmLayout \<Rightarrow> bool" where
  "same_queue L L' \<longleftrightarrow> (\<exists>w r. L' = L\<lparr>sl_write_idx := w, sl_read_idx := r\<rparr>)"

lemma same_queue_simps:
  assumes "same_queue L L'"
  shows "sl_queue_capacity L' = sl_queue_capacity L" and "sl_payload_size L' = sl_payload_size L"
    and "Simplified_header_inv L' = Simplified_header_inv L"
    and "Simplified_GetMessage this i L' = Simplified_GetMessage this i L"
  using assms by (auto simp: same_queue_def)

lemma same_queue_refl: "same_queue L L"
  unfolding same_queue_def by (intro exI [of _ "sl_write_idx L"] exI [of _ "sl_read_idx L"]) simp

lemma same_queue_update [intro]:
  assumes "same_queue L L'"
  shows same_queue_write: "same_queue L (L'\<lparr>sl_write_idx := x\<rparr>)"
    and same_queue_read: "same_queue L (L'\<lparr>sl_read_idx := x\<rparr>)"
proof -
  obtain w r where "L' = L\<lparr>sl_write_idx := w, sl_read_idx := r\<rparr>"
    using assms by (auto simp: same_queue_def)
  then have "L'\<lparr>sl_write_idx := x\<rparr> = L\<lparr>sl_write_idx := x, sl_read_idx := r\<rparr>"
    and "L'\<lparr>sl_read_idx := x\<rparr> = L\<lparr>sl_write_idx := w, sl_read_idx := x\<rparr>" by simp_all
  then show "same_queue L (L'\<lparr>sl_write_idx := x\<rparr>)" "same_queue L (L'\<lparr>sl_read_idx := x\<rparr>)"
    unfolding same_queue_def by blast+
qed

lemma simplified_step_same_queue:
  "simplified_step this s t \<Longrightarrow> same_queue L (q_layout s) \<Longrightarrow> same_queue L (q_layout t)"
  by (auto elim!: simplified_stepE)

text \<open>The payload buffer lies behind the slots.\<close>

lemma payload_write_elsewhere:
  assumes "Simplified_header_inv L"
  shows "object_at MsgHeader_type (write_bytes m (Simplified_GetPayload this 0 L) bs)
      (Simplified_GetMessage this i L) =
    object_at MsgHeader_type m (Simplified_GetMessage this i L)"
proof -
  have "Simplified_GetMessage this i L + 16 \<le> Simplified_GetPayload this 0 L"
    using GetMessage_in_queue(2) [OF assms, of this i] assms
    by (simp add: Simplified_GetPayload_def Simplified_header_inv_def)
  then have "apart (Simplified_GetPayload this 0 L) (length bs) (Simplified_GetMessage this i L) 16"
    by (simp add: apart_def)
  then show ?thesis by (simp add: object_at_def mem_simps)
qed

text \<open>\<open>Pop\<close> of the simple queue runs no destructor, so that its last store is two steps of the
  protocol; reading the header once more for the return value is none.\<close>

abbreviation queue_protocol where
  "queue_protocol this L \<equiv> protocol_step MsgHeader_type (sl_queue_capacity L)
     (\<lambda>i. Simplified_GetMessage this i L) (\<lambda>m _. m)"

lemma simplified_step_simulated:
  assumes "simplified_step this s t" and "Simplified_header_inv (q_layout s)"
  shows "(queue_protocol this (q_layout s))\<^sup>*\<^sup>* (simplified_view s) (simplified_view t)"
  using assms(1)
proof cases
  case (write_payload payload)
  then have "queue_protocol this (q_layout s) (simplified_view s) (simplified_view t)"
    using elsewhere [of MsgHeader_type _ "\<lambda>i. Simplified_GetMessage this i (q_layout s)" "simplified_view s"]
      payload_write_elsewhere [OF assms(2)]
    by (simp add: simplified_view_def)
  then show ?thesis by blast
next
  case (pop_store_read cr v)
  let ?u = "simplified_view s\<lparr>popper := C_Destroyed cr v\<rparr>"
  have "queue_protocol this (q_layout s) (simplified_view s) ?u"
    using give_up [of "simplified_view s" cr v] pop_store_read by (simp add: simplified_view_def)
  moreover have "queue_protocol this (q_layout s) ?u (simplified_view t)"
    using store_read [of ?u cr v] pop_store_read by (simp add: simplified_view_def)
  ultimately show ?thesis by (rule converse_rtranclp_into_rtranclp [OF _ r_into_rtranclp])
next
  case (return_header cr)
  then show ?thesis by (simp add: simplified_view_def)
qed (rule r_into_rtranclp, auto simp: simplified_view_def protocol_step.simps)+

lemma simplified_reachable_view:
  assumes "simplified_reachable this L m s" and "Simplified_header_inv L" and "Simplified_IsEmpty L"
  shows "(queue_protocol this L)\<^sup>*\<^sup>* (protocol_start (sl_read_idx L) m) (simplified_view s) \<and>
    same_queue L (q_layout s)"
  using assms(1)
proof induction
  case start
  have "simplified_view (simplified_start L m) = protocol_start (sl_read_idx L) m"
    using assms(3) by (simp add: simplified_view_def simplified_start_def protocol_start_def Simplified_IsEmpty_def)
  then show ?case by (simp add: simplified_start_def same_queue_refl)
next
  case (step s t)
  then have same: "same_queue L (q_layout s)" by simp
  have "(queue_protocol this L)\<^sup>*\<^sup>* (simplified_view s) (simplified_view t)"
    using simplified_step_simulated [OF step.hyps(2)] assms(2) same_queue_simps [OF same] by simp
  then show ?case
    using step.IH simplified_step_same_queue [OF step.hyps(2) same] by (auto intro: rtranclp_trans)
qed

text \<open>A segment is given by its address and its layout at the start. A capacity that is no power
  of two is good until the write index wraps around.\<close>

definition segment_valid :: "address \<times> SimplifiedShmLayout \<Rightarrow> bool" where
  "segment_valid = (\<lambda>(this, L). Simplified_header_inv L \<and> Simplified_IsEmpty L)"

definition before_wrap :: "SimplifiedShmLayout \<Rightarrow> nat \<Rightarrow> bool" where
  "before_wrap L n \<longleftrightarrow> unat (sl_queue_capacity L) dvd 2 ^ 64 \<or> unat (sl_read_idx L) + n < 2 ^ 64"

lemma message_number:
  assumes "before_wrap L n"
  shows "unat (sl_read_idx L + of_nat n) mod unat (sl_queue_capacity L) =
    (unat (sl_read_idx L) + n) mod unat (sl_queue_capacity L)"
proof (cases "unat (sl_queue_capacity L) dvd 2 ^ 64")
  case False
  then have "unat (sl_read_idx L) + n < 2 ^ 64" using assms by (simp add: before_wrap_def)
  then have "unat (sl_read_idx L + of_nat n) = unat (sl_read_idx L) + n"
    by (subst unat_add_small_u64) (simp_all add: unat_of_nat_u64)
  then show ?thesis by simp
qed (rule unat_mod_dvd)

interpretation pair: keeping_protocol MsgHeader_type "\<lambda>(this, L). sl_queue_capacity L"
    "\<lambda>(this, L) i. Simplified_GetMessage this i L" "\<lambda>m _. m" "\<lambda>(this, L). sl_read_idx L"
    segment_valid "\<lambda>(this, L). before_wrap L"
proof (unfold_locales, goal_cases)
  case (1 q i j)
  obtain this L where q: "q = (this, L)" by (cases q)
  have hd: "Simplified_header_inv L" and us: "before_wrap L j"
    using 1 by (simp_all add: q segment_valid_def)
  then have "before_wrap L i" using 1(2) by (auto simp: before_wrap_def)
  moreover have "(unat (sl_read_idx L) + i) mod unat (sl_queue_capacity L) \<noteq>
      (unat (sl_read_idx L) + j) mod unat (sl_queue_capacity L)"
    using 1 by (intro mod_distinct) (auto simp: q)
  ultimately show ?case
    using us by (simp add: q GetMessage_eq [OF hd] message_number multiples_apart)
next
  case (3 q n k)
  then show ?case by (cases q) (auto simp: before_wrap_def)
qed simp_all

lemma pair_run:
  assumes "simplified_reachable this L m s" and "Simplified_header_inv L" and "Simplified_IsEmpty L"
    and "before_wrap L (length (q_pushed s))"
  shows "(pair.step (this, L))\<^sup>*\<^sup>* (protocol_start (case (this, L) of (this, L) \<Rightarrow> sl_read_idx L) m)
      (simplified_view s)"
    and "segment_valid (this, L)"
    and "(case (this, L) of (this, L) \<Rightarrow> before_wrap L) (length (log_sent (simplified_view s)))"
    and "same_queue L (q_layout s)"
  using simplified_reachable_view [OF assms(1-3)] assms by (simp_all add: segment_valid_def)

text \<open>Between \<open>Pop\<close> and the return of \<open>DoReceive\<close> the consumer does nothing else, and points to the
  slot of the header popped last.\<close>

lemma step_pushed_grows: "simplified_step this s t \<Longrightarrow> length (q_pushed s) \<le> length (q_pushed t)"
  by (auto elim!: simplified_stepE)

lemma before_wrap_down: "before_wrap L n \<Longrightarrow> k \<le> n \<Longrightarrow> before_wrap L k"
  by (auto simp: before_wrap_def)

lemma released_slot:
  assumes "simplified_reachable this L m s" and "Simplified_header_inv L" and "Simplified_IsEmpty L"
    and "before_wrap L (length (q_pushed s))" and "q_released s = Some cr"
  shows "q_consumer s = C_Idle \<and> q_popped s \<noteq> [] \<and>
    cr = sl_read_idx L + of_nat (length (q_popped s) - 1)"
  using assms(1,4,5)
proof (induction arbitrary: cr)
  case start
  then show ?case by (simp add: simplified_start_def)
next
  case (step s t)
  have wrap: "before_wrap L (length (q_pushed s))"
    using step.prems(1) step_pushed_grows [OF step.hyps(2)] by (rule before_wrap_down)
  note run = pair_run [OF step.hyps(1) assms(2,3) wrap]
  show ?case
  proof (cases "q_released s = Some cr")
    case True
    then show ?thesis using step.IH [OF wrap True] step.hyps(2) step.prems by (auto elim!: simplified_stepE)
  next
    case False
    with step.hyps(2) step.prems(2) obtain v where pop: "q_consumer s = C_PopNonempty cr v"
        "q_consumer t = C_Idle" "q_popped t = q_popped s @ [v]"
      by (auto elim!: simplified_stepE)
    obtain a c where "pair.inv (this, L) a c (simplified_view s)"
      using pair.reachable_inv [OF run(1-3)] by blast
    then show ?thesis using pop by (simp add: protocol_inv_def)
  qed
qed

text \<open>The producer has begun to reuse that slot: the header one capacity later is in it.\<close>

definition slot_reused :: "simplified_state \<Rightarrow> bool" where
  "slot_reused s \<longleftrightarrow>
     length (q_popped s) + unat (sl_queue_capacity (q_layout s)) \<le> length (q_pushed s) \<or>
     length (q_popped s) + unat (sl_queue_capacity (q_layout s)) = Suc (length (q_pushed s)) \<and>
       (\<exists>header cw. q_producer s = P_Constructed header cw)"

lemma released_header:
  assumes "simplified_reachable this L m s" and "Simplified_header_inv L" and "Simplified_IsEmpty L"
    and "before_wrap L (length (q_pushed s))" and "q_released s = Some cr" and "\<not> slot_reused s"
  shows "object_at MsgHeader_type (q_memory s) (Simplified_GetMessage this cr (q_layout s)) =
    last (q_popped s)"
proof -
  note run = pair_run [OF assms(1-4)] and same = same_queue_simps [OF pair_run(4) [OF assms(1-4)]]
  let ?k = "length (q_popped s) - 1"
  have cr: "cr = sl_read_idx L + of_nat ?k" and ne: "q_popped s \<noteq> []"
    using released_slot [OF assms(1-5)] by simp_all
  have hist: "q_popped s = take (length (q_popped s)) (q_pushed s)"
    and le: "length (q_popped s) \<le> length (q_pushed s)"
    using pair.fifo(1,2) [OF run(1-3)] by simp_all
  have k: "Suc ?k = length (q_popped s)" using ne by simp
  have "\<not> overwritten (sl_queue_capacity L) (simplified_view s) ?k"
    using assms(6) k same(1) by (auto simp: overwritten_def slot_reused_def)
  then have "object_at MsgHeader_type (q_memory s) (Simplified_GetMessage this cr (q_layout s)) =
      q_pushed s ! ?k"
    using pair.kept [OF run(1-3), of ?k] le k same(4) unfolding cr by simp
  also have "\<dots> = q_popped s ! ?k" using hist k by (metis lessI nth_take)
  finally show ?thesis using ne by (simp add: last_conv_nth)
qed

text \<open>The run of one \<open>Push\<close> next to a consumer that has popped but not yet returned: the producer
  sees the free slot, then writes it, then the consumer reads it.\<close>

lemma push_before_return:
  fixes s :: simplified_state and header :: MsgHeader
  assumes idle: "q_producer s = P_Idle" and rel: "q_released s = Some cr"
    and room: "\<not> sl_write_idx (q_layout s) - sl_read_idx (q_layout s) \<ge> sl_queue_capacity (q_layout s)"
    and slot: "Simplified_GetMessage this cr (q_layout s) =
      Simplified_GetMessage this (sl_write_idx (q_layout s)) (q_layout s)"
  defines "t \<equiv> s\<lparr>q_producer := P_HasRoom header (sl_write_idx (q_layout s)),
      q_seen_read := sl_read_idx (q_layout s)\<rparr>"
  shows "(simplified_step this)\<^sup>*\<^sup>* s t"
    and "\<exists>u. (simplified_step this)\<^sup>*\<^sup>* t u \<and> q_producer u = P_Idle \<and>
      q_pushed u = q_pushed s @ [header] \<and> q_popped u = q_popped s \<and>
      q_returned u = q_returned s @ [header]"
proof -
  let ?w = "sl_write_idx (q_layout s)" and ?p = "Simplified_GetMessage this cr (q_layout s)"
  let ?t1 = "s\<lparr>q_producer := P_LoadedWrite header ?w\<rparr>"
  have "simplified_step this s ?t1" using push_load_write [OF idle, of this header] .
  moreover have "simplified_step this ?t1 t"
    using push_has_room [of ?t1 header ?w "sl_read_idx (q_layout s)" this] room by (simp add: t_def)
  ultimately show "(simplified_step this)\<^sup>*\<^sup>* s t"
    by (rule converse_rtranclp_into_rtranclp [OF _ r_into_rtranclp])
  let ?u1 = "t\<lparr>q_producer := P_Constructed header ?w,
    q_memory := construct_at MsgHeader_type (q_memory s) ?p header\<rparr>"
  let ?u2 = "?u1\<lparr>q_released := None, q_returned := q_returned s @ [header]\<rparr>"
  let ?u3 = "?u2\<lparr>q_producer := P_Idle, q_layout := (q_layout s)\<lparr>sl_write_idx := ?w + 1\<rparr>,
    q_pushed := q_pushed s @ [header]\<rparr>"
  have "simplified_step this t ?u1"
    using push_write_slot [of t header ?w this] slot by (simp add: t_def)
  moreover have "simplified_step this ?u1 ?u2"
    using return_header [of ?u1 cr this] rel by (simp add: t_def)
  moreover have "simplified_step this ?u2 ?u3"
    using push_store_write [of ?u2 header ?w this] by (simp add: t_def)
  ultimately have "(simplified_step this)\<^sup>*\<^sup>* t ?u3"
    by (meson converse_rtranclp_into_rtranclp rtranclp.rtrancl_refl)
  then show "\<exists>u. (simplified_step this)\<^sup>*\<^sup>* t u \<and> q_producer u = P_Idle \<and>
      q_pushed u = q_pushed s @ [header] \<and> q_popped u = q_popped s \<and>
      q_returned u = q_returned s @ [header]"
    by (intro exI [of _ ?u3]) (simp add: t_def)
qed

lemma released_slot_is_next:
  assumes "simplified_reachable this L m s" and "Simplified_header_inv L" and "Simplified_IsEmpty L"
    and wrap: "before_wrap L (Suc (length (q_pushed s)))" and rel: "q_released s = Some cr"
    and full: "Suc (length (q_pushed s)) = length (q_popped s) + unat (sl_queue_capacity L)"
  shows "Simplified_GetMessage this cr (q_layout s) =
      Simplified_GetMessage this (sl_write_idx (q_layout s)) (q_layout s)"
    and "\<not> sl_write_idx (q_layout s) - sl_read_idx (q_layout s) \<ge> sl_queue_capacity (q_layout s)"
proof -
  have now: "before_wrap L (length (q_pushed s))" using wrap by (rule before_wrap_down) simp
  note run = pair_run [OF assms(1-3) now] and same = same_queue_simps [OF pair_run(4) [OF assms(1-3) now]]
  let ?k = "length (q_popped s) - 1" and ?c = "unat (sl_queue_capacity L)"
  have cr: "cr = sl_read_idx L + of_nat ?k" and ne: "q_popped s \<noteq> []"
    using released_slot [OF assms(1-3) now rel] by simp_all
  have n: "length (q_pushed s) = ?k + ?c" using full ne by (cases "q_popped s") auto
  obtain a c where "pair.inv (this, L) a c (simplified_view s)"
    using pair.reachable_inv [OF run(1-3)] by blast
  then have w: "sl_write_idx (q_layout s) = sl_read_idx L + of_nat (length (q_pushed s))"
    by (simp add: protocol_inv_def)
  have "before_wrap L ?k" using now by (rule before_wrap_down) (simp add: n)
  then have "unat cr mod ?c = unat (sl_write_idx (q_layout s)) mod ?c"
    using message_number [of L ?k] message_number [OF now] unfolding w cr by (simp add: n flip: add.assoc)
  then show "Simplified_GetMessage this cr (q_layout s) =
      Simplified_GetMessage this (sl_write_idx (q_layout s)) (q_layout s)"
    by (simp add: same(4) GetMessage_eq [OF assms(2)])
  have "unat (sl_write_idx (q_layout s) - sl_read_idx (q_layout s)) < ?c"
    using pair.fifo(4) [OF run(1-3)] full Simplified_capacity_pos [OF assms(2)] by simp
  then show "\<not> sl_write_idx (q_layout s) - sl_read_idx (q_layout s) \<ge> sl_queue_capacity (q_layout s)"
    by (simp add: same(1) word_le_nat_alt)
qed

section \<open>Properties\<close>

text \<open>
  C3. Producer and consumer at the same time, for any capacity, with index loads as stale as the
  memory model allows and payloads written in between: the headers the consumer reads before
  \<open>Pop\<close> are a prefix of the headers pushed, in order, without loss or duplication; never more
  than a capacity is queued; the producer does not write the slot that is being read. The header
  \<open>DoReceive\<close> then returns, read again after \<open>Pop\<close>, is the popped one as long as the producer has
  not reused its slot. For a capacity that does not divide \<open>2 ^ 64\<close> this holds until the write
  index wraps around.
\<close>

theorem Simplified_concurrent_fifo:
  assumes "simplified_reachable this L m s" and "Simplified_header_inv L" and "Simplified_IsEmpty L"
    and "before_wrap L (length (q_pushed s))"
  shows "q_popped s = take (length (q_popped s)) (q_pushed s) \<and>
    length (q_popped s) \<le> length (q_pushed s) \<and>
    length (q_pushed s) - length (q_popped s) \<le> unat (sl_queue_capacity L) \<and>
    unat (Simplified_Available (q_layout s)) = length (q_pushed s) - length (q_popped s) \<and>
    (\<forall>header cw cr. q_producer s = P_HasRoom header cw \<and> q_consumer s = C_HoldsPointer cr \<longrightarrow>
       apart (Simplified_GetMessage this cw (q_layout s)) 16
             (Simplified_GetMessage this cr (q_layout s)) 16) \<and>
    (\<forall>cr. q_released s = Some cr \<and> \<not> slot_reused s \<longrightarrow>
       object_at MsgHeader_type (q_memory s) (Simplified_GetMessage this cr (q_layout s)) =
         last (q_popped s))"
proof -
  note run = pair_run [OF assms] and same = same_queue_simps [OF pair_run(4) [OF assms]]
  have "apart (Simplified_GetMessage this cw (q_layout s)) 16 (Simplified_GetMessage this cr (q_layout s)) 16"
    if "q_producer s = P_HasRoom header cw" "q_consumer s = C_HoldsPointer cr" for header cw cr
    using pair.no_overlap [OF run(1-3), of header cw cr] that same(4) by simp
  then show ?thesis
    using pair.fifo [OF run(1-3)] released_header [OF assms] by (auto simp: Simplified_Available_def)
qed

text \<open>
  C36. The late read is a data race. Whenever the consumer has popped from a full queue and not yet
  returned, the next \<open>Push\<close> can come to the point where it is about to write the very slot the
  consumer is about to read; and the run can go on so that \<open>DoReceive\<close> returns the new header
  instead of the popped one, with the new header still in the queue.
\<close>

theorem returned_header_race:
  assumes "simplified_reachable this L m s" and "Simplified_header_inv L" and "Simplified_IsEmpty L"
    and "before_wrap L (Suc (length (q_pushed s)))" and "q_released s = Some cr"
    and "Suc (length (q_pushed s)) = length (q_popped s) + unat (sl_queue_capacity L)"
    and "q_producer s = P_Idle"
  shows "\<exists>t u cw. (simplified_step this)\<^sup>*\<^sup>* s t \<and> (simplified_step this)\<^sup>*\<^sup>* t u \<and>
    q_producer t = P_HasRoom header cw \<and> q_released t = Some cr \<and>
    Simplified_GetMessage this cw (q_layout t) = Simplified_GetMessage this cr (q_layout t) \<and>
    q_producer u = P_Idle \<and> q_pushed u = q_pushed s @ [header] \<and> q_popped u = q_popped s \<and>
    q_returned u = q_returned s @ [header]"
proof -
  note next_slot = released_slot_is_next [OF assms(1-6)]
  show ?thesis
    using push_before_return(1) [OF assms(7,5) next_slot(2,1), of header]
      push_before_return(2) [OF assms(7,5) next_slot(2,1), of header] assms(5) next_slot(1)
    by (elim exE conjE) (intro exI conjI, assumption+, simp_all)
qed

subsection \<open>Witnesses\<close>

text \<open>A queue of one slot: one header is pushed, read and popped, and not yet returned.\<close>

definition one_slot :: SimplifiedShmLayout where
  "one_slot = snd (Simplified_Initialize 0 4096 1 1024 77 Simplified_construct)"

definition first_header :: MsgHeader where
  "first_header = \<lparr>seq_id = 0, func_id = 1, payload_len = 0\<rparr>"

lemma one_slot_fields [simp]:
  "sl_queue_capacity one_slot = 1" "sl_write_idx one_slot = 0" "sl_read_idx one_slot = 0"
  by (simp_all add: one_slot_def Simplified_Initialize_def Let_def)

lemma one_slot_start: "Simplified_header_inv one_slot" "Simplified_IsEmpty one_slot"
  using Initialize_inv(1,2) [of 1 1024 4096 0 77 Simplified_construct one_slot 0]
    Initialize_fits [of 1 1024 0 4096 77 Simplified_construct]
  by (auto simp: one_slot_def prod_eq_iff intro: Simplified_inv_header)

lemma one_popped:
  "\<exists>s. simplified_reachable 4096 one_slot (\<lambda>_. 0) s \<and> q_producer s = P_Idle \<and> q_released s = Some 0 \<and>
     q_pushed s = [first_header] \<and> q_popped s = [first_header] \<and> q_returned s = []"
proof -
  let ?S = "simplified_step 4096" and ?p = "Simplified_GetMessage 4096 0 one_slot"
  let ?m = "construct_at MsgHeader_type (\<lambda>_. 0) ?p first_header"
  let ?L = "one_slot\<lparr>sl_write_idx := 1\<rparr>"
  let ?s = "\<lambda>L m prod cons seen_w pushed. \<lparr>q_layout = L, q_memory = m, q_producer = prod,
    q_consumer = cons, q_released = None, q_seen_read = 0, q_seen_write = seen_w, q_pushed = pushed,
    q_popped = [], q_returned = []\<rparr>"
  let ?c = "\<lambda>cons seen_w. ?s ?L ?m P_Idle cons seen_w [first_header]"
  have start: "simplified_start one_slot (\<lambda>_. 0) = ?s one_slot (\<lambda>_. 0) P_Idle C_Idle 0 []"
    by (simp add: simplified_start_def)
  have "?S\<^sup>*\<^sup>* (?s one_slot (\<lambda>_. 0) P_Idle C_Idle 0 []) (?c C_Idle 0)"
    using push_load_write [of "?s one_slot (\<lambda>_. 0) P_Idle C_Idle 0 []" 4096 first_header]
      push_has_room [of "?s one_slot (\<lambda>_. 0) (P_LoadedWrite first_header 0) C_Idle 0 []" first_header 0 0 4096]
      push_write_slot [of "?s one_slot (\<lambda>_. 0) (P_HasRoom first_header 0) C_Idle 0 []" first_header 0 4096]
      push_store_write [of "?s one_slot ?m (P_Constructed first_header 0) C_Idle 0 []" first_header 0 4096]
    by simp
  moreover have "?S\<^sup>*\<^sup>* (?c C_Idle 0) (?c (C_HasValue first_header) 1)"
    using peek_load_read [of "?c C_Idle 0" 4096]
      peek_found [of "?c (C_PeekLoadedRead 0) 0" 0 1 4096]
      read_header [of "?c (C_HoldsPointer 0) 1" 0 4096]
    by simp
  moreover have "?S\<^sup>*\<^sup>* (?c (C_HasValue first_header) 1) (?c C_Idle 1
      \<lparr>q_released := Some 0, q_layout := ?L\<lparr>sl_read_idx := 1\<rparr>, q_popped := [first_header]\<rparr>)"
    using pop_load_read [of "?c (C_HasValue first_header) 1" first_header 4096]
      pop_nonempty [of "?c (C_PopLoadedRead 0 first_header) 1" 0 first_header 1 4096]
      pop_store_read [of "?c (C_PopNonempty 0 first_header) 1" 0 first_header 4096]
    by simp
  ultimately have "?S\<^sup>*\<^sup>* (simplified_start one_slot (\<lambda>_. 0)) (?c C_Idle 1
      \<lparr>q_released := Some 0, q_layout := ?L\<lparr>sl_read_idx := 1\<rparr>, q_popped := [first_header]\<rparr>)"
    unfolding start by (blast intro: rtranclp_trans)
  then have "simplified_reachable 4096 one_slot (\<lambda>_. 0) (?c C_Idle 1
      \<lparr>q_released := Some 0, q_layout := ?L\<lparr>sl_read_idx := 1\<rparr>, q_popped := [first_header]\<rparr>)"
    by (rule reachable_steps [OF simplified_reachable.start])
  then show ?thesis by (intro exI conjI, assumption) simp_all
qed

theorem Simplified_concurrent_fifo_witness:
  "\<exists>s. simplified_reachable 4096 one_slot (\<lambda>_. 0) s \<and> q_released s = Some 0 \<and>
     object_at MsgHeader_type (q_memory s) (Simplified_GetMessage 4096 0 (q_layout s)) = first_header \<and>
     Simplified_Available (q_layout s) = 0"
proof -
  obtain s where s: "simplified_reachable 4096 one_slot (\<lambda>_. 0) s" "q_producer s = P_Idle"
      "q_released s = Some 0" "q_pushed s = [first_header]" "q_popped s = [first_header]"
    using one_popped by blast
  have wrap: "before_wrap one_slot (length (q_pushed s))" by (simp add: before_wrap_def)
  have "sl_queue_capacity (q_layout s) = 1"
    using same_queue_simps(1) [OF pair_run(4) [OF s(1) one_slot_start wrap]] by simp
  then have "\<not> slot_reused s" using s by (simp add: slot_reused_def)
  then show ?thesis
    using Simplified_concurrent_fifo [OF s(1) one_slot_start wrap] s
    by (intro exI [of _ s]) (simp add: unat_eq_0)
qed

theorem returned_header_race_witness:
  "\<exists>u. simplified_reachable 4096 one_slot (\<lambda>_. 0) u \<and> q_popped u = [first_header] \<and>
     q_returned u = [\<lparr>seq_id = 0, func_id = 2, payload_len = 0\<rparr>]"
proof -
  obtain s where s: "simplified_reachable 4096 one_slot (\<lambda>_. 0) s" "q_producer s = P_Idle"
      "q_released s = Some 0" "q_pushed s = [first_header]" "q_popped s = [first_header]" "q_returned s = []"
    using one_popped by blast
  have "before_wrap one_slot (Suc (length (q_pushed s)))" by (simp add: before_wrap_def)
  then obtain t u where "(simplified_step 4096)\<^sup>*\<^sup>* s t" "(simplified_step 4096)\<^sup>*\<^sup>* t u"
      "q_popped u = q_popped s" "q_returned u = q_returned s @ [\<lparr>seq_id = 0, func_id = 2, payload_len = 0\<rparr>]"
    using returned_header_race [OF s(1) one_slot_start _ s(3) _ s(2)] s by fastforce
  moreover from this have "simplified_reachable 4096 one_slot (\<lambda>_. 0) u"
    using s(1) by (auto intro: reachable_steps)
  ultimately show ?thesis using s by auto
qed

end
