(* ===== verification/Linux_Eventfd.thy ===== *)
theory Linux_Eventfd
  imports Prelude
begin

text \<open>
  The eventfd signal of \<open>include/phoenix/platform/linux_eventfd.hpp\<close> and the part of Linux's
  eventfd it relies on: a counter that a write adds to and a read takes, all of it or, with
  \<open>EFD_SEMAPHORE\<close>, one. A read of a zero counter fails with \<open>EAGAIN\<close> under \<open>EFD_NONBLOCK\<close> and
  otherwise blocks. A function that may block returns None when it does: nothing but another
  thread's \<open>Notify\<close> could let it go on.
\<close>

record eventfd =
  ev_counter :: nat
  ev_nonblock :: bool
  ev_semaphore :: bool

datatype read_outcome = Read_value nat | Read_again | Read_blocks

definition eventfd_read :: "eventfd \<Rightarrow> read_outcome \<times> eventfd" where
  "eventfd_read e =
     (if ev_counter e = 0 then (if ev_nonblock e then (Read_again, e) else (Read_blocks, e))
      else if ev_semaphore e then (Read_value 1, e\<lparr>ev_counter := ev_counter e - 1\<rparr>)
      else (Read_value (ev_counter e), e\<lparr>ev_counter := 0\<rparr>))"

text \<open>The counter stays below \<open>2 ^ 64 - 1\<close>: a write that would take it there does not complete.\<close>

definition eventfd_write :: "nat \<Rightarrow> eventfd \<Rightarrow> read_outcome \<times> eventfd" where
  "eventfd_write v e =
     (if ev_counter e + v < 2 ^ 64 - 1 then (Read_value 8, e\<lparr>ev_counter := ev_counter e + v\<rparr>)
      else if ev_nonblock e then (Read_again, e) else (Read_blocks, e))"

text \<open>The signal object: a descriptor is None for -1 and otherwise the eventfd it refers to.\<close>

record LinuxEventFdSignal =
  es_fd :: "eventfd option"
  es_valid :: bool
  es_last_error :: string

definition Signal_construct :: LinuxEventFdSignal where
  "Signal_construct = \<lparr>es_fd = None, es_valid = False, es_last_error = []\<rparr>"

text \<open>The flags are \<open>EFD_NONBLOCK\<close> and \<open>EFD_SEMAPHORE\<close>; \<open>failed\<close> is the text of \<open>strerror(errno)\<close>
  when \<open>eventfd\<close> fails. \<open>eventfd\<close> takes an \<open>unsigned int\<close>, so the initial value loses its upper half.\<close>

definition Signal_Create ::
  "string option \<Rightarrow> u64 \<Rightarrow> bool \<Rightarrow> bool \<Rightarrow> LinuxEventFdSignal \<Rightarrow> bool \<times> LinuxEventFdSignal" where
  "Signal_Create failed initial_value nonblock semaphore s =
     (case failed of
        Some e \<Rightarrow> (False, s\<lparr>es_fd := None, es_last_error := e\<rparr>)
      | None \<Rightarrow> (True, s\<lparr>es_fd := Some \<lparr>ev_counter = unat (ucast initial_value :: u32),
                                        ev_nonblock = nonblock, ev_semaphore = semaphore\<rparr>, es_valid := True\<rparr>))"

definition Signal_Notify :: "LinuxEventFdSignal \<Rightarrow> bool option \<times> LinuxEventFdSignal" where
  "Signal_Notify s =
     (if \<not> es_valid s then (Some False, s)
      else case es_fd s of
             None \<Rightarrow> (Some False, s)
           | Some e \<Rightarrow>
               (case eventfd_write 1 e of
                  (Read_value n, e') \<Rightarrow> (Some (n = 8), s\<lparr>es_fd := Some e'\<rparr>)
                | (Read_again, e') \<Rightarrow> (Some False, s)
                | (Read_blocks, e') \<Rightarrow> (None, s)))"

text \<open>\<open>arrivals\<close> is what other threads add to the counter before the poll ends. The poll's timeout is
  the argument as an \<open>int\<close>: when that is negative, it lasts until there is input. A poll that reports
  input is followed by a read; a descriptor of -1 never has input.\<close>

definition poll_ends_without_input :: "u32 \<Rightarrow> bool option" where
  "poll_ends_without_input timeout_ms = (if sint timeout_ms < 0 then None else Some False)"

definition Signal_Wait :: "u32 \<Rightarrow> nat \<Rightarrow> LinuxEventFdSignal \<Rightarrow> bool option \<times> LinuxEventFdSignal" where
  "Signal_Wait timeout_ms arrivals s =
     (if \<not> es_valid s then (Some False, s)
      else case es_fd s of
             None \<Rightarrow> (poll_ends_without_input timeout_ms, s)
           | Some e \<Rightarrow>
               let e = e\<lparr>ev_counter := ev_counter e + arrivals\<rparr>
               in if ev_counter e > 0 then (Some True, s\<lparr>es_fd := Some (snd (eventfd_read e))\<rparr>)
                  else (poll_ends_without_input timeout_ms, s\<lparr>es_fd := Some e\<rparr>))"

definition Signal_TryWait :: "LinuxEventFdSignal \<Rightarrow> bool option \<times> LinuxEventFdSignal" where
  "Signal_TryWait s =
     (if \<not> es_valid s then (Some False, s)
      else case es_fd s of
             None \<Rightarrow> (Some False, s)
           | Some e \<Rightarrow>
               (case eventfd_read e of
                  (Read_value n, e') \<Rightarrow> (Some True, s\<lparr>es_fd := Some e'\<rparr>)
                | (Read_again, e') \<Rightarrow> (Some False, s)
                | (Read_blocks, e') \<Rightarrow> (None, s)))"

text \<open>The loop of \<open>Reset\<close>: whether it ends, and the counter it leaves.\<close>

function drain :: "eventfd \<Rightarrow> bool \<times> eventfd" where
  "drain e =
     (case eventfd_read e of
        (Read_value n, e') \<Rightarrow> drain e'
      | (Read_again, e') \<Rightarrow> (True, e')
      | (Read_blocks, e') \<Rightarrow> (False, e'))"
  by auto
termination
  by (relation "measure ev_counter") (auto simp: eventfd_read_def split: if_splits)

declare drain.simps [simp del]

definition Signal_Reset :: "LinuxEventFdSignal \<Rightarrow> bool option \<times> LinuxEventFdSignal" where
  "Signal_Reset s =
     (if \<not> es_valid s then (Some False, s)
      else case es_fd s of
             None \<Rightarrow> (Some True, s)
           | Some e \<Rightarrow>
               (case drain e of
                  (True, e') \<Rightarrow> (Some True, s\<lparr>es_fd := Some e'\<rparr>)
                | (False, e') \<Rightarrow> (None, s\<lparr>es_fd := Some e'\<rparr>)))"

text \<open>The destructor closes the descriptor.\<close>

definition Signal_destroy :: "LinuxEventFdSignal \<Rightarrow> LinuxEventFdSignal" where
  "Signal_destroy s = (if es_fd s \<noteq> None then s\<lparr>es_fd := None\<rparr> else s)"

definition Signal_IsValid :: "LinuxEventFdSignal \<Rightarrow> bool" where
  "Signal_IsValid s \<longleftrightarrow> es_valid s \<and> es_fd s \<noteq> None"

definition Signal_GetNativeHandle :: "LinuxEventFdSignal \<Rightarrow> eventfd option" where
  "Signal_GetNativeHandle s = es_fd s"

definition Signal_GetLastError :: "LinuxEventFdSignal \<Rightarrow> string" where
  "Signal_GetLastError s = es_last_error s"

definition CreateEventFdSignal :: "string option \<Rightarrow> LinuxEventFdSignal option" where
  "CreateEventFdSignal failed =
     (let (ok, s) = Signal_Create failed 0 False False Signal_construct
      in if ok then Some s else None)"

section \<open>Facts\<close>

lemma drain_result: "drain e = (ev_nonblock e, e\<lparr>ev_counter := 0\<rparr>)"
proof (induction e rule: drain.induct)
  case (1 e)
  show ?case
  proof (cases "ev_counter e = 0")
    case True
    then have "e\<lparr>ev_counter := 0\<rparr> = e" by simp
    then show ?thesis using True by (subst drain.simps) (simp add: eventfd_read_def)
  next
    case False
    then show ?thesis
      using 1 [of "fst (eventfd_read e)" "snd (eventfd_read e)"]
      by (subst drain.simps) (auto simp: eventfd_read_def)
  qed
qed

fun notify_times :: "nat \<Rightarrow> LinuxEventFdSignal \<Rightarrow> LinuxEventFdSignal" where
  "notify_times 0 s = s"
| "notify_times (Suc n) s = notify_times n (snd (Signal_Notify s))"

lemma notify_times_counter:
  assumes "es_valid s" and "es_fd s = Some e" and "ev_counter e + n < 2 ^ 64 - 1"
  shows "notify_times n s = s\<lparr>es_fd := Some (e\<lparr>ev_counter := ev_counter e + n\<rparr>)\<rparr>"
  using assms
proof (induction n arbitrary: s e)
  case 0
  then show ?case by simp
next
  case (Suc n)
  let ?e = "e\<lparr>ev_counter := Suc (ev_counter e)\<rparr>"
  have "snd (Signal_Notify s) = s\<lparr>es_fd := Some ?e\<rparr>"
    using Suc.prems by (simp add: Signal_Notify_def eventfd_write_def)
  then show ?case using Suc.IH [of "s\<lparr>es_fd := Some ?e\<rparr>" ?e] Suc.prems by simp
qed

lemma notify_times_kind:
  "es_valid (notify_times n s) = es_valid s \<and>
    map_option ev_nonblock (es_fd (notify_times n s)) = map_option ev_nonblock (es_fd s)"
proof (induction n arbitrary: s)
  case 0
  then show ?case by simp
next
  case (Suc n)
  have "es_valid (snd (Signal_Notify s)) = es_valid s \<and>
      map_option ev_nonblock (es_fd (snd (Signal_Notify s))) = map_option ev_nonblock (es_fd s)"
    by (auto simp: Signal_Notify_def eventfd_write_def split: option.splits)
  then show ?case using Suc.IH by simp
qed

lemma Signal_Reset_created:
  assumes "s = snd (Signal_Create None v False semaphore s0)"
  shows "fst (Signal_Reset (notify_times k s)) = None"
proof -
  have "es_valid s" and "map_option ev_nonblock (es_fd s) = Some False"
    using assms by (simp_all add: Signal_Create_def)
  then have "es_valid (notify_times k s)" and "map_option ev_nonblock (es_fd (notify_times k s)) = Some False"
    by (simp_all add: notify_times_kind)
  then show ?thesis by (auto simp: Signal_Reset_def drain_result split: option.splits)
qed

section \<open>Properties\<close>

text \<open>
  No signal is lost, but several count as one: after any number of notifications of a fresh
  signal, from one to fewer than \<open>2 ^ 64 - 1\<close>, the first wait returns true at once, and the
  next one returns true only if something was signalled in the meantime.
\<close>

theorem Signal_coalesces:
  assumes "0 < n" and "n < 2 ^ 64 - 1" and "CreateEventFdSignal None = Some s"
  shows "case Signal_Wait t 0 (notify_times n s) of
      (first, s') \<Rightarrow> first = Some True \<and> (fst (Signal_Wait t arrivals s') = Some True \<longleftrightarrow> 0 < arrivals)"
proof -
  let ?e = "\<lparr>ev_counter = 0, ev_nonblock = False, ev_semaphore = False\<rparr>"
  have s: "es_valid s" "es_fd s = Some ?e"
    using assms(3) by (auto simp: CreateEventFdSignal_def Signal_Create_def)
  show ?thesis
    using notify_times_counter [OF s] s assms(1,2)
    by (simp add: Signal_Wait_def poll_ends_without_input_def eventfd_read_def Let_def)
qed

theorem Signal_coalesces_witness:
  "\<exists>s. CreateEventFdSignal None = Some s \<and> fst (Signal_Wait 100 0 (notify_times 3 s)) = Some True"
proof -
  obtain s where s: "CreateEventFdSignal None = Some s"
    by (simp add: CreateEventFdSignal_def Signal_Create_def)
  from Signal_coalesces [OF _ _ s, of 3 100 0] s show ?thesis by (auto split: prod.splits)
qed

text \<open>
  \<open>Reset\<close> of a signal the library creates never returns. Server, client and the factory
  create the eventfd without \<open>EFD_NONBLOCK\<close>, so after draining the counter the loop's next read
  blocks, however often the signal was notified; with that flag \<open>Reset\<close> would return true with
  the counter at zero.
\<close>

theorem Signal_Reset_blocks:
  assumes "Signal_Create None v nonblock semaphore s0 = (ok, s)"
  shows "fst (Signal_Reset (notify_times k s)) = (if nonblock then Some True else None) \<and>
    map_option ev_counter (es_fd (snd (Signal_Reset (notify_times k s)))) = Some 0"
proof -
  have "es_valid s" and "map_option ev_nonblock (es_fd s) = Some nonblock"
    using assms by (auto simp: Signal_Create_def)
  then have "es_valid (notify_times k s)" and "map_option ev_nonblock (es_fd (notify_times k s)) = Some nonblock"
    by (simp_all add: notify_times_kind)
  then show ?thesis by (auto simp: Signal_Reset_def drain_result split: option.splits)
qed

theorem Signal_Reset_blocks_witness:
  "fst (Signal_Reset (snd (Signal_Create None 0 False False Signal_construct))) = None"
  using Signal_Reset_blocks [of 0 False False Signal_construct True _ 0] by (simp add: Signal_Create_def)

end
