(* ===== verification/Hal_Interfaces.thy ===== *)
theory Hal_Interfaces
  imports Linux_Eventfd Bounded_Fifo
begin

text \<open>
  The interfaces of \<open>include/phoenix/hal/\<close>: their enumerations, and what \<open>ISignalMechanism\<close>
  documents as a contract. \<open>LinuxEventFdSignal\<close> is the only implementation in the repository;
  \<open>ISharedMemory\<close> has none. The contract is that of a number of pending notifications: \<open>Notify\<close>
  adds one, a successful wait takes one of them or, for an implementation that coalesces, all,
  \<open>TryWait\<close> never blocks, and \<open>Reset\<close> clears them.
\<close>

datatype Protection = kRead | kWrite | kExec

primrec Protection_code :: "Protection \<Rightarrow> u32" where
  "Protection_code kRead = push_bit 0 1"
| "Protection_code kWrite = push_bit 1 1"
| "Protection_code kExec = push_bit 2 1"

datatype Ownership = kCreator | kAttach | kServer

primrec Ownership_code :: "Ownership \<Rightarrow> u8" where
  "Ownership_code kCreator = 0"
| "Ownership_code kAttach = 1"
| "Ownership_code kServer = 2"

datatype SignalMechanismType = kEventFd | kSignalfd | kEventObject | kConditionVar

primrec SignalMechanismType_code :: "SignalMechanismType \<Rightarrow> int" where
  "SignalMechanismType_code kEventFd = 0"
| "SignalMechanismType_code kSignalfd = 1"
| "SignalMechanismType_code kEventObject = 2"
| "SignalMechanismType_code kConditionVar = 3"

section \<open>The documented contract of a signal\<close>

text \<open>The calls of \<open>ISignalMechanism\<close>. \<open>Wait\<close> has its timeout and how many notifications of other
  threads arrive before it ends; a timeout of 0 is documented as infinite.\<close>

datatype signal_call = Call_Notify | Call_Wait u32 nat | Call_TryWait | Call_Reset

fun ISignal_step :: "(nat \<Rightarrow> nat) \<Rightarrow> signal_call \<Rightarrow> nat \<Rightarrow> bool option \<times> nat" where
  "ISignal_step took Call_Notify n = (Some True, Suc n)"
| "ISignal_step took (Call_Wait t k) n =
     (if t = 0 \<and> n + k = 0 then (None, 0) else (Some (0 < n + k), n + k - took (n + k)))"
| "ISignal_step took Call_TryWait n = (Some (0 < n), n - took n)"
| "ISignal_step took Call_Reset n = (Some True, 0)"

fun signal_step ::
  "('s \<Rightarrow> bool option \<times> 's) \<Rightarrow> (u32 \<Rightarrow> nat \<Rightarrow> 's \<Rightarrow> bool option \<times> 's) \<Rightarrow> ('s \<Rightarrow> bool option \<times> 's) \<Rightarrow>
   ('s \<Rightarrow> bool option \<times> 's) \<Rightarrow>
   signal_call \<Rightarrow> 's \<Rightarrow> bool option \<times> 's" where
  "signal_step notify wait try_wait reset Call_Notify s = notify s"
| "signal_step notify wait try_wait reset (Call_Wait t k) s = wait t k s"
| "signal_step notify wait try_wait reset Call_TryWait s = try_wait s"
| "signal_step notify wait try_wait reset Call_Reset s = reset s"

text \<open>The notifications a sequence of calls brings.\<close>

fun notified :: "signal_call list \<Rightarrow> nat" where
  "notified [] = 0"
| "notified (Call_Notify # xs) = Suc (notified xs)"
| "notified (Call_Wait t k # xs) = k + notified xs"
| "notified (_ # xs) = notified xs"

text \<open>Waits with a timeout that is positive as an \<open>int\<close>.\<close>

fun timed :: "signal_call \<Rightarrow> bool" where
  "timed (Call_Wait t k) \<longleftrightarrow> 0 < sint t"
| "timed _ \<longleftrightarrow> True"

text \<open>Then the contract has no call that blocks for ever.\<close>

lemma ISignal_never_blocks:
  "list_all timed calls \<Longrightarrow> None \<notin> set (fst (run_ops (ISignal_step took) calls n))"
proof (induction calls arbitrary: n)
  case Nil
  then show ?case by simp
next
  case (Cons x calls)
  obtain b n' where "ISignal_step took x n = (Some b, n')"
    using Cons.prems by (cases "fst (ISignal_step took x n)"; cases x) (auto split: if_splits)
  then show ?case using Cons.IH [of n'] Cons.prems by (auto split: prod.splits)
qed

locale signal_mechanism =
  fixes notify try_wait reset :: "'s \<Rightarrow> bool option \<times> 's"
    and wait :: "u32 \<Rightarrow> nat \<Rightarrow> 's \<Rightarrow> bool option \<times> 's"
    and inv :: "'s \<Rightarrow> bool"
    and pending :: "'s \<Rightarrow> nat"
    and took :: "nat \<Rightarrow> nat"
    and room :: nat
  assumes notify_counts: "inv s \<Longrightarrow> Suc (pending s) < room \<Longrightarrow>
      \<exists>s'. notify s = (Some True, s') \<and> inv s' \<and> pending s' = Suc (pending s)"
    and wait_takes: "inv s \<Longrightarrow> 0 < sint t \<Longrightarrow> \<exists>s'. wait t k s = (Some (0 < pending s + k), s') \<and> inv s' \<and>
      pending s' = pending s + k - took (pending s + k)"
    and try_wait_takes: "inv s \<Longrightarrow> \<exists>s'. try_wait s = (Some (0 < pending s), s') \<and> inv s' \<and>
      pending s' = pending s - took (pending s)"
    and reset_clears: "inv s \<Longrightarrow> \<exists>s'. reset s = (Some True, s') \<and> inv s' \<and> pending s' = 0"
begin

lemma step_refines:
  assumes "inv s" and "pending s + notified [x] < room" and "timed x"
  shows "\<exists>r s'. signal_step notify wait try_wait reset x s = (r, s') \<and> inv s' \<and>
    ISignal_step took x (pending s) = (r, pending s') \<and> pending s' \<le> pending s + notified [x]"
proof (cases x)
  case Call_Notify
  then show ?thesis using assms notify_counts [of s] by auto
next
  case (Call_Wait t k)
  then show ?thesis using wait_takes [OF assms(1), of t k] assms(3) by auto
next
  case Call_TryWait
  then show ?thesis using try_wait_takes [OF assms(1)] by auto
next
  case Call_Reset
  then show ?thesis using reset_clears [OF assms(1)] by auto
qed

text \<open>No call of a sequence blocks, and each returns what the count says.\<close>

lemma run_refines:
  assumes "inv s" and "pending s + notified xs < room" and "list_all timed xs"
  shows "\<exists>rs s'. run_ops (signal_step notify wait try_wait reset) xs s = (rs, s') \<and> inv s' \<and>
    run_ops (ISignal_step took) xs (pending s) = (rs, pending s')"
  using assms
proof (induction xs arbitrary: s)
  case Nil
  then show ?case by simp
next
  case (Cons x xs)
  have split: "notified (x # xs) = notified [x] + notified xs" by (cases x) simp_all
  obtain r s1 where step: "signal_step notify wait try_wait reset x s = (r, s1)" and inv: "inv s1"
    and spec: "ISignal_step took x (pending s) = (r, pending s1)"
    and le: "pending s1 \<le> pending s + notified [x]"
    using step_refines [OF Cons.prems(1), of x] Cons.prems(2,3) split by auto
  have "pending s1 + notified xs < room" using le Cons.prems(2) split by simp
  from Cons.IH [OF inv this] Cons.prems(3) obtain rs s2 where
    "run_ops (signal_step notify wait try_wait reset) xs s1 = (rs, s2)" "inv s2"
    "run_ops (ISignal_step took) xs (pending s1) = (rs, pending s2)"
    by auto
  then show ?case using step spec by simp
qed

end

section \<open>The eventfd signal\<close>

definition eventfd_signal :: "bool \<Rightarrow> bool \<Rightarrow> LinuxEventFdSignal \<Rightarrow> bool" where
  "eventfd_signal nonblock semaphore s \<longleftrightarrow> es_valid s \<and>
     (\<exists>e. es_fd s = Some e \<and> ev_nonblock e = nonblock \<and> ev_semaphore e = semaphore)"

definition signal_pending :: "LinuxEventFdSignal \<Rightarrow> nat" where
  "signal_pending s = (case es_fd s of None \<Rightarrow> 0 | Some e \<Rightarrow> ev_counter e)"

definition eventfd_took :: "bool \<Rightarrow> nat \<Rightarrow> nat" where
  "eventfd_took semaphore n = (if semaphore then 1 else n)"

abbreviation "eventfd_step \<equiv> signal_step Signal_Notify Signal_Wait Signal_TryWait Signal_Reset"

lemmas eventfd_defs = eventfd_signal_def signal_pending_def eventfd_took_def eventfd_write_def
  eventfd_read_def

lemma eventfd_notify_counts:
  assumes "eventfd_signal nonblock semaphore s" and "Suc (signal_pending s) < 2 ^ 64 - 1"
  shows "\<exists>s'. Signal_Notify s = (Some True, s') \<and> eventfd_signal nonblock semaphore s' \<and>
    signal_pending s' = Suc (signal_pending s)"
  using assms by (auto simp: Signal_Notify_def eventfd_defs)

lemma eventfd_wait_takes:
  assumes "eventfd_signal nonblock semaphore s" and "0 < sint t"
  shows "\<exists>s'. Signal_Wait t k s = (Some (0 < signal_pending s + k), s') \<and> eventfd_signal nonblock semaphore s' \<and>
    signal_pending s' = signal_pending s + k - eventfd_took semaphore (signal_pending s + k)"
  using assms by (auto simp: Signal_Wait_def Let_def eventfd_defs poll_ends_without_input_def)

text \<open>Only with \<open>EFD_NONBLOCK\<close> do \<open>TryWait\<close> and \<open>Reset\<close> keep the contract: that flag makes
  the eventfd of this development an implementation of the interface.\<close>

interpretation nonblocking: signal_mechanism Signal_Notify Signal_TryWait Signal_Reset Signal_Wait
  "eventfd_signal True semaphore" signal_pending "eventfd_took semaphore" "2 ^ 64 - 1" for semaphore
proof unfold_locales
  fix s
  assume inv: "eventfd_signal True semaphore s"
  then show "\<exists>s'. Signal_TryWait s = (Some (0 < signal_pending s), s') \<and> eventfd_signal True semaphore s' \<and>
      signal_pending s' = signal_pending s - eventfd_took semaphore (signal_pending s)"
    by (auto simp: Signal_TryWait_def eventfd_defs)
  show "\<exists>s'. Signal_Reset s = (Some True, s') \<and> eventfd_signal True semaphore s' \<and> signal_pending s' = 0"
    using inv by (auto simp: Signal_Reset_def drain_result eventfd_signal_def signal_pending_def)
qed (fact eventfd_notify_counts eventfd_wait_takes)+

lemma created_signal:
  "eventfd_signal nonblock semaphore (snd (Signal_Create None v nonblock semaphore s))"
  "signal_pending (snd (Signal_Create None v nonblock semaphore s)) = unat (ucast v :: u32)"
  by (simp_all add: Signal_Create_def eventfd_signal_def signal_pending_def)

text \<open>A signal without the flag blocks in \<open>TryWait\<close> when nothing is pending, and in \<open>Reset\<close> always.\<close>

lemma blocking_TryWait:
  assumes "eventfd_signal False semaphore s"
  shows "fst (Signal_TryWait s) = (if signal_pending s = 0 then None else Some True)"
  using assms by (auto simp: Signal_TryWait_def eventfd_defs)

lemma blocking_Reset: "eventfd_signal False semaphore s \<Longrightarrow> fst (Signal_Reset s) = None"
  by (auto simp: Signal_Reset_def drain_result eventfd_signal_def)

section \<open>Properties\<close>

text \<open>
  C23. An eventfd signal created with \<open>EFD_NONBLOCK\<close> is what \<open>ISignalMechanism\<close> documents: any
  sequence of \<open>Notify\<close>, \<open>Wait\<close>, \<open>TryWait\<close> and \<open>Reset\<close> calls returns, call by call, what a
  count of pending notifications says, and none of them blocks, when the waits have a positive
  timeout below \<open>2 ^ 31\<close>; a wait takes one notification with \<open>EFD_SEMAPHORE\<close> and all of them
  without. The count starts with the lower 32 bits of the initial value.
\<close>

theorem Signal_refines_interface:
  assumes "Signal_Create None v True semaphore s0 = (ok, s)" and "list_all timed calls"
    and "notified calls < 2 ^ 63"
  shows "\<exists>rs s'. run_ops eventfd_step calls s = (rs, s') \<and>
    run_ops (ISignal_step (eventfd_took semaphore)) calls (unat (ucast v :: u32)) = (rs, signal_pending s') \<and>
    None \<notin> set rs"
proof -
  have s: "eventfd_signal True semaphore s" "signal_pending s = unat (ucast v :: u32)"
    using created_signal [where nonblock = True and semaphore = semaphore and v = v and s = s0] assms(1)
    by simp_all
  moreover have "signal_pending s < 2 ^ 32" using unsigned_less [of "ucast v :: u32"] s(2) by simp
  ultimately have "signal_pending s + notified calls < 2 ^ 64 - 1" using assms(3) by simp
  from nonblocking.run_refines [OF s(1) this assms(2)] obtain rs s' where
    "run_ops eventfd_step calls s = (rs, s')"
    "run_ops (ISignal_step (eventfd_took semaphore)) calls (unat (ucast v :: u32)) = (rs, signal_pending s')"
    by (auto simp: s(2))
  then show ?thesis using ISignal_never_blocks [OF assms(2)] by (metis fst_conv)
qed

theorem Signal_refines_interface_witness:
  "fst (run_ops eventfd_step [Call_Notify, Call_Notify, Call_TryWait, Call_TryWait, Call_Wait 100 1, Call_Reset]
     (snd (Signal_Create None 0 True False Signal_construct))) =
   [Some True, Some True, Some True, Some False, Some True, Some True]"
proof -
  have "Signal_Create None 0 True False Signal_construct =
      (True, snd (Signal_Create None 0 True False Signal_construct))"
    by (simp add: Signal_Create_def)
  from Signal_refines_interface [OF this, of
      "[Call_Notify, Call_Notify, Call_TryWait, Call_TryWait, Call_Wait 100 1, Call_Reset]"]
  show ?thesis by (auto simp: eventfd_took_def)
qed

text \<open>
  The signals the library creates are not. Server, client and the factory leave the flag
  out, and then \<open>TryWait\<close>, documented as never blocking, either finds a notification or never
  returns, so that it cannot return false; after one that found some, the next one blocks; and
  \<open>Reset\<close> never returns. With no notification \<open>Wait\<close> returns false at once for a timeout of 0,
  which is documented as infinite, and waits for ever for one of \<open>2 ^ 31\<close> and more.
\<close>

theorem Signal_breaks_interface:
  assumes "CreateEventFdSignal None = Some s0" and "notify_times k s0 = s" and "k < 2 ^ 64 - 1"
  shows "case Signal_TryWait s of (r, s') \<Rightarrow>
      r = (if k = 0 then None else Some True) \<and> fst (Signal_TryWait s') = None \<and>
      fst (Signal_Reset s) = None \<and>
      fst (Signal_Wait t 0 s) = (if k = 0 then if sint t < 0 then None else Some False else Some True) \<and>
      fst (ISignal_step (eventfd_took False) Call_TryWait 0) = Some False \<and>
      fst (ISignal_step (eventfd_took False) (Call_Wait t 0) 0) = (if t = 0 then None else Some False)"
proof -
  let ?e = "\<lparr>ev_counter = 0, ev_nonblock = False, ev_semaphore = False\<rparr>"
  have s0: "es_valid s0" "es_fd s0 = Some ?e"
    using assms(1) by (auto simp: CreateEventFdSignal_def Signal_Create_def)
  then have s: "s = s0\<lparr>es_fd := Some (?e\<lparr>ev_counter := k\<rparr>)\<rparr>"
    using notify_times_counter [OF s0, of k] assms(2,3) by simp
  then have "eventfd_signal False False s" using s0 by (simp add: eventfd_signal_def)
  from blocking_Reset [OF this] show ?thesis
    using s s0 by (simp add: Signal_TryWait_def Signal_Wait_def Let_def eventfd_read_def poll_ends_without_input_def)
qed

theorem Signal_breaks_interface_witness:
  "\<exists>s. CreateEventFdSignal None = Some s \<and> fst (Signal_TryWait s) = None"
proof -
  obtain s where s: "CreateEventFdSignal None = Some s"
    by (simp add: CreateEventFdSignal_def Signal_Create_def)
  from Signal_breaks_interface [OF s, of 0 s 0] s show ?thesis by auto
qed

end
