(* ===== verification/Cpp_String.thy ===== *)
theory Cpp_String
  imports Prelude
begin

text \<open>
  What the library uses of \<open>std::string\<close>: searching, substrings, decimal output and the number
  parsers \<open>stoull\<close> and \<open>stoll\<close> with the exceptions they throw. Positions are \<open>size_t\<close>, and
  arithmetic on \<open>npos\<close> wraps around as it does in the code.
\<close>

section \<open>Searching\<close>

datatype cpp_exception = Invalid_argument | Out_of_range

definition npos :: u64 where "npos = - 1"

fun find_sub :: "string \<Rightarrow> string \<Rightarrow> nat option" where
  "find_sub pat [] = (if pat = [] then Some 0 else None)"
| "find_sub pat (c # cs) =
     (if take (length pat) (c # cs) = pat then Some 0 else map_option Suc (find_sub pat cs))"

definition cpp_find :: "string \<Rightarrow> string \<Rightarrow> u64 \<Rightarrow> u64" where
  "cpp_find s pat pos =
     (if unat pos \<le> length s
      then case find_sub pat (drop (unat pos) s) of None \<Rightarrow> npos | Some k \<Rightarrow> pos + of_nat k
      else npos)"

definition cpp_substr :: "string \<Rightarrow> u64 \<Rightarrow> u64 \<Rightarrow> cpp_exception + string" where
  "cpp_substr s pos n =
     (if length s < unat pos then Inl Out_of_range
      else Inr (take (unat n) (drop (unat pos) s)))"

section \<open>Numbers\<close>

fun digits_of :: "nat \<Rightarrow> string" where
  "digits_of n =
     (if n < 10 then [char_of (48 + n)] else digits_of (n div 10) @ [char_of (48 + n mod 10)])"

declare digits_of.simps [simp del]

definition int_digits :: "int \<Rightarrow> string" where
  "int_digits i = (if i < 0 then CHR ''-'' # digits_of (nat (- i)) else digits_of (nat i))"

definition is_digit :: "char \<Rightarrow> bool" where
  "is_digit c \<longleftrightarrow> 48 \<le> (of_char c :: nat) \<and> (of_char c :: nat) < 58"

definition is_space :: "char \<Rightarrow> bool" where
  "is_space c \<longleftrightarrow> c = CHR '' '' \<or> 9 \<le> (of_char c :: nat) \<and> (of_char c :: nat) \<le> 13"

definition digits_value :: "string \<Rightarrow> nat" where
  "digits_value = foldl (\<lambda>v c. 10 * v + (of_char c - 48)) 0"

text \<open>The sign and the digits \<open>strtoull\<close> and \<open>strtoll\<close> find after leading white space.\<close>

definition scan_number :: "string \<Rightarrow> bool \<times> string" where
  "scan_number s =
     (case dropWhile is_space s of
        [] \<Rightarrow> (False, [])
      | c # cs \<Rightarrow> if c = CHR ''-'' then (True, takeWhile is_digit cs)
                 else if c = CHR ''+'' then (False, takeWhile is_digit cs)
                 else (False, takeWhile is_digit (c # cs)))"

definition stoull :: "string \<Rightarrow> cpp_exception + u64" where
  "stoull s =
     (let (neg, ds) = scan_number s; v = digits_value ds
      in if ds = [] then Inl Invalid_argument
         else if 2 ^ 64 \<le> v then Inl Out_of_range
         else Inr (if neg then - of_nat v else of_nat v))"

definition stoll :: "string \<Rightarrow> cpp_exception + u64" where
  "stoll s =
     (let (neg, ds) = scan_number s; v = digits_value ds
      in if ds = [] then Inl Invalid_argument
         else if (if neg then 2 ^ 63 < v else 2 ^ 63 \<le> v) then Inl Out_of_range
         else Inr (if neg then - of_nat v else of_nat v))"

subsection \<open>Decimal output is read back\<close>

lemma digits_of_nonempty [simp]: "digits_of n \<noteq> []"
  by (subst digits_of.simps) simp

lemma of_char_digit: "d < 10 \<Longrightarrow> of_char (char_of (48 + d :: nat)) = 48 + d"
  by simp

lemma digits_of_is_digit: "c \<in> set (digits_of n) \<Longrightarrow> is_digit c"
proof (induction n rule: digits_of.induct)
  case (1 n)
  then show ?case
    by (subst (asm) digits_of.simps) (auto simp: is_digit_def split: if_splits)
qed

lemma digits_value_digits_of [simp]: "digits_value (digits_of n) = n"
proof (induction n rule: digits_of.induct)
  case (1 n)
  show ?case
  proof (cases "n < 10")
    case True
    then show ?thesis by (subst digits_of.simps) (simp add: digits_value_def)
  next
    case False
    then have "digits_value (digits_of n) = 10 * digits_value (digits_of (n div 10)) + n mod 10"
      by (subst digits_of.simps) (simp add: digits_value_def)
    then show ?thesis using 1 False by simp
  qed
qed

lemma is_digit_facts: "is_digit c \<Longrightarrow> \<not> is_space c \<and> c \<noteq> CHR ''-'' \<and> c \<noteq> CHR ''+''
    \<and> c \<noteq> CHR ''\"'' \<and> c \<noteq> CHR '','' \<and> c \<noteq> CHR '':'' \<and> c \<noteq> CHR ''}''"
  by (auto simp: is_digit_def is_space_def)

lemma takeWhile_digits:
  assumes "takeWhile is_digit t = []"
  shows "takeWhile is_digit (digits_of n @ t) = digits_of n"
proof -
  have "\<forall>x\<in>set (digits_of n). is_digit x" using digits_of_is_digit by blast
  then show ?thesis using assms by (simp add: takeWhile_append2)
qed

lemma scan_number_digits:
  assumes "is_space c" and "takeWhile is_digit t = []"
  shows "scan_number (c # digits_of n @ t) = (False, digits_of n)"
    and "scan_number (c # CHR ''-'' # digits_of n @ t) = (True, digits_of n)"
proof -
  note all = takeWhile_digits [OF assms(2), of n]
  obtain d ds where ds: "digits_of n = d # ds" using digits_of_nonempty [of n] by (cases "digits_of n") auto
  have "is_digit d" using digits_of_is_digit [of d n] ds by simp
  then show "scan_number (c # digits_of n @ t) = (False, digits_of n)"
    using assms(1) all is_digit_facts [of d] by (simp add: scan_number_def ds)
  show "scan_number (c # CHR ''-'' # digits_of n @ t) = (True, digits_of n)"
    using assms(1) all by (simp add: scan_number_def is_space_def)
qed

lemma stoull_digits:
  "is_space c \<Longrightarrow> takeWhile is_digit t = [] \<Longrightarrow> stoull (c # digits_of (unat w) @ t) = Inr w"
  by (simp add: stoull_def scan_number_digits Let_def not_le)

lemma stoll_digits:
  assumes "is_space c" and "takeWhile is_digit t = []"
  shows "stoll (c # int_digits (sint (w :: u64)) @ t) = Inr w"
proof (cases "sint w < 0")
  case True
  have "- (2 ^ 63) \<le> sint w" using sint_ge [of w] by simp
  then have "nat (- sint w) \<le> 2 ^ 63" by (simp add: nat_le_iff)
  moreover have "- of_nat (nat (- sint w)) = w" using True by simp
  ultimately show ?thesis
    using True assms by (simp add: stoll_def int_digits_def scan_number_digits)
next
  case False
  have "sint w < 2 ^ 63" using sint_lt [of w] by simp
  then have "nat (sint w) < 2 ^ 63" using False by (simp add: nat_less_iff)
  moreover have "of_nat (nat (sint w)) = w" using False by simp
  ultimately show ?thesis
    using False assms by (simp add: stoll_def int_digits_def scan_number_digits)
qed

lemma length_digits_of: "n < 10 ^ Suc k \<Longrightarrow> length (digits_of n) \<le> Suc k"
proof (induction k arbitrary: n)
  case 0
  then show ?case by (subst digits_of.simps) simp
next
  case (Suc k)
  then have "n div 10 < 10 ^ Suc k" by (intro less_mult_imp_div_less) simp
  then show ?case using Suc.IH by (subst digits_of.simps) simp
qed

lemma length_digits_u64: "length (digits_of (unat (w :: u64))) \<le> 20"
proof -
  have "unat w < 10 ^ Suc 19" using less_trans [OF unat_u64_lt [of w]] by simp
  then show ?thesis using length_digits_of [of "unat w" 19] by simp
qed

lemma length_int_digits_u64: "length (int_digits (sint (w :: u64))) \<le> 20"
proof -
  have "nat \<bar>sint w\<bar> \<le> 2 ^ 63"
    using sint_ge [of w] sint_lt [of w] by (simp add: nat_le_iff abs_le_iff)
  then have "nat \<bar>sint w\<bar> < 10 ^ Suc 18" by simp
  then have "length (digits_of (nat \<bar>sint w\<bar>)) \<le> Suc 18" by (rule length_digits_of)
  then show ?thesis by (auto simp: int_digits_def split: if_splits)
qed

lemma int_digits_char: "c \<in> set (int_digits i) \<Longrightarrow> is_digit c \<or> c = CHR ''-''"
  using digits_of_is_digit by (auto simp: int_digits_def split: if_splits)

section \<open>Quoted text\<close>

text \<open>A text cut at its quotation marks: \<open>qjoin\<close> puts one between any two pieces.\<close>

fun qjoin :: "string list \<Rightarrow> string" where
  "qjoin [] = []"
| "qjoin [t] = t"
| "qjoin (t # u # ts) = t @ CHR ''\"'' # qjoin (u # ts)"

definition quoted :: "string \<Rightarrow> string" where
  "quoted s = CHR ''\"'' # s @ [CHR ''\"'']"

lemma qjoin_append:
  "us \<noteq> [] \<Longrightarrow> vs \<noteq> [] \<Longrightarrow> qjoin (us @ vs) = qjoin us @ CHR ''\"'' # qjoin vs"
  by (induction us rule: qjoin.induct) (auto simp: neq_Nil_conv)

lemma qjoin_split:
  "us \<noteq> [] \<Longrightarrow> vs \<noteq> [] \<Longrightarrow> qjoin (us @ key # vs) = qjoin us @ quoted key @ qjoin vs"
  by (cases vs) (auto simp: qjoin_append quoted_def)

lemma find_sub_skip:
  "CHR ''\"'' \<notin> set t \<Longrightarrow>
    find_sub (quoted key) (t @ s) = map_option ((+) (length t)) (find_sub (quoted key) s)"
proof (induction t)
  case Nil
  then show ?case by (cases "find_sub (quoted key) s") auto
next
  case (Cons a t)
  then show ?case by (cases "find_sub (quoted key) s") (auto simp: quoted_def)
qed

lemma takeWhile_quote:
  "CHR ''\"'' \<notin> set t \<Longrightarrow> takeWhile (\<lambda>c. c \<noteq> CHR ''\"'') (t @ CHR ''\"'' # s) = t"
  by (induction t) auto

lemma quote_prefix:
  assumes "CHR ''\"'' \<notin> set key" and "CHR ''\"'' \<notin> set t"
    and "take (Suc (length key)) (t @ CHR ''\"'' # s) = key @ [CHR ''\"'']"
  shows "t = key"
proof -
  have "t @ CHR ''\"'' # s = (key @ [CHR ''\"'']) @ drop (Suc (length key)) (t @ CHR ''\"'' # s)"
    using append_take_drop_id [of "Suc (length key)" "t @ CHR ''\"'' # s"] by (simp only: assms(3))
  then have "t @ CHR ''\"'' # s = key @ CHR ''\"'' # drop (Suc (length key)) (t @ CHR ''\"'' # s)"
    by simp
  then show ?thesis using takeWhile_quote [OF assms(1)] takeWhile_quote [OF assms(2)] by metis
qed

text \<open>The first piece between quotation marks that equals the key is what a search finds.\<close>

lemma find_quoted:
  assumes "us \<noteq> []" and "vs \<noteq> []" and "key \<notin> set (tl us)"
    and "\<forall>t \<in> set (key # us). CHR ''\"'' \<notin> set t"
  shows "find_sub (quoted key) (qjoin (us @ key # vs)) = Some (length (qjoin us))"
  using assms
proof (induction us rule: qjoin.induct)
  case 1
  then show ?case by simp
next
  case (2 t)
  then show ?case
    using find_sub_skip [of t key "quoted key @ qjoin vs"]
    by (cases vs) (auto simp: qjoin_append quoted_def)
next
  case (3 t u ts)
  let ?rest = "qjoin (u # ts @ key # vs)"
  obtain s where s: "?rest = u @ CHR ''\"'' # s"
    by (cases "ts @ key # vs") auto
  have "u \<noteq> key" using 3 by auto
  then have "find_sub (quoted key) (CHR ''\"'' # ?rest) = map_option Suc (find_sub (quoted key) ?rest)"
    using quote_prefix [of key u s] 3 by (auto simp: quoted_def s)
  then show ?case
    using 3 find_sub_skip [of t key "CHR ''\"'' # ?rest"] by (simp add: list.set_sel)
qed

lemma find_sub_char: "c \<notin> set xs \<Longrightarrow> find_sub [c] (xs @ c # ys) = Some (length xs)"
  by (induction xs) auto

lemma cpp_find_char:
  assumes "c \<notin> set xs" and "length (as @ xs @ c # ys) < 2 ^ 64"
  shows "cpp_find (as @ xs @ c # ys) [c] (of_nat (length as)) = of_nat (length as + length xs)"
proof -
  have "unat (of_nat (length as) :: u64) = length as" using assms(2) by (intro unat_of_nat_u64) simp
  then show ?thesis using assms(1) by (simp add: cpp_find_def find_sub_char)
qed

lemma cpp_substr_mid:
  assumes "length (as @ xs @ ys) < 2 ^ 64"
  shows "cpp_substr (as @ xs @ ys) (of_nat (length as)) (of_nat (length xs)) = Inr xs"
proof -
  have "unat (of_nat (length as) :: u64) = length as" "unat (of_nat (length xs) :: u64) = length xs"
    using assms by (auto intro: unat_of_nat_u64)
  then show ?thesis by (simp add: cpp_substr_def)
qed

end
