(* ===== verification/Coordination_File.thy ===== *)
theory Coordination_File
  imports Cpp_String
begin

text \<open>
  The coordination file of \<open>include/phoenix/coordination/coordination_file.hpp\<close> and
  \<open>src/coordination/coordination_file.cpp\<close>, through which a consumer learns the name and the
  sizes of a producer's segment: the JSON text \<open>Create\<close> writes, the parser of \<open>Read\<close>, and the
  file system effects. The file system is a map from paths to contents; the outcomes of the
  system calls are the fields of \<open>posix_calls\<close>, arguments of the functions that make them.
\<close>

record CoordinationMetadata =
  cm_shm_name :: string
  cm_shm_size :: u64
  cm_queue_capacity :: u64
  cm_payload_size :: u64
  cm_producer_pid :: pid
  cm_creation_time :: u64
  cm_modify_time :: u64

definition Coord_kVersion :: string where "Coord_kVersion = ''1.0''"

datatype CoordinationResult =
  kSuccess | kFileNotFound | kParseError | kInvalidFormat | kVersionMismatch | kProducerGone | kIoError

primrec CoordinationResult_code :: "CoordinationResult \<Rightarrow> int" where
  "CoordinationResult_code kSuccess = 0"
| "CoordinationResult_code kFileNotFound = 1"
| "CoordinationResult_code kParseError = 2"
| "CoordinationResult_code kInvalidFormat = 3"
| "CoordinationResult_code kVersionMismatch = 4"
| "CoordinationResult_code kProducerGone = 5"
| "CoordinationResult_code kIoError = 6"

definition GetDefaultShmSize :: u64 where "GetDefaultShmSize = 64 * 1024"

definition GetDefaultQueueCapacity :: u64 where "GetDefaultQueueCapacity = 1024"

definition GetDefaultPayloadSize :: u64 where "GetDefaultPayloadSize = 32 * 1024"

section \<open>Creating the file\<close>

definition newline :: string where "newline = [CHR 0x0A]"

text \<open>One line of the file: the name of a member, and the text of its value.\<close>

definition json_member :: "string \<Rightarrow> string \<Rightarrow> string" where
  "json_member key val = ''  '' @ quoted key @ '': '' @ val"

definition Coord_json :: "CoordinationMetadata \<Rightarrow> string" where
  "Coord_json m =
     ''{'' @ newline @
     json_member ''version'' (quoted (cm_shm_name m)) @ '','' @ newline @
     json_member ''shm_name'' (quoted (cm_shm_name m)) @ '','' @ newline @
     json_member ''shm_size'' (digits_of (unat (cm_shm_size m))) @ '','' @ newline @
     json_member ''queue_capacity'' (digits_of (unat (cm_queue_capacity m))) @ '','' @ newline @
     json_member ''payload_size'' (digits_of (unat (cm_payload_size m))) @ '','' @ newline @
     json_member ''producer_pid'' (int_digits (sint (cm_producer_pid m))) @ '','' @ newline @
     json_member ''creation_timestamp'' (int_digits (sint (cm_creation_time m))) @ '','' @ newline @
     json_member ''last_modify_timestamp'' (int_digits (sint (cm_modify_time m))) @ newline @
     ''}'' @ newline"

type_synonym file_system = "string \<Rightarrow> string option"

text \<open>
  What the system calls of a call to \<open>Create\<close> do: the path \<open>mkstemp\<close> makes out of its template,
  or None when it fails; how many bytes \<open>write\<close> wrote, or a negative number; whether \<open>rename\<close>
  succeeded.
\<close>

record posix_calls =
  mkstemp_path :: "string \<Rightarrow> string option"
  write_count :: "nat \<Rightarrow> int"
  rename_ok :: bool

definition Coord_Create ::
  "posix_calls \<Rightarrow> string \<Rightarrow> CoordinationMetadata \<Rightarrow> file_system \<Rightarrow> CoordinationResult \<times> file_system" where
  "Coord_Create os file_path metadata fs =
     (let json = Coord_json metadata
      in case mkstemp_path os (file_path @ ''.tmp.XXXXXX'') of
           None \<Rightarrow> (kIoError, fs)
         | Some temp_path \<Rightarrow>
             let written = write_count os (length json);
                 fs1 = fs(temp_path \<mapsto> take (nat written) json)
             in if written \<noteq> int (length json) then (kIoError, fs1(temp_path := None))
                else if \<not> rename_ok os then (kIoError, fs1(temp_path := None))
                else (kSuccess, fs1(temp_path := None, file_path \<mapsto> json)))"

section \<open>Reading the file\<close>

text \<open>
  \<open>Read\<close> fills the metadata field by field and returns, or is left by an exception of a number
  parser or of \<open>substr\<close>, with the fields set so far.
\<close>

datatype read_end = Returned CoordinationResult | Threw cpp_exception

type_synonym read_step = "string \<Rightarrow> CoordinationMetadata \<Rightarrow> read_end + CoordinationMetadata"

definition read_shm_name :: read_step where
  "read_shm_name content m =
     (let pos = cpp_find content (quoted ''shm_name'') 0
      in if pos = npos then Inl (Returned kInvalidFormat)
         else let colon = cpp_find content '':'' pos;
                  quote1 = cpp_find content [CHR ''\"''] colon;
                  quote2 = cpp_find content [CHR ''\"''] (quote1 + 1)
              in if quote1 = npos \<or> quote2 = npos then Inl (Returned kParseError)
                 else case cpp_substr content (quote1 + 1) (quote2 - quote1 - 1) of
                        Inl e \<Rightarrow> Inl (Threw e)
                      | Inr name \<Rightarrow> Inr (m\<lparr>cm_shm_name := name\<rparr>))"

text \<open>The block \<open>Read\<close> repeats for each number, with the member's key, the character that ends
  its value, the parser and the assignment.\<close>

definition read_number ::
  "string \<Rightarrow> char \<Rightarrow> (string \<Rightarrow> cpp_exception + u64) \<Rightarrow>
   (u64 \<Rightarrow> CoordinationMetadata \<Rightarrow> CoordinationMetadata) \<Rightarrow> read_step" where
  "read_number key end_char parse assign content m =
     (let pos = cpp_find content (quoted key) 0
      in if pos = npos then Inl (Returned kInvalidFormat)
         else let colon = cpp_find content '':'' pos;
                  comma = cpp_find content [end_char] colon
              in case cpp_substr content (colon + 1) (comma - colon - 1) of
                   Inl e \<Rightarrow> Inl (Threw e)
                 | Inr txt \<Rightarrow> (case parse txt of Inl e \<Rightarrow> Inl (Threw e) | Inr v \<Rightarrow> Inr (assign v m)))"

definition Coord_read_steps :: "read_step list" where
  "Coord_read_steps =
     [read_shm_name,
      read_number ''shm_size'' (CHR '','') stoull (\<lambda>v m. m\<lparr>cm_shm_size := v\<rparr>),
      read_number ''queue_capacity'' (CHR '','') stoull (\<lambda>v m. m\<lparr>cm_queue_capacity := v\<rparr>),
      read_number ''payload_size'' (CHR '','') stoull (\<lambda>v m. m\<lparr>cm_payload_size := v\<rparr>),
      read_number ''producer_pid'' (CHR '','') stoll (\<lambda>v m. m\<lparr>cm_producer_pid := ucast v\<rparr>),
      read_number ''creation_timestamp'' (CHR '','') stoll (\<lambda>v m. m\<lparr>cm_creation_time := v\<rparr>),
      read_number ''last_modify_timestamp'' (CHR ''}'') stoll (\<lambda>v m. m\<lparr>cm_modify_time := v\<rparr>)]"

fun run_read_steps :: "read_step list \<Rightarrow> string \<Rightarrow> CoordinationMetadata \<Rightarrow> read_end \<times> CoordinationMetadata" where
  "run_read_steps [] content m = (Returned kSuccess, m)"
| "run_read_steps (f # fs) content m =
     (case f content m of Inl r \<Rightarrow> (r, m) | Inr m' \<Rightarrow> run_read_steps fs content m')"

definition Coord_Read ::
  "file_system \<Rightarrow> string \<Rightarrow> CoordinationMetadata \<Rightarrow> read_end \<times> CoordinationMetadata" where
  "Coord_Read fs file_path m =
     (case fs file_path of
        None \<Rightarrow> (Returned kFileNotFound, m)
      | Some content \<Rightarrow>
          if content = [] then (Returned kParseError, m)
          else run_read_steps Coord_read_steps content m)"

section \<open>The other operations\<close>

text \<open>\<open>utimens_ok\<close> tells whether \<open>utimensat\<close> succeeds; modification times are not modelled.\<close>

definition Coord_Touch :: "bool \<Rightarrow> string \<Rightarrow> file_system \<Rightarrow> CoordinationResult" where
  "Coord_Touch utimens_ok file_path fs =
     (if fs file_path = None then kFileNotFound
      else if \<not> utimens_ok then kIoError else kSuccess)"

text \<open>\<open>unlink_ok\<close> tells whether \<open>unlink\<close> of an existing file succeeds.\<close>

definition Coord_Delete :: "bool \<Rightarrow> string \<Rightarrow> file_system \<Rightarrow> CoordinationResult \<times> file_system" where
  "Coord_Delete unlink_ok file_path fs =
     (if fs file_path = None then (kFileNotFound, fs)
      else if \<not> unlink_ok then (kIoError, fs) else (kSuccess, fs(file_path := None)))"

text \<open>\<open>is_reg\<close> is the test \<open>S_ISREG\<close> on what \<open>stat\<close> found; the metadata pointer may be null. The
  result is None when \<open>Read\<close> throws.\<close>

definition Coord_Exists ::
  "(string \<Rightarrow> bool) \<Rightarrow> string \<Rightarrow> CoordinationMetadata option \<Rightarrow> file_system \<Rightarrow>
   bool option \<times> CoordinationMetadata option" where
  "Coord_Exists is_reg file_path metadata fs =
     (if fs file_path = None then (Some False, metadata)
      else if \<not> is_reg file_path then (Some False, metadata)
      else case metadata of
             None \<Rightarrow> (Some True, None)
           | Some m \<Rightarrow>
               (case Coord_Read fs file_path m of
                  (Threw e, m') \<Rightarrow> (None, Some m')
                | (Returned result, m') \<Rightarrow> (Some (result = kSuccess), Some m')))"

definition Coord_IsProducerAlive :: "(pid \<Rightarrow> bool) \<Rightarrow> CoordinationMetadata \<Rightarrow> bool" where
  "Coord_IsProducerAlive kill0 m \<longleftrightarrow>
     (if sint (cm_producer_pid m) \<le> 0 then False else kill0 (cm_producer_pid m))"

primrec Coord_ResultToString :: "CoordinationResult \<Rightarrow> string" where
  "Coord_ResultToString kSuccess = ''Success''"
| "Coord_ResultToString kFileNotFound = ''File not found''"
| "Coord_ResultToString kParseError = ''Failed to parse file''"
| "Coord_ResultToString kInvalidFormat = ''Invalid file format''"
| "Coord_ResultToString kVersionMismatch = ''Version mismatch''"
| "Coord_ResultToString kProducerGone = ''Producer process no longer exists''"
| "Coord_ResultToString kIoError = ''I/O error''"

definition Coord_GenerateShmName :: "pid \<Rightarrow> u64 \<Rightarrow> string \<Rightarrow> string" where
  "Coord_GenerateShmName getpid now base_name =
     ''/'' @ base_name @ ''_'' @ int_digits (sint getpid) @ ''_'' @ int_digits (sint now)"

definition Coord_GetDefaultCoordFile :: "string option \<Rightarrow> string \<Rightarrow> string" where
  "Coord_GetDefaultCoordFile home_env base_name =
     (let home = case home_env of None \<Rightarrow> ''/tmp'' | Some h \<Rightarrow> h
      in home @ ''/.'' @ base_name @ ''_coord'')"

section \<open>The text of the file\<close>

text \<open>The file cut at its quotation marks.\<close>

definition json_pieces :: "CoordinationMetadata \<Rightarrow> string list" where
  "json_pieces m =
     [''{'' @ newline @ ''  '', ''version'', '': '', cm_shm_name m, '','' @ newline @ ''  '',
      ''shm_name'', '': '', cm_shm_name m, '','' @ newline @ ''  '',
      ''shm_size'', '': '' @ digits_of (unat (cm_shm_size m)) @ '','' @ newline @ ''  '',
      ''queue_capacity'', '': '' @ digits_of (unat (cm_queue_capacity m)) @ '','' @ newline @ ''  '',
      ''payload_size'', '': '' @ digits_of (unat (cm_payload_size m)) @ '','' @ newline @ ''  '',
      ''producer_pid'', '': '' @ int_digits (sint (cm_producer_pid m)) @ '','' @ newline @ ''  '',
      ''creation_timestamp'', '': '' @ int_digits (sint (cm_creation_time m)) @ '','' @ newline @ ''  '',
      ''last_modify_timestamp'', '': '' @ int_digits (sint (cm_modify_time m)) @ newline @ ''}'' @ newline]"

lemma Coord_json_pieces: "Coord_json m = qjoin (json_pieces m)"
  by (simp only: Coord_json_def json_pieces_def json_member_def quoted_def qjoin.simps append_assoc
      append_Cons append_Nil)

text \<open>Everything but the two copies of the name has a bounded length.\<close>

lemma sint_scast_pid: "sint (scast (p :: pid) :: u64) = sint p"
  by (simp add: sint_up_scast is_up)

lemma length_Coord_json: "length (Coord_json m) \<le> 2 * length (cm_shm_name m) + 400"
  using length_digits_u64 [of "cm_shm_size m"] length_digits_u64 [of "cm_queue_capacity m"]
    length_digits_u64 [of "cm_payload_size m"] length_int_digits_u64 [of "scast (cm_producer_pid m)"]
    length_int_digits_u64 [of "cm_creation_time m"] length_int_digits_u64 [of "cm_modify_time m"]
  by (simp add: Coord_json_def json_member_def quoted_def newline_def sint_scast_pid)

lemma Coord_json_fits: "length (cm_shm_name m) < 2 ^ 62 \<Longrightarrow> length (Coord_json m) < 2 ^ 64 - 1"
  using length_Coord_json [of m] by simp

section \<open>What the parser finds\<close>

lemma of_nat_not_npos: "n < 2 ^ 64 - 1 \<Longrightarrow> (of_nat n :: u64) \<noteq> npos"
proof
  assume "n < 2 ^ 64 - 1" and "(of_nat n :: u64) = npos"
  then have "unat (of_nat n :: u64) = unat npos" by simp
  moreover have "unat npos = 2 ^ 64 - 1" 
    by (simp add: npos_def unsigned_minus_1_eq_mask mask_eq_exp_minus_1)
  ultimately show False using \<open>n < 2 ^ 64 - 1\<close> unat_of_nat_u64 [of n] by simp
qed

text \<open>
  The parser read as a function of the text: what follows a character, the content from a
  member's key on, and the values. \<open>text_read\<close> is the reference reader; \<open>Coord_Read_outcomes\<close> shows that
  the searches by position of \<open>Read\<close> compute it.
\<close>

definition after_char :: "char \<Rightarrow> string \<Rightarrow> string option" where
  "after_char c s = (case dropWhile (\<lambda>x. x \<noteq> c) s of [] \<Rightarrow> None | _ # t \<Rightarrow> Some t)"

definition text_from_key :: "string \<Rightarrow> string \<Rightarrow> string option" where
  "text_from_key key content = map_option (\<lambda>k. drop k content) (find_sub (quoted key) content)"

definition text_name :: "string \<Rightarrow> CoordinationResult + string" where
  "text_name content =
     (case text_from_key ''shm_name'' content of
        None \<Rightarrow> Inl kInvalidFormat
      | Some s \<Rightarrow>
          (case Option.bind (after_char (CHR '':'') s) (after_char (CHR ''\"'')) of
             None \<Rightarrow> Inl kParseError
           | Some t \<Rightarrow> if CHR ''\"'' \<in> set t then Inr (takeWhile (\<lambda>x. x \<noteq> CHR ''\"'') t) else Inl kParseError))"

definition text_number ::
  "string \<Rightarrow> char \<Rightarrow> (string \<Rightarrow> cpp_exception + u64) \<Rightarrow> string \<Rightarrow> read_end + u64" where
  "text_number key end_char parse content =
     (case text_from_key key content of
        None \<Rightarrow> Inl (Returned kInvalidFormat)
      | Some s \<Rightarrow>
          (case parse (case after_char (CHR '':'') s of
                         None \<Rightarrow> content | Some t \<Rightarrow> takeWhile (\<lambda>x. x \<noteq> end_char) t) of
             Inl e \<Rightarrow> Inl (Threw e) | Inr v \<Rightarrow> Inr v))"

definition text_read :: "string \<Rightarrow> CoordinationMetadata \<Rightarrow> read_end \<times> CoordinationMetadata" where
  "text_read content m =
     (case text_name content of Inl r \<Rightarrow> (Returned r, m) | Inr v \<Rightarrow> let m = m\<lparr>cm_shm_name := v\<rparr> in
      case text_number ''shm_size'' (CHR '','') stoull content of
        Inl r \<Rightarrow> (r, m) | Inr v \<Rightarrow> let m = m\<lparr>cm_shm_size := v\<rparr> in
      case text_number ''queue_capacity'' (CHR '','') stoull content of
        Inl r \<Rightarrow> (r, m) | Inr v \<Rightarrow> let m = m\<lparr>cm_queue_capacity := v\<rparr> in
      case text_number ''payload_size'' (CHR '','') stoull content of
        Inl r \<Rightarrow> (r, m) | Inr v \<Rightarrow> let m = m\<lparr>cm_payload_size := v\<rparr> in
      case text_number ''producer_pid'' (CHR '','') stoll content of
        Inl r \<Rightarrow> (r, m) | Inr v \<Rightarrow> let m = m\<lparr>cm_producer_pid := ucast v\<rparr> in
      case text_number ''creation_timestamp'' (CHR '','') stoll content of
        Inl r \<Rightarrow> (r, m) | Inr v \<Rightarrow> let m = m\<lparr>cm_creation_time := v\<rparr> in
      case text_number ''last_modify_timestamp'' (CHR ''}'') stoll content of
        Inl r \<Rightarrow> (r, m) | Inr v \<Rightarrow> (Returned kSuccess, m\<lparr>cm_modify_time := v\<rparr>))"

lemma after_char_Nil [simp]: "after_char c [] = None"
  by (simp add: after_char_def)

lemma after_char_Cons [simp]: "after_char c (x # s) = (if x = c then Some s else after_char c s)"
  by (simp add: after_char_def)

lemma after_char_None: "after_char c s = None \<longleftrightarrow> c \<notin> set s"
  by (induction s) auto

lemma after_char_Some: "after_char c s = Some t \<Longrightarrow> \<exists>xs. c \<notin> set xs \<and> s = xs @ c # t"
proof (induction s)
  case (Cons x s)
  show ?case
  proof (cases "x = c")
    case True
    then show ?thesis using Cons.prems by (intro exI [of _ "[]"]) simp
  next
    case False
    then obtain xs where "c \<notin> set xs" "s = xs @ c # t" using Cons by auto
    then show ?thesis using False by (intro exI [of _ "x # xs"]) simp
  qed
qed simp

lemma after_char_append [simp]: "c \<notin> set xs \<Longrightarrow> after_char c (xs @ c # t) = Some t"
  by (induction xs) auto

lemma takeWhile_until [simp]: "c \<notin> set xs \<Longrightarrow> takeWhile (\<lambda>x. x \<noteq> c) (xs @ c # t) = xs"
  by (induction xs) auto

lemma takeWhile_absent: "c \<notin> set xs \<Longrightarrow> takeWhile (\<lambda>x. x \<noteq> c) xs = xs"
  by (induction xs) auto

lemma find_sub_absent: "c \<notin> set s \<Longrightarrow> find_sub [c] s = None"
  by (induction s) auto

lemma cpp_find_absent: "c \<notin> set (drop (unat p) s) \<Longrightarrow> cpp_find s [c] p = npos"
  by (simp add: cpp_find_def find_sub_absent)

lemma find_sub_bound: "find_sub pat s = Some k \<Longrightarrow> k \<le> length s"
  by (induction s arbitrary: k) (auto split: if_splits)

lemma unat_npos: "unat npos = 2 ^ 64 - 1"
  by (simp add: npos_def unsigned_minus_1_eq_mask mask_eq_exp_minus_1)

lemma cpp_find_npos: "length s < 2 ^ 64 - 1 \<Longrightarrow> cpp_find s [c] npos = npos"
  by (simp add: cpp_find_def unat_npos)

text \<open>The position of a key cuts the content in two.\<close>

lemma key_position:
  assumes "find_sub (quoted key) s = Some k" and "length s < 2 ^ 64 - 1"
  shows "cpp_find s (quoted key) 0 = of_nat k" and "(of_nat k :: u64) \<noteq> npos" and "s = take k s @ drop k s"
    and "length (take k s) = k"
  using assms find_sub_bound [OF assms(1)] of_nat_not_npos [of k] by (simp_all add: cpp_find_def)

text \<open>To the end: the count of a substring without an end character is large enough.\<close>

lemma cpp_substr_rest:
  assumes "length (as @ xs) < 2 ^ 64 - 1"
  shows "cpp_substr (as @ xs) (of_nat (length as)) (npos - of_nat (length as)) = Inr xs"
proof -
  have as: "unat (of_nat (length as) :: u64) = length as" using assms by (intro unat_of_nat_u64) simp
  have "(of_nat (length as) :: u64) \<le> npos" using assms by (simp add: word_le_nat_alt as unat_npos)
  then have "unat (npos - of_nat (length as)) = 2 ^ 64 - 1 - length as" by (simp only: unat_sub as unat_npos)
  then show ?thesis using assms by (simp add: cpp_substr_def as)
qed

lemma substr_until:
  assumes s: "s = bs @ d # u" and "e \<noteq> d" and len: "length s < 2 ^ 64 - 1"
  shows "cpp_substr s (of_nat (length bs) + 1) (cpp_find s [e] (of_nat (length bs)) - of_nat (length bs) - 1) =
    Inr (takeWhile (\<lambda>x. x \<noteq> e) u)"
proof (cases "e \<in> set u")
  case True
  then obtain xs ys where u: "u = xs @ e # ys" "e \<notin> set xs" by (meson split_list_first)
  have s2: "s = bs @ (d # xs) @ e # ys" and s3: "s = (bs @ [d]) @ xs @ e # ys" using s u by simp_all
  have find: "cpp_find s [e] (of_nat (length bs)) = of_nat (length bs + length (d # xs))"
    unfolding s2 by (rule cpp_find_char) (use assms u in auto)
  have "cpp_substr s (of_nat (length (bs @ [d]))) (of_nat (length xs)) = Inr xs"
    unfolding s3 by (rule cpp_substr_mid) (use len s3 in simp)
  then show ?thesis using find u by (simp add: add_ac)
next
  case False
  have bs: "unat (of_nat (length bs) :: u64) = length bs" using s len by (intro unat_of_nat_u64) simp
  have "cpp_find s [e] (of_nat (length bs)) = npos" by (rule cpp_find_absent) (use False assms bs in auto)
  moreover have "cpp_substr s (of_nat (length (bs @ [d]))) (npos - of_nat (length (bs @ [d]))) = Inr u"
    using cpp_substr_rest [of "bs @ [d]" u] s len by simp
  ultimately show ?thesis using False by (simp add: takeWhile_absent algebra_simps)
qed

lemma read_number_eq:
  assumes len: "length s < 2 ^ 64 - 1" and e: "e \<noteq> CHR '':''"
  shows "read_number key e parse assign s m =
    (case text_number key e parse s of Inl r \<Rightarrow> Inl r | Inr v \<Rightarrow> Inr (assign v m))"
proof (cases "find_sub (quoted key) s")
  case None
  then show ?thesis by (simp add: read_number_def text_number_def text_from_key_def cpp_find_def)
next
  case (Some k)
  let ?as = "take k s"
  note pos = key_position [OF Some len]
  show ?thesis
  proof (cases "after_char (CHR '':'') (drop k s)")
    case None
    then have "CHR '':'' \<notin> set (drop (unat (of_nat k :: u64)) s)"
      using pos(4) len unat_of_nat_u64 [of k] find_sub_bound [OF Some] by (simp add: after_char_None)
    note colon = cpp_find_absent [OF this]
    have sub: "cpp_substr s (npos + 1) (npos - npos - 1) = Inr s"
      using cpp_substr_rest [of "[]" s] len by (simp add: npos_def)
    show ?thesis
      using Some None pos(1,2) colon sub len
      by (simp add: read_number_def text_number_def text_from_key_def cpp_find_npos Let_def split: sum.splits)
  next
    case (Some u)
    obtain xs where xs: "CHR '':'' \<notin> set xs" "drop k s = xs @ CHR '':'' # u" using after_char_Some [OF Some] by blast
    have s: "s = ?as @ xs @ CHR '':'' # u" using pos(3) xs(2) by simp
    let ?c = "of_nat (length (?as @ xs)) :: u64"
    have "cpp_find (?as @ xs @ CHR '':'' # u) '':'' (of_nat (length ?as)) = of_nat (length ?as + length xs)"
      by (rule cpp_find_char) (use xs len s in auto)
    then have colon: "cpp_find s '':'' (of_nat k) = ?c" using s pos(4) by simp
    have "cpp_substr s (?c + 1) (cpp_find s [e] ?c - ?c - 1) = Inr (takeWhile (\<lambda>x. x \<noteq> e) u)"
      using s len e by (intro substr_until [of s "?as @ xs" "CHR '':''" u]) simp_all
    then show ?thesis
      using \<open>find_sub (quoted key) s = Some k\<close> Some pos(1,2) colon
      by (simp add: read_number_def text_number_def text_from_key_def Let_def split: sum.splits)
  qed
qed

text \<open>The name between the first two quotation marks of what follows the colon.\<close>

lemma quotes_found:
  assumes s: "s = bs @ u" and len: "length s < 2 ^ 64 - 1"
  defines "quote1 \<equiv> cpp_find s [CHR ''\"''] (of_nat (length bs))"
  defines "quote2 \<equiv> cpp_find s [CHR ''\"''] (quote1 + 1)"
  shows "case after_char (CHR ''\"'') u of
      None \<Rightarrow> quote1 = npos
    | Some t \<Rightarrow> quote1 \<noteq> npos \<and>
        (if CHR ''\"'' \<in> set t
         then quote2 \<noteq> npos \<and>
           cpp_substr s (quote1 + 1) (quote2 - quote1 - 1) = Inr (takeWhile (\<lambda>x. x \<noteq> CHR ''\"'') t)
         else quote2 = npos)"
proof (cases "after_char (CHR ''\"'') u")
  case None
  have "unat (of_nat (length bs) :: u64) = length bs" using s len by (intro unat_of_nat_u64) simp
  then have "quote1 = npos" unfolding quote1_def using None s by (intro cpp_find_absent) (simp add: after_char_None)
  then show ?thesis using None by simp
next
  case (Some t)
  obtain zs where zs: "CHR ''\"'' \<notin> set zs" "u = zs @ CHR ''\"'' # t" using after_char_Some [OF Some] by blast
  let ?cs = "bs @ zs @ [CHR ''\"'']"
  have s1: "s = bs @ zs @ CHR ''\"'' # t" and s2: "s = ?cs @ t" using s zs by simp_all
  have q1: "quote1 = of_nat (length bs + length zs)"
    unfolding quote1_def s1 by (rule cpp_find_char) (use zs s1 len in auto)
  have next_pos: "quote1 + 1 = of_nat (length ?cs)" unfolding q1 by simp
  have q1_ok: "quote1 \<noteq> npos" unfolding q1 by (rule of_nat_not_npos) (use s1 len in simp)
  show ?thesis
  proof (cases "CHR ''\"'' \<in> set t")
    case True
    then obtain xs ys where t: "t = xs @ CHR ''\"'' # ys" "CHR ''\"'' \<notin> set xs" by (meson split_list_first)
    have s3: "s = ?cs @ xs @ CHR ''\"'' # ys" using s2 t by simp
    have q2: "quote2 = of_nat (length ?cs + length xs)"
      unfolding quote2_def next_pos unfolding s3 by (rule cpp_find_char) (use t s3 len in auto)
    have "quote2 \<noteq> npos" unfolding q2 by (rule of_nat_not_npos) (use s3 len in simp)
    moreover have "cpp_substr s (of_nat (length ?cs)) (of_nat (length xs)) = Inr xs"
      unfolding s3 by (rule cpp_substr_mid) (use s3 len in simp)
    moreover have "quote2 - quote1 - 1 = of_nat (length xs)" unfolding q1 q2 by simp
    ultimately show ?thesis using Some True t q1_ok by (simp add: next_pos)
  next
    case False
    have "unat (of_nat (length ?cs) :: u64) = length ?cs" using s2 len by (intro unat_of_nat_u64) simp
    then have "quote2 = npos"
      unfolding quote2_def next_pos using False s2 by (intro cpp_find_absent) simp
    then show ?thesis using Some False q1_ok by simp
  qed
qed

lemma read_shm_name_eq:
  assumes len: "length s < 2 ^ 64 - 1"
  shows "read_shm_name s m =
    (case text_name s of Inl r \<Rightarrow> Inl (Returned r) | Inr v \<Rightarrow> Inr (m\<lparr>cm_shm_name := v\<rparr>))"
proof (cases "find_sub (quoted ''shm_name'') s")
  case None
  then show ?thesis by (simp add: read_shm_name_def text_name_def text_from_key_def cpp_find_def)
next
  case (Some k)
  note pos = key_position [OF Some len]
  note unfolded_read = read_shm_name_def text_name_def text_from_key_def Let_def
  show ?thesis
  proof (cases "after_char (CHR '':'') (drop k s)")
    case None
    then have "CHR '':'' \<notin> set (drop (unat (of_nat k :: u64)) s)"
      using pos(4) len unat_of_nat_u64 [of k] find_sub_bound [OF Some] by (simp add: after_char_None)
    note colon = cpp_find_absent [OF this]
    show ?thesis using Some None pos(1,2) colon cpp_find_npos [OF len] by (simp add: unfolded_read)
  next
    case (Some u)
    obtain xs where xs: "CHR '':'' \<notin> set xs" "drop k s = xs @ CHR '':'' # u" using after_char_Some [OF Some] by blast
    let ?bs = "take k s @ xs"
    have s: "s = ?bs @ CHR '':'' # u" using pos(3) xs(2) by simp
    have "cpp_find (take k s @ xs @ CHR '':'' # u) '':'' (of_nat (length (take k s))) =
        of_nat (length (take k s) + length xs)"
      by (rule cpp_find_char) (use xs len s in auto)
    then have colon: "cpp_find s '':'' (of_nat k) = of_nat (length ?bs)" using s pos(4) by simp
    show ?thesis
      using quotes_found [OF s len] \<open>find_sub (quoted ''shm_name'') s = Some k\<close> Some pos(1,2) colon
      by (auto simp: unfolded_read split: option.splits if_splits)
  qed
qed

lemma run_steps_text:
  assumes "length s < 2 ^ 64 - 1"
  shows "run_read_steps Coord_read_steps s m = text_read s m"
  by (simp add: Coord_read_steps_def text_read_def read_shm_name_eq [OF assms] read_number_eq [OF assms] Let_def
      split: sum.split)

text \<open>A text put together from pieces holds a key where one of the pieces is the key.\<close>

lemma text_from_key_join:
  assumes "us \<noteq> []" and "vs \<noteq> []" and "key \<notin> set (tl us)" and "\<forall>t \<in> set (key # us). CHR ''\"'' \<notin> set t"
  shows "text_from_key key (qjoin (us @ key # vs)) = Some (quoted key @ qjoin vs)"
  using find_quoted [OF assms] assms(1,2) by (simp add: text_from_key_def qjoin_split)

lemma read_number_text:
  assumes key: "us \<noteq> []" "vs \<noteq> []" "key \<notin> set (tl us)" "\<forall>t \<in> set (key # us). CHR ''\"'' \<notin> set t"
    and val: "qjoin vs = xs @ CHR '':'' # txt @ e # ys" "CHR '':'' \<notin> set key" "CHR '':'' \<notin> set xs"
      "e \<notin> set (CHR '':'' # txt)"
    and len: "length (qjoin (us @ key # vs)) < 2 ^ 64 - 1"
  shows "read_number key e parse assign (qjoin (us @ key # vs)) m =
    (case parse txt of Inl ex \<Rightarrow> Inl (Threw ex) | Inr v \<Rightarrow> Inr (assign v m))"
proof -
  have "CHR '':'' \<notin> set (quoted key @ xs)" using val by (simp add: quoted_def)
  then have "after_char (CHR '':'') ((quoted key @ xs) @ CHR '':'' # txt @ e # ys) = Some (txt @ e # ys)"
    by (rule after_char_append)
  moreover have "e \<noteq> CHR '':''" "e \<notin> set txt" using val(4) by auto
  ultimately show ?thesis
    using read_number_eq [OF len] by (simp add: text_number_def text_from_key_join [OF key] val(1) split: sum.split)
qed

lemma read_shm_name_text:
  assumes key: "us \<noteq> []" "vs \<noteq> []" "''shm_name'' \<notin> set (tl us)" "\<forall>t \<in> set us. CHR ''\"'' \<notin> set t"
    and val: "qjoin vs = xs @ CHR '':'' # zs @ CHR ''\"'' # txt @ CHR ''\"'' # ys" "CHR '':'' \<notin> set xs"
      "CHR ''\"'' \<notin> set zs" "CHR ''\"'' \<notin> set txt"
    and len: "length (qjoin (us @ ''shm_name'' # vs)) < 2 ^ 64 - 1"
  shows "read_shm_name (qjoin (us @ ''shm_name'' # vs)) m = Inr (m\<lparr>cm_shm_name := txt\<rparr>)"
proof -
  have key4: "\<forall>t \<in> set (''shm_name'' # us). CHR ''\"'' \<notin> set t" using key(4) by simp
  have "CHR '':'' \<notin> set (quoted ''shm_name'' @ xs)" using val by (simp add: quoted_def)
  then have "after_char (CHR '':'') ((quoted ''shm_name'' @ xs) @ CHR '':'' # zs @ CHR ''\"'' # txt @ CHR ''\"'' # ys) =
      Some (zs @ CHR ''\"'' # txt @ CHR ''\"'' # ys)"
    by (rule after_char_append)
  then show ?thesis
    using val(3,4) by (simp add: read_shm_name_eq [OF len] text_name_def text_from_key_join [OF key(1-3) key4] val(1))
qed

section \<open>Reading back what was created\<close>

definition field_keys :: "string list" where
  "field_keys = [''shm_size'', ''queue_capacity'', ''payload_size'', ''producer_pid'',
     ''creation_timestamp'', ''last_modify_timestamp'']"

lemma digits_free:
  assumes "c \<in> {CHR ''\"'', CHR '','', CHR ''}''}"
  shows "c \<notin> set (digits_of n)" and "c \<notin> set (int_digits i)"
proof -
  have "\<not> is_digit c" and "c \<noteq> CHR ''-''" using assms is_digit_facts [of c] by auto
  then show "c \<notin> set (digits_of n)" and "c \<notin> set (int_digits i)"
    using digits_of_is_digit [of c n] int_digits_char [of c i] by auto
qed

lemma json_quote_free:
  "CHR ''\"'' \<notin> set (cm_shm_name m) \<Longrightarrow> \<forall>t \<in> set (json_pieces m). CHR ''\"'' \<notin> set t"
  by (simp add: json_pieces_def newline_def digits_free)

lemma read_json_number:
  assumes "0 < k" and "Suc k < length (json_pieces m)" and "json_pieces m ! k = key"
    and value_piece: "json_pieces m ! Suc k = '': '' @ num @ e # sep"
    and "key \<notin> set (tl (take k (json_pieces m)))" and "CHR ''\"'' \<notin> set (cm_shm_name m)"
    and "CHR '':'' \<notin> set key" and "e \<notin> set num" and "e \<noteq> CHR '':''" and "e \<noteq> CHR '' ''"
    and "length (Coord_json m) < 2 ^ 64 - 1"
  shows "read_number key e parse assign (Coord_json m) m0 =
    (case parse (CHR '' '' # num) of Inl ex \<Rightarrow> Inl (Threw ex) | Inr v \<Rightarrow> Inr (assign v m0))"
proof -
  let ?us = "take k (json_pieces m)" and ?vs = "('': '' @ num @ e # sep) # drop (Suc (Suc k)) (json_pieces m)"
  have pieces: "json_pieces m = ?us @ key # ?vs"
    using id_take_nth_drop [of k "json_pieces m"] Cons_nth_drop_Suc [of "Suc k" "json_pieces m"] assms
    by simp
  obtain ys where ys: "qjoin ?vs = [] @ CHR '':'' # (CHR '' '' # num) @ e # ys"
    by (cases "drop (Suc (Suc k)) (json_pieces m)") auto
  have s: "Coord_json m = qjoin (?us @ key # ?vs)" unfolding Coord_json_pieces by (rule arg_cong [OF pieces])
  have "\<forall>t \<in> set (?us @ key # ?vs). CHR ''\"'' \<notin> set t"
    using json_quote_free [OF assms(6)] pieces by simp
  then have quotes: "\<forall>t \<in> set (key # ?us). CHR ''\"'' \<notin> set t" by simp
  have us: "?us \<noteq> []" using assms by auto
  show ?thesis
    unfolding s
    by (rule read_number_text [OF us _ assms(5) quotes ys assms(7)]) (use assms s in simp_all)
qed

lemma parse_fields:
  "stoull (CHR '' '' # digits_of (unat w)) = Inr w"
  "stoll (CHR '' '' # int_digits (sint (v :: u64))) = Inr v"
  "stoll (CHR '' '' # int_digits (sint (v :: u64)) @ [CHR 0x0A]) = Inr v"
  using stoull_digits [of "CHR '' ''" "[]" w] stoll_digits [of "CHR '' ''" "[]" v]
    stoll_digits [of "CHR '' ''" "[CHR 0x0A]" v]
  by (simp_all add: is_space_def is_digit_def)

lemma parse_pid: "stoll (CHR '' '' # int_digits (sint (p :: pid))) = Inr (scast p)"
  using parse_fields(2) [of "scast p"] by (simp add: sint_up_scast is_up)

lemma read_json_fields:
  assumes name: "CHR ''\"'' \<notin> set (cm_shm_name m)"
    and len: "length (Coord_json m) < 2 ^ 64 - 1"
  shows "cm_shm_name m \<noteq> ''shm_size'' \<Longrightarrow>
      read_number ''shm_size'' (CHR '','') stoull f (Coord_json m) m0 = Inr (f (cm_shm_size m) m0)"
    and "cm_shm_name m \<noteq> ''queue_capacity'' \<Longrightarrow>
      read_number ''queue_capacity'' (CHR '','') stoull f (Coord_json m) m0 = Inr (f (cm_queue_capacity m) m0)"
    and "cm_shm_name m \<noteq> ''payload_size'' \<Longrightarrow>
      read_number ''payload_size'' (CHR '','') stoull f (Coord_json m) m0 = Inr (f (cm_payload_size m) m0)"
    and "cm_shm_name m \<noteq> ''producer_pid'' \<Longrightarrow>
      read_number ''producer_pid'' (CHR '','') stoll f (Coord_json m) m0 =
      Inr (f (scast (cm_producer_pid m)) m0)"
    and "cm_shm_name m \<noteq> ''creation_timestamp'' \<Longrightarrow>
      read_number ''creation_timestamp'' (CHR '','') stoll f (Coord_json m) m0 =
      Inr (f (cm_creation_time m) m0)"
    and "cm_shm_name m \<noteq> ''last_modify_timestamp'' \<Longrightarrow>
      read_number ''last_modify_timestamp'' (CHR ''}'') stoll f (Coord_json m) m0 =
      Inr (f (cm_modify_time m) m0)"
proof -
  note num = read_json_number [OF _ _ _ _ _ name _ _ _ _ len]
  note simps = json_pieces_def newline_def field_keys_def digits_free parse_fields parse_pid
  show "cm_shm_name m \<noteq> ''shm_size'' \<Longrightarrow>
      read_number ''shm_size'' (CHR '','') stoull f (Coord_json m) m0 = Inr (f (cm_shm_size m) m0)"
    using num [of 9 "''shm_size''" "digits_of (unat (cm_shm_size m))" "CHR '',''" "newline @ ''  ''"
      stoull f m0] by (auto simp: simps)
  show "cm_shm_name m \<noteq> ''queue_capacity'' \<Longrightarrow>
      read_number ''queue_capacity'' (CHR '','') stoull f (Coord_json m) m0 = Inr (f (cm_queue_capacity m) m0)"
    using num [of 11 "''queue_capacity''" "digits_of (unat (cm_queue_capacity m))" "CHR '',''" "newline @ ''  ''"
      stoull f m0] by (auto simp: simps)
  show "cm_shm_name m \<noteq> ''payload_size'' \<Longrightarrow>
      read_number ''payload_size'' (CHR '','') stoull f (Coord_json m) m0 = Inr (f (cm_payload_size m) m0)"
    using num [of 13 "''payload_size''" "digits_of (unat (cm_payload_size m))" "CHR '',''" "newline @ ''  ''"
      stoull f m0] by (auto simp: simps)
  show "cm_shm_name m \<noteq> ''producer_pid'' \<Longrightarrow>
      read_number ''producer_pid'' (CHR '','') stoll f (Coord_json m) m0 =
      Inr (f (scast (cm_producer_pid m)) m0)"
    using num [of 15 "''producer_pid''" "int_digits (sint (cm_producer_pid m))" "CHR '',''" "newline @ ''  ''"
      stoll f m0] by (auto simp: simps)
  show "cm_shm_name m \<noteq> ''creation_timestamp'' \<Longrightarrow>
      read_number ''creation_timestamp'' (CHR '','') stoll f (Coord_json m) m0 =
      Inr (f (cm_creation_time m) m0)"
    using num [of 17 "''creation_timestamp''" "int_digits (sint (cm_creation_time m))" "CHR '',''" "newline @ ''  ''"
      stoll f m0] by (auto simp: simps)
  show "cm_shm_name m \<noteq> ''last_modify_timestamp'' \<Longrightarrow>
      read_number ''last_modify_timestamp'' (CHR ''}'') stoll f (Coord_json m) m0 =
      Inr (f (cm_modify_time m) m0)"
    using num [of 19 "''last_modify_timestamp''" "int_digits (sint (cm_modify_time m)) @ newline" "CHR ''}''" newline
      stoll f m0] by (auto simp: simps)
qed

lemma read_json_name:
  assumes name: "CHR ''\"'' \<notin> set (cm_shm_name m)" and len: "length (Coord_json m) < 2 ^ 64 - 1"
  shows "read_shm_name (Coord_json m) m0 = Inr (m0\<lparr>cm_shm_name := cm_shm_name m\<rparr>)"
proof -
  let ?k = "if cm_shm_name m = ''shm_name'' then 3 else 5"
  let ?us = "take ?k (json_pieces m)" and ?vs = "drop (Suc ?k) (json_pieces m)"
  have s: "Coord_json m = qjoin (?us @ ''shm_name'' # ?vs)"
    by (simp add: Coord_json_pieces json_pieces_def)
  have quotes: "\<forall>t\<in>set ?us. CHR ''\"'' \<notin> set t"
    using json_quote_free [OF name] by (meson in_set_takeD)
  let ?xs = "if cm_shm_name m = ''shm_name'' then '','' @ newline @ ''  '' @ quoted ''shm_name'' else []"
  obtain ys where ys: "qjoin ?vs = ?xs @ CHR '':'' # '' '' @ CHR ''\"'' # cm_shm_name m @ CHR ''\"'' # ys"
    by (auto simp: json_pieces_def quoted_def)
  show ?thesis
    unfolding s
    by (rule read_shm_name_text [OF _ _ _ quotes ys])
      (use name len s in \<open>auto simp: json_pieces_def newline_def quoted_def\<close>)
qed

lemma ucast_scast_pid: "ucast (scast (p :: pid) :: u64) = p"
  by (rule bit_word_eqI) (simp add: bit_simps)

lemma read_created:
  assumes name: "CHR ''\"'' \<notin> set (cm_shm_name m)" "cm_shm_name m \<notin> set field_keys"
    and len: "length (Coord_json m) < 2 ^ 64 - 1"
  shows "run_read_steps Coord_read_steps (Coord_json m) m0 = (Returned kSuccess, m)"
  using name(2) by (simp add: Coord_read_steps_def read_json_fields [OF name(1) len]
      read_json_name [OF name(1) len] ucast_scast_pid field_keys_def)

text \<open>A segment named like a later member of the file: the search for that member's key finds the
  version, and the number parser is given the segment's name.\<close>

lemma read_json_clash:
  assumes "cm_shm_name m \<in> set field_keys" and len: "length (Coord_json m) < 2 ^ 64 - 1"
    and parse: "parse \<in> {stoull, stoll}"
  shows "read_number (cm_shm_name m) (CHR '','') parse assign (Coord_json m) m0 =
    Inl (Threw Invalid_argument)"
proof -
  let ?n = "cm_shm_name m"
  have name: "CHR ''\"'' \<notin> set ?n" "CHR '':'' \<notin> set ?n" "CHR '','' \<notin> set ?n" "''version'' \<noteq> ?n" "'': '' \<noteq> ?n"
    using assms(1) by (auto simp: field_keys_def)
  let ?us = "take 3 (json_pieces m)" and ?vs = "drop 4 (json_pieces m)"
  have s: "Coord_json m = qjoin (?us @ ?n # ?vs)"
    by (simp add: Coord_json_pieces json_pieces_def)
  have quotes: "\<forall>t\<in>set (?n # ?us). CHR ''\"'' \<notin> set t"
    using json_quote_free [OF name(1)] name(1) in_set_takeD by fastforce
  obtain ys where ys: "qjoin ?vs = ('','' @ newline @ ''  '' @ quoted ''shm_name'') @ CHR '':'' #
      ('' '' @ quoted ?n) @ CHR '','' # ys"
    by (auto simp: json_pieces_def quoted_def)
  have "parse ('' '' @ quoted ?n) = Inl Invalid_argument"
    using parse by (auto simp: stoull_def stoll_def scan_number_def quoted_def is_space_def is_digit_def)
  then show ?thesis
    unfolding s
    by (subst read_number_text [OF _ _ _ quotes ys])
      (use name len s in \<open>auto simp: json_pieces_def newline_def quoted_def\<close>)
qed

lemma read_clash_throws:
  assumes "cm_shm_name m \<in> set (butlast field_keys)" and len: "length (Coord_json m) < 2 ^ 64 - 1"
  shows "\<exists>m'. run_read_steps Coord_read_steps (Coord_json m) m0 = (Threw Invalid_argument, m')"
proof -
  have quotes: "CHR ''\"'' \<notin> set (cm_shm_name m)" and n: "cm_shm_name m \<in> set field_keys"
    using assms(1) by (auto simp: field_keys_def)
  note rd = read_json_fields [OF quotes len] read_json_name [OF quotes len]
  note clash = read_json_clash [OF n len, of stoull] read_json_clash [OF n len, of stoll]
  show ?thesis
    using assms(1) rd clash by (auto simp: Coord_read_steps_def field_keys_def)
qed

section \<open>Outcomes of the parser\<close>

definition member_keys :: "string list" where
  "member_keys = ''shm_name'' # field_keys"

lemma text_values_present:
  "text_name content = Inr v \<Longrightarrow> find_sub (quoted ''shm_name'') content \<noteq> None"
  "text_number key e parse content = Inr w \<Longrightarrow> find_sub (quoted key) content \<noteq> None"
  by (auto simp: text_name_def text_number_def text_from_key_def split: option.splits)

lemma text_read_success:
  assumes "fst (text_read content m) = Returned kSuccess"
  shows "list_all (\<lambda>key. find_sub (quoted key) content \<noteq> None) member_keys"
proof -
  have "\<And>r. text_name content = Inl r \<Longrightarrow> r \<noteq> kSuccess"
    "\<And>key e parse. text_number key e parse content \<noteq> Inl (Returned kSuccess)"
    by (auto simp: text_name_def text_number_def split: option.splits sum.splits if_splits)
  then show ?thesis
    using assms unfolding text_read_def Let_def member_keys_def field_keys_def
    by (simp split: sum.splits) (auto dest!: text_values_present)
qed

subsection \<open>Generated names\<close>

lemma int_digits_no_underscore: "CHR ''_'' \<notin> set (int_digits i)"
  using int_digits_char [of "CHR ''_''" i] by (auto simp: is_digit_def)

lemma split_at_char:
  "c \<notin> set xs \<Longrightarrow> c \<notin> set xs' \<Longrightarrow> xs @ c # ys = xs' @ c # ys' \<longleftrightarrow> xs = xs' \<and> ys = ys'"
proof (induction xs arbitrary: xs')
  case Nil
  then show ?case by (cases xs') auto
next
  case (Cons a xs)
  then show ?case by (cases xs') auto
qed

lemma digits_of_inj: "digits_of a = digits_of b \<longleftrightarrow> a = b"
  by (metis digits_value_digits_of)

lemma digits_of_not_minus: "digits_of n \<noteq> CHR ''-'' # s"
  using digits_of_is_digit [of "CHR ''-''" n] by (auto simp: is_digit_def)

lemma int_digits_inj: "int_digits i = int_digits j \<longleftrightarrow> i = j"
  using digits_of_not_minus [of "nat i"] digits_of_not_minus [of "nat j"]
  by (auto simp: int_digits_def digits_of_inj eq_commute [of "CHR ''-'' # _"])

lemma int_digits_underscore:
  "int_digits i @ CHR ''_'' # s = int_digits j @ CHR ''_'' # t \<longleftrightarrow> i = j \<and> s = t"
  by (simp add: split_at_char int_digits_no_underscore int_digits_inj)

section \<open>Effects on the file system\<close>

text \<open>What POSIX says of \<open>mkstemp\<close>: it makes a new file, and its name ends in characters of its
  own choice, so that it is not the final path.\<close>

definition mkstemp_fresh :: "posix_calls \<Rightarrow> string \<Rightarrow> file_system \<Rightarrow> bool" where
  "mkstemp_fresh os file_path fs \<longleftrightarrow>
     (case mkstemp_path os (file_path @ ''.tmp.XXXXXX'') of
        None \<Rightarrow> True | Some t \<Rightarrow> fs t = None \<and> t \<noteq> file_path)"

lemma Create_cases:
  assumes "mkstemp_fresh os file_path fs" and "Coord_Create os file_path m fs = (r, fs')"
  shows "r = kSuccess \<and> fs' = fs(file_path \<mapsto> Coord_json m) \<or> r = kIoError \<and> fs' = fs"
  using assms by (auto simp: Coord_Create_def mkstemp_fresh_def Let_def fun_upd_idem
      split: option.splits if_splits)

lemma Create_success_content:
  "Coord_Create os file_path m fs = (kSuccess, fs') \<Longrightarrow> fs' file_path = Some (Coord_json m)"
  by (auto simp: Coord_Create_def Let_def split: option.splits if_splits)

lemma Coord_json_nonempty: "Coord_json m \<noteq> []"
  by (simp add: Coord_json_def)

lemma Read_created:
  assumes "fs' file_path = Some (Coord_json m)"
    and "CHR ''\"'' \<notin> set (cm_shm_name m)" "cm_shm_name m \<notin> set field_keys"
    and "length (cm_shm_name m) < 2 ^ 62"
  shows "Coord_Read fs' file_path m0 = (Returned kSuccess, m)"
  using assms(1) read_created [OF assms(2,3) Coord_json_fits [OF assms(4)]]
  by (simp add: Coord_Read_def Coord_json_nonempty)

section \<open>Properties\<close>

text \<open>
  C24. What \<open>Create\<close> writes, \<open>Read\<close> reads back, for a segment name that has no quotation mark, is not
  one of the member names after \<open>shm_name\<close> and is shorter than \<open>2 ^ 62\<close>: when creation succeeds, \<open>Read\<close>
  succeeds and every field of the metadata comes back as it was, signed and unsigned numbers at
  their full width. The names \<open>GenerateShmName\<close> makes are such names; for a name that is a later
  member name \<open>Read\<close> throws instead (see below).
\<close>

theorem Coord_roundtrip:
  assumes "Coord_Create os file_path m fs = (kSuccess, fs')"
    and "CHR ''\"'' \<notin> set (cm_shm_name m)" and "cm_shm_name m \<notin> set field_keys"
    and "length (cm_shm_name m) < 2 ^ 62"
  shows "Coord_Read fs' file_path m0 = (Returned kSuccess, m)"
  using assms by (intro Read_created Create_success_content)

definition sample_metadata :: "string \<Rightarrow> CoordinationMetadata" where
  "sample_metadata name =
     \<lparr>cm_shm_name = name, cm_shm_size = GetDefaultShmSize, cm_queue_capacity = 1024,
      cm_payload_size = GetDefaultPayloadSize, cm_producer_pid = 4242, cm_creation_time = 5,
      cm_modify_time = - 1\<rparr>"

definition sample_os :: posix_calls where
  "sample_os = \<lparr>mkstemp_path = (\<lambda>t. Some (t @ ''a'')), write_count = int, rename_ok = True\<rparr>"

lemma sample_create:
  "Coord_Create sample_os ''f'' m Map.empty =
    (kSuccess, Map.empty(''f.tmp.XXXXXXa'' := None, ''f'' \<mapsto> Coord_json m))"
  by (simp add: Coord_Create_def sample_os_def fun_eq_iff)

lemmas sample_json = Coord_json_def sample_metadata_def json_member_def quoted_def newline_def
  GetDefaultShmSize_def GetDefaultPayloadSize_def digits_of.simps int_digits_def

theorem Coord_roundtrip_witness:
  "Coord_Read (snd (Coord_Create sample_os ''f'' (sample_metadata ''/p'') Map.empty)) ''f''
     (sample_metadata []) = (Returned kSuccess, sample_metadata ''/p'')"
  by (rule Coord_roundtrip [where os = sample_os and fs = Map.empty])
    (simp_all add: sample_create field_keys_def sample_json)

text \<open>
  \<open>Create\<close> is atomic: whatever the system calls do, it either succeeds and the file holds
  exactly the new text, or it reports an I/O error and the file system is as it was, with no
  temporary file left and the previous file in place.
\<close>

theorem Coord_Create_atomic:
  assumes "mkstemp_fresh os file_path fs"
  shows "Coord_Create os file_path m fs \<in>
    {(kSuccess, fs(file_path \<mapsto> Coord_json m)), (kIoError, fs)}"
  using Create_cases [OF assms] by (cases "Coord_Create os file_path m fs") auto

theorem Coord_Create_atomic_witness:
  "Coord_Create (sample_os\<lparr>write_count := \<lambda>n. 3\<rparr>) ''f'' (sample_metadata ''/p'') [''f'' \<mapsto> ''old''] =
    (kIoError, [''f'' \<mapsto> ''old''])"
proof -
  have "mkstemp_fresh (sample_os\<lparr>write_count := \<lambda>n. 3\<rparr>) ''f'' [''f'' \<mapsto> ''old'']"
    by (simp add: mkstemp_fresh_def sample_os_def)
  from Coord_Create_atomic [OF this, of "sample_metadata ''/p''"] show ?thesis
    by (auto simp: Coord_Create_def sample_os_def sample_json Let_def)
qed

text \<open>
  Every name \<open>GenerateShmName\<close> makes from a base without quotation marks survives the
  coordination file, and two generated names with the same base are equal only for the same
  process and the same second.
\<close>

theorem Coord_generated_names:
  assumes base: "CHR ''\"'' \<notin> set base"
    and len: "length base < 2 ^ 61"
  shows "Coord_Read (fs(path \<mapsto> Coord_json (m\<lparr>cm_shm_name := Coord_GenerateShmName p t base\<rparr>))) path m0 =
      (Returned kSuccess, m\<lparr>cm_shm_name := Coord_GenerateShmName p t base\<rparr>) \<and>
    (Coord_GenerateShmName p t base = Coord_GenerateShmName p' t' base \<longleftrightarrow> p = p' \<and> t = t')"
proof (rule conjI)
  let ?n = "Coord_GenerateShmName p t base"
  have "CHR ''\"'' \<notin> set ?n" using base by (simp add: Coord_GenerateShmName_def digits_free)
  moreover have "?n \<notin> set field_keys" by (simp add: Coord_GenerateShmName_def field_keys_def)
  moreover have "length ?n < 2 ^ 62"
    using len length_int_digits_u64 [of "scast p"] length_int_digits_u64 [of t]
    by (simp add: Coord_GenerateShmName_def sint_scast_pid)
  ultimately show "Coord_Read (fs(path \<mapsto> Coord_json (m\<lparr>cm_shm_name := ?n\<rparr>))) path m0 =
      (Returned kSuccess, m\<lparr>cm_shm_name := ?n\<rparr>)"
    by (intro Read_created) simp_all
  show "?n = Coord_GenerateShmName p' t' base \<longleftrightarrow> p = p' \<and> t = t'"
    using int_digits_underscore [of "sint p" "int_digits (sint t)" "sint p'" "int_digits (sint t')"]
      int_digits_inj [of "sint t" "sint t'"]
    by (auto simp: Coord_GenerateShmName_def dest: signed_word_eqI)
qed

theorem Coord_generated_names_witness:
  "fst (Coord_Read [''f'' \<mapsto> Coord_json ((sample_metadata [])\<lparr>cm_shm_name := Coord_GenerateShmName 12 7 ''p''\<rparr>)]
     ''f'' (sample_metadata [])) = Returned kSuccess"
  using Coord_generated_names [where base = "''p''" and fs = Map.empty and path = "''f''"
      and m = "sample_metadata []" and p = 12 and t = 7] by simp

text \<open>
  A segment named like a later member is a trap: \<open>Create\<close> stores the name under \<open>version\<close> too,
  the search for that member finds it there, and \<open>Read\<close> of the file just created is left by
  \<open>std::invalid_argument\<close>, which nobody catches.
\<close>

theorem Coord_Read_throws_on_clash:
  assumes "fs path = Some (Coord_json m)" and "cm_shm_name m \<in> set (butlast field_keys)"
  shows "fst (Coord_Read fs path m0) = Threw Invalid_argument"
proof -
  have "length (cm_shm_name m) < 2 ^ 62" using assms(2) by (auto simp: field_keys_def)
  then show ?thesis
    using read_clash_throws [OF assms(2) Coord_json_fits, of m0] assms(1)
    by (auto simp: Coord_Read_def Coord_json_nonempty)
qed

theorem Coord_Read_throws_on_clash_witness:
  "fst (Coord_Read [''f'' \<mapsto> Coord_json (sample_metadata ''payload_size'')] ''f'' (sample_metadata [])) =
    Threw Invalid_argument"
  by (rule Coord_Read_throws_on_clash [where m = "sample_metadata ''payload_size''"])
    (simp_all add: field_keys_def sample_json)

text \<open>
  C27. How \<open>Read\<close> ends, in every case and with which metadata, for a text of less than \<open>2 ^ 64 - 1\<close>
  characters. A missing file and an empty one are told apart and leave the metadata alone. A
  missing \<open>shm_name\<close> is a format error, and a \<open>shm_name\<close> that is not followed by a colon and two
  quotation marks a parse error; the name is the text between the two. The six numbers follow in
  order: a missing key is a format error; otherwise the text from the colon behind the key to the
  end character (to the end of the file without one; the whole file without a colon) goes to the
  number parser, whose exception leaves \<open>Read\<close>. Every end but success keeps the members read so far.
  So \<open>Read\<close> never checks a version or the producer, and never succeeds when a member is missing.
\<close>

theorem Coord_Read_outcomes:
  assumes "\<And>content. fs path = Some content \<Longrightarrow> length content < 2 ^ 64 - 1"
  shows "Coord_Read fs path m =
      (case fs path of
         None \<Rightarrow> (Returned kFileNotFound, m)
       | Some content \<Rightarrow> if content = [] then (Returned kParseError, m) else text_read content m) \<and>
    (fst (Coord_Read fs path m) = Returned kSuccess \<longrightarrow>
       (\<exists>content. fs path = Some content \<and> list_all (\<lambda>key. find_sub (quoted key) content \<noteq> None) member_keys))"
proof (cases "fs path")
  case None
  then show ?thesis by (simp add: Coord_Read_def)
next
  case (Some content)
  show ?thesis
    using Some text_read_success [of content m] by (simp add: Coord_Read_def run_steps_text [OF assms])
qed

text \<open>A file without members, and one whose name has no closing quotation mark.\<close>

theorem Coord_Read_outcomes_witness:
  "Coord_Read [''f'' \<mapsto> ''{}''] ''f'' (sample_metadata ''/p'') = (Returned kInvalidFormat, sample_metadata ''/p'') \<and>
   Coord_Read [''f'' \<mapsto> quoted ''shm_name'' @ '': '' @ [CHR ''\"''] @ ''/p''] ''f'' (sample_metadata ''/q'') =
     (Returned kParseError, sample_metadata ''/q'')"
proof
  have none: "text_read ''{}'' m = (Returned kInvalidFormat, m)" for m
    by (simp add: text_read_def text_name_def text_from_key_def quoted_def)
  let ?t = "quoted ''shm_name'' @ '': '' @ [CHR ''\"''] @ ''/p''"
  have open_name: "text_read ?t m = (Returned kParseError, m)" for m
    by (simp add: text_read_def text_name_def text_from_key_def quoted_def)
  show "Coord_Read [''f'' \<mapsto> ''{}''] ''f'' (sample_metadata ''/p'') = (Returned kInvalidFormat, sample_metadata ''/p'')"
    using Coord_Read_outcomes [of "[''f'' \<mapsto> ''{}'']" "''f''"] by (simp add: none)
  have "length content < 2 ^ 64 - 1" if "[''f'' \<mapsto> ?t] ''f'' = Some content" for content
    using that by (auto simp: quoted_def)
  from Coord_Read_outcomes [of "[''f'' \<mapsto> ?t]" "''f''", OF this]
  show "Coord_Read [''f'' \<mapsto> ?t] ''f'' (sample_metadata ''/q'') = (Returned kParseError, sample_metadata ''/q'')"
    by (simp add: open_name [simplified])
qed

text \<open>
  The life of a coordination file: after a successful creation \<open>Exists\<close> finds a valid file and
  fills the metadata, and after \<open>Delete\<close> it finds none, \<open>Read\<close> and a second \<open>Delete\<close> report a
  missing file, and no other path was touched.
\<close>

theorem Coord_lifecycle:
  assumes fresh: "mkstemp_fresh os path fs" and ok: "Coord_Create os path m fs = (kSuccess, fs1)"
    and name: "CHR ''\"'' \<notin> set (cm_shm_name m)" "cm_shm_name m \<notin> set field_keys"
    and len: "length (cm_shm_name m) < 2 ^ 62" and reg: "is_reg path"
  shows "Coord_Exists is_reg path (Some m0) fs1 = (Some True, Some m) \<and>
    (case Coord_Delete True path fs1 of
       (r, fs2) \<Rightarrow> r = kSuccess \<and> fst (Coord_Exists is_reg path None fs2) = Some False \<and>
         Coord_Read fs2 path m0 = (Returned kFileNotFound, m0) \<and>
         fst (Coord_Delete True path fs2) = kFileNotFound \<and> Coord_Touch u path fs2 = kFileNotFound \<and>
         fs2 = fs(path := None))"
proof -
  have fs1: "fs1 = fs(path \<mapsto> Coord_json m)" using Create_cases [OF fresh ok] by simp
  then have "Coord_Read fs1 path m0 = (Returned kSuccess, m)" using name len by (intro Read_created) simp_all
  then show ?thesis
    using reg by (simp add: Coord_Exists_def Coord_Delete_def Coord_Read_def Coord_Touch_def fs1)
qed

theorem Coord_lifecycle_witness:
  "fst (Coord_Exists (\<lambda>_. True) ''f'' (Some (sample_metadata []))
     (snd (Coord_Create sample_os ''f'' (sample_metadata ''/p'') Map.empty))) = Some True"
proof -
  have "mkstemp_fresh sample_os ''f'' Map.empty" by (simp add: mkstemp_fresh_def sample_os_def)
  from Coord_lifecycle [OF this, of "sample_metadata ''/p''", where is_reg = "\<lambda>_. True"] show ?thesis
    by (simp add: sample_create field_keys_def sample_json)
qed

end
