(* ===== verification/Shm_World.thy ===== *)
theory Shm_World
  imports Simplified_Shm_Layout Coordination_File
begin

text \<open>
  What a producer and a consumer process share: the files, the names of the POSIX shared memory
  objects and the objects themselves. A segment is the layout at its start together with the
  bytes behind it, addressed by their offset. Unlinking a name leaves the object to the
  processes that have it mapped.
\<close>

record Segment =
  sg_size :: u64
  sg_layout :: SimplifiedShmLayout
  sg_memory :: memory

record ipc_world =
  w_files :: file_system
  w_shm_names :: "string \<Rightarrow> nat option"
  w_segments :: "nat \<Rightarrow> Segment"
  w_next :: nat

text \<open>A new shared memory object is empty; once it is given a size it reads as zeros, which is
  the value-initialised layout.\<close>

definition fresh_segment :: Segment where
  "fresh_segment = \<lparr>sg_size = 0, sg_layout = Simplified_construct, sg_memory = (\<lambda>_. 0)\<rparr>"

text \<open>\<open>shm_open\<close> with \<open>O_CREAT\<close>: an existing object is opened as it is.\<close>

definition shm_open_create :: "string \<Rightarrow> ipc_world \<Rightarrow> nat \<times> ipc_world" where
  "shm_open_create name w =
     (case w_shm_names w name of
        Some i \<Rightarrow> (i, w)
      | None \<Rightarrow> (w_next w, w\<lparr>w_shm_names := (w_shm_names w)(name \<mapsto> w_next w),
                            w_segments := (w_segments w)(w_next w := fresh_segment),
                            w_next := Suc (w_next w)\<rparr>))"

definition shm_unlink :: "string \<Rightarrow> ipc_world \<Rightarrow> ipc_world" where
  "shm_unlink name w = w\<lparr>w_shm_names := (w_shm_names w)(name := None)\<rparr>"

definition update_segment :: "nat \<Rightarrow> (Segment \<Rightarrow> Segment) \<Rightarrow> ipc_world \<Rightarrow> ipc_world" where
  "update_segment i f w = w\<lparr>w_segments := (w_segments w)(i := f (w_segments w i))\<rparr>"

text \<open>The queue of a segment and the bytes of its payload slot. Offset 0 is where the layout is.\<close>

definition segment_queue :: "Segment \<Rightarrow> MsgHeader list" where
  "segment_queue g = Simplified_contents 0 (sg_layout g, sg_memory g)"

definition segment_payload :: "nat \<Rightarrow> Segment \<Rightarrow> u8 list" where
  "segment_payload n g = read_bytes (sg_memory g) (Simplified_GetPayload 0 0 (sg_layout g)) n"

definition segment_inv :: "nat \<Rightarrow> Segment \<Rightarrow> bool" where
  "segment_inv n g \<longleftrightarrow> Simplified_inv n (sg_layout g)"

text \<open>The loads of a queue index by a waiting thread, each with the clock read after it.\<close>

type_synonym index_poll = "u64 \<times> nat"

text \<open>A sleep of at least 100 microseconds lies between two polls; the clock counts nanoseconds.\<close>

fun polls_apart :: "nat \<Rightarrow> nat list \<Rightarrow> bool" where
  "polls_apart d (t # u # ts) \<longleftrightarrow> t + d \<le> u \<and> polls_apart d (u # ts)"
| "polls_apart d _ \<longleftrightarrow> True"

lemma polls_apart_nth:
  "polls_apart d ts \<Longrightarrow> k < length ts \<Longrightarrow> hd ts + k * d \<le> ts ! k"
proof (induction ts arbitrary: k rule: polls_apart.induct)
  case (1 d t u ts)
  then show ?case by (cases k) fastforce+
qed auto

end
