(* ===== verification/Phoenix_Producer.thy ===== *)
theory Phoenix_Producer
  imports Shm_World
begin

text \<open>
  The producer of \<open>include/phoenix/ipc/phoenix_producer.hpp\<close> and \<open>src/ipc/phoenix_producer.cpp\<close>:
  \<open>ProducerImpl\<close> is the struct behind its pointer. A descriptor is None for -1 and otherwise
  the segment it refers to; the layout pointer is null or a mapped segment. The system calls'
  outcomes and the values of the clocks are the fields of \<open>producer_env\<close>.
\<close>

datatype SendResult = Send_kSuccess | Send_kQueueFull | Send_kShmClosed | Send_kError

primrec SendResult_code :: "SendResult \<Rightarrow> int" where
  "SendResult_code Send_kSuccess = 0"
| "SendResult_code Send_kQueueFull = 1"
| "SendResult_code Send_kShmClosed = 2"
| "SendResult_code Send_kError = 3"

record ProducerImpl =
  pi_coord_file_path :: string
  pi_shm_name :: string
  pi_shm_fd :: "nat option"
  pi_shm_addr :: mapping_ptr
  pi_shm_size :: u64
  pi_layout :: mapping_ptr
  pi_last_error :: string
  pi_valid :: bool

definition Producer_construct :: ProducerImpl where
  "Producer_construct =
     \<lparr>pi_coord_file_path = [], pi_shm_name = [], pi_shm_fd = None, pi_shm_addr = Null,
      pi_shm_size = 0, pi_layout = Null, pi_last_error = [], pi_valid = False\<rparr>"

text \<open>The error fields hold the text of \<open>strerror(errno)\<close> when the call fails. \<open>time(nullptr)\<close> is
  read three times: for the name, in the layout and for the metadata.\<close>

record producer_env =
  pe_pid :: pid
  pe_name_time :: u64
  pe_layout_time :: u64
  pe_meta_time :: u64
  pe_shm_open_error :: "string option"
  pe_ftruncate_error :: "string option"
  pe_mmap_error :: "string option"
  pe_posix :: posix_calls
  pe_unlink_ok :: bool

section \<open>Construction and destruction\<close>

definition Producer_Cleanup :: "producer_env \<Rightarrow> ProducerImpl \<times> ipc_world \<Rightarrow> ProducerImpl \<times> ipc_world" where
  "Producer_Cleanup env s =
     (let (p, w) = s;
          p = p\<lparr>pi_valid := False\<rparr>;
          (p, w) = (if pi_coord_file_path p \<noteq> []
                    then (p\<lparr>pi_coord_file_path := []\<rparr>,
                          w\<lparr>w_files := snd (Coord_Delete (pe_unlink_ok env) (pi_coord_file_path p) (w_files w))\<rparr>)
                    else (p, w));
          p = (if pi_shm_addr p \<noteq> Null \<and> pi_shm_addr p \<noteq> Map_failed then p\<lparr>pi_shm_addr := Null\<rparr> else p);
          p = (if pi_shm_fd p \<noteq> None then p\<lparr>pi_shm_fd := None\<rparr> else p)
      in (p\<lparr>pi_layout := Null\<rparr>, w))"

definition Producer_metadata :: "producer_env \<Rightarrow> u64 \<Rightarrow> u64 \<Rightarrow> ProducerImpl \<Rightarrow> CoordinationMetadata" where
  "Producer_metadata env queue_cap payload_size p =
     \<lparr>cm_shm_name = pi_shm_name p, cm_shm_size = pi_shm_size p, cm_queue_capacity = queue_cap,
      cm_payload_size = payload_size, cm_producer_pid = pe_pid env,
      cm_creation_time = pe_meta_time env, cm_modify_time = pe_meta_time env\<rparr>"

text \<open>The last two steps of \<open>Initialize\<close>: the layout in the mapped segment \<open>i\<close>, then the
  coordination file.\<close>

definition Producer_Initialize_mapped ::
  "producer_env \<Rightarrow> u64 \<Rightarrow> u64 \<Rightarrow> nat \<Rightarrow> ProducerImpl \<times> ipc_world \<Rightarrow> bool \<times> ProducerImpl \<times> ipc_world" where
  "Producer_Initialize_mapped env queue_cap payload_size i s =
     (let (p, w) = s;
          (ok, L) = SimplifiedFactory_Create (pe_layout_time env) (pi_shm_size p) queue_cap
            payload_size (pe_pid env) (sg_layout (w_segments w i));
          w = update_segment i (\<lambda>g. g\<lparr>sg_layout := L\<rparr>) w
      in if \<not> ok then
           (False, Producer_Cleanup env (p\<lparr>pi_last_error := ''Failed to initialize layout''\<rparr>, w))
         else
           let p = p\<lparr>pi_layout := Mapped i\<rparr>;
               (result, files) = Coord_Create (pe_posix env) (pi_coord_file_path p)
                 (Producer_metadata env queue_cap payload_size p) (w_files w);
               w = w\<lparr>w_files := files\<rparr>
           in if result \<noteq> kSuccess then
                (False, Producer_Cleanup env
                   (p\<lparr>pi_last_error := ''Failed to create coordination file: '' @ Coord_ResultToString result\<rparr>, w))
              else (True, p\<lparr>pi_valid := True\<rparr>, w))"

definition Producer_Initialize ::
  "producer_env \<Rightarrow> string \<Rightarrow> u64 \<Rightarrow> u64 \<Rightarrow> ProducerImpl \<times> ipc_world \<Rightarrow> bool \<times> ProducerImpl \<times> ipc_world" where
  "Producer_Initialize env coord_file queue_cap payload_size s =
     (let (p, w) = s;
          p = p\<lparr>pi_coord_file_path := coord_file,
                pi_shm_name := Coord_GenerateShmName (pe_pid env) (pe_name_time env) ''phoenix_ipc'',
                pi_shm_size := Simplified_CalculateSize queue_cap payload_size\<rparr>
      in if pi_shm_size p = 0 then (False, p\<lparr>pi_last_error := ''Invalid size calculation''\<rparr>, w)
         else case pe_shm_open_error env of
           Some e \<Rightarrow> (False, p\<lparr>pi_last_error := ''shm_open failed: '' @ e\<rparr>, w)
         | None \<Rightarrow>
             let (i, w) = shm_open_create (pi_shm_name p) w;
                 p = p\<lparr>pi_shm_fd := Some i\<rparr>
             in case pe_ftruncate_error env of
                  Some e \<Rightarrow> (False, p\<lparr>pi_last_error := ''ftruncate failed: '' @ e, pi_shm_fd := None\<rparr>, w)
                | None \<Rightarrow>
                    let w = update_segment i (\<lambda>g. g\<lparr>sg_size := pi_shm_size p\<rparr>) w
                    in case pe_mmap_error env of
                         Some e \<Rightarrow> (False, p\<lparr>pi_shm_addr := Map_failed,
                                           pi_last_error := ''mmap failed: '' @ e, pi_shm_fd := None\<rparr>, w)
                       | None \<Rightarrow> Producer_Initialize_mapped env queue_cap payload_size i
                                   (p\<lparr>pi_shm_addr := Mapped i\<rparr>, w))"

text \<open>\<open>Producer\<close> forwards to the struct behind its pointer, which is never null. Its destructor cleans
  up, and then the destructor of the struct does it again.\<close>

definition ProducerImpl_destroy :: "producer_env \<Rightarrow> ProducerImpl \<times> ipc_world \<Rightarrow> ProducerImpl \<times> ipc_world" where
  "ProducerImpl_destroy env s = Producer_Cleanup env s"

definition Producer_Cleanup_outer :: "producer_env \<Rightarrow> ProducerImpl \<times> ipc_world \<Rightarrow> ProducerImpl \<times> ipc_world" where
  "Producer_Cleanup_outer env s = Producer_Cleanup env s"

definition Producer_Initialize_outer ::
  "producer_env \<Rightarrow> string \<Rightarrow> u64 \<Rightarrow> u64 \<Rightarrow> ProducerImpl \<times> ipc_world \<Rightarrow> bool \<times> ProducerImpl \<times> ipc_world" where
  "Producer_Initialize_outer env coord_file queue_cap payload_size s =
     Producer_Initialize env coord_file queue_cap payload_size s"

definition Producer_destroy :: "producer_env \<Rightarrow> ProducerImpl \<times> ipc_world \<Rightarrow> ipc_world" where
  "Producer_destroy env s = snd (ProducerImpl_destroy env (Producer_Cleanup_outer env s))"

text \<open>\<open>Create\<close> returns the producer or null. On failure the unique pointer runs the destructors.\<close>

definition Producer_Create ::
  "producer_env \<Rightarrow> string \<Rightarrow> u64 \<Rightarrow> u64 \<Rightarrow> ipc_world \<Rightarrow> ProducerImpl option \<times> ipc_world" where
  "Producer_Create env coord_file queue_cap payload_size w =
     (let (ok, p, w) = Producer_Initialize_outer env coord_file queue_cap payload_size (Producer_construct, w)
      in if \<not> ok then (None, Producer_destroy env (p, w))
         else (Some p, w))"

lemmas Producer_wrapper_defs =
  ProducerImpl_destroy_def Producer_Cleanup_outer_def Producer_Initialize_outer_def Producer_destroy_def

section \<open>Sending\<close>

text \<open>
  The wait for space. Each poll is the read index the load in \<open>IsFull\<close> returned and the value of
  the steady clock after it; the consumer moves the index between the polls. None means that the
  loop is still running when the polls are used up.
\<close>

fun wait_for_space :: "u32 \<Rightarrow> nat \<Rightarrow> SimplifiedShmLayout \<Rightarrow> index_poll list \<Rightarrow> (bool \<times> u64) option" where
  "wait_for_space timeout_ms deadline L [] = None"
| "wait_for_space timeout_ms deadline L ((r, now) # polls) =
     (if \<not> Simplified_IsFull (L\<lparr>sl_read_idx := r\<rparr>) then Some (True, r)
      else if timeout_ms = 0 then Some (False, r)
      else if now \<ge> deadline then Some (False, r)
      else wait_for_space timeout_ms deadline L polls)"

text \<open>The payload write and the push, once there was space.\<close>

definition send_message :: "u32 \<Rightarrow> u8 list option \<Rightarrow> u64 \<Rightarrow> Segment \<Rightarrow> bool \<times> Segment" where
  "send_message fid payload plen g =
     (let L = sg_layout g;
          m = (case payload of
                 None \<Rightarrow> sg_memory g
               | Some bytes \<Rightarrow>
                   if plen > 0
                   then write_bytes (sg_memory g) (Simplified_GetPayload 0 0 L) (take (unat plen) bytes)
                   else sg_memory g);
          header = \<lparr>seq_id = 0, func_id = fid, payload_len = ucast plen\<rparr>;
          (ok, L, m) = Simplified_Push 0 header (L, m)
      in (ok, g\<lparr>sg_layout := L, sg_memory := m\<rparr>))"

definition Producer_DoSend ::
  "u32 \<Rightarrow> u8 list option \<Rightarrow> u64 \<Rightarrow> u32 \<Rightarrow> nat \<Rightarrow> index_poll list \<Rightarrow> ProducerImpl \<times> ipc_world \<Rightarrow>
   SendResult option \<times> ProducerImpl \<times> ipc_world" where
  "Producer_DoSend fid payload plen timeout_ms start polls s =
     (let (p, w) = s
      in case pi_layout p of
           Mapped i \<Rightarrow>
             if \<not> pi_valid p then (Some Send_kShmClosed, p, w)
             else
               let L = sg_layout (w_segments w i)
               in if plen > Simplified_GetPayloadSize L
                  then (Some Send_kError, p\<lparr>pi_last_error := ''Payload too large''\<rparr>, w)
                  else
                    let deadline = start + unat timeout_ms * 1000000
                    in case wait_for_space timeout_ms deadline L polls of
                         None \<Rightarrow> (None, p, w)
                       | Some (space, r) \<Rightarrow>
                           let w = update_segment i (\<lambda>g. g\<lparr>sg_layout := (sg_layout g)\<lparr>sl_read_idx := r\<rparr>\<rparr>) w
                           in if \<not> space then (Some Send_kQueueFull, p, w)
                              else let (ok, g) = send_message fid payload plen (w_segments w i);
                                       w = update_segment i (\<lambda>_. g) w
                                   in (Some (if ok then Send_kSuccess else Send_kQueueFull), p, w)
         | _ \<Rightarrow> (Some Send_kShmClosed, p, w))"

text \<open>\<open>Send\<close> makes one poll, of the read index as it is.\<close>

definition current_poll :: "ProducerImpl \<Rightarrow> ipc_world \<Rightarrow> index_poll list" where
  "current_poll p w =
     (case pi_layout p of Mapped i \<Rightarrow> [(sl_read_idx (sg_layout (w_segments w i)), 0)] | _ \<Rightarrow> [])"

definition Producer_Send ::
  "u32 \<Rightarrow> u8 list option \<Rightarrow> u64 \<Rightarrow> ProducerImpl \<times> ipc_world \<Rightarrow>
   SendResult option \<times> ProducerImpl \<times> ipc_world" where
  "Producer_Send fid payload plen s =
     Producer_DoSend fid payload plen 0 0 (current_poll (fst s) (snd s)) s"

definition Producer_SendBlocking ::
  "u32 \<Rightarrow> u8 list option \<Rightarrow> u64 \<Rightarrow> u32 \<Rightarrow> nat \<Rightarrow> index_poll list \<Rightarrow> ProducerImpl \<times> ipc_world \<Rightarrow>
   SendResult option \<times> ProducerImpl \<times> ipc_world" where
  "Producer_SendBlocking fid payload plen timeout_ms start polls s =
     Producer_DoSend fid payload plen timeout_ms start polls s"

definition Producer_Send_vector ::
  "u32 \<Rightarrow> u8 list \<Rightarrow> ProducerImpl \<times> ipc_world \<Rightarrow> SendResult option \<times> ProducerImpl \<times> ipc_world" where
  "Producer_Send_vector fid payload s =
     Producer_DoSend fid (Some payload) (of_nat (length payload)) 0 0
       (current_poll (fst s) (snd s)) s"

text \<open>The calls with the default arguments of the header file.\<close>

definition Producer_Create_default :: "producer_env \<Rightarrow> string \<Rightarrow> ipc_world \<Rightarrow> ProducerImpl option \<times> ipc_world" where
  "Producer_Create_default env coord_file w =
     Producer_Create env coord_file GetDefaultQueueCapacity GetDefaultPayloadSize w"

definition Producer_Send_default ::
  "u32 \<Rightarrow> ProducerImpl \<times> ipc_world \<Rightarrow> SendResult option \<times> ProducerImpl \<times> ipc_world" where
  "Producer_Send_default fid s = Producer_Send fid None 0 s"

definition Producer_SendBlocking_default ::
  "u32 \<Rightarrow> nat \<Rightarrow> index_poll list \<Rightarrow> ProducerImpl \<times> ipc_world \<Rightarrow> SendResult option \<times> ProducerImpl \<times> ipc_world" where
  "Producer_SendBlocking_default fid start polls s = Producer_SendBlocking fid None 0 5000 start polls s"

section \<open>Queries\<close>

definition Producer_AvailableSpace :: "ProducerImpl \<Rightarrow> ipc_world \<Rightarrow> u64" where
  "Producer_AvailableSpace p w =
     (if \<not> pi_valid p then 0
      else case pi_layout p of Mapped i \<Rightarrow> Simplified_FreeSpace (sg_layout (w_segments w i)) | _ \<Rightarrow> 0)"

definition Producer_QueueCapacity :: "ProducerImpl \<Rightarrow> ipc_world \<Rightarrow> u64" where
  "Producer_QueueCapacity p w =
     (if \<not> pi_valid p then 0
      else case pi_layout p of Mapped i \<Rightarrow> Simplified_GetQueueCapacity (sg_layout (w_segments w i)) | _ \<Rightarrow> 0)"

definition Producer_IsValid :: "ProducerImpl \<Rightarrow> bool" where
  "Producer_IsValid p \<longleftrightarrow> pi_valid p"

definition Producer_GetCoordFilePath :: "ProducerImpl \<Rightarrow> string" where
  "Producer_GetCoordFilePath p = pi_coord_file_path p"

definition Producer_GetShmName :: "ProducerImpl \<Rightarrow> string" where
  "Producer_GetShmName p = pi_shm_name p"

definition Producer_GetLastError :: "ProducerImpl \<Rightarrow> string" where
  "Producer_GetLastError p = pi_last_error p"

definition Producer_SetError :: "string \<Rightarrow> ProducerImpl \<Rightarrow> ProducerImpl" where
  "Producer_SetError error p = p\<lparr>pi_last_error := error\<rparr>"

section \<open>What a send does\<close>

lemma wait_for_space_first:
  "wait_for_space 0 deadline L ((r, now) # polls) =
    Some (\<not> Simplified_IsFull (L\<lparr>sl_read_idx := r\<rparr>), r)"
  by simp

lemma Simplified_IsFull_iff:
  "Simplified_IsFull L \<longleftrightarrow> unat (sl_queue_capacity L) \<le> unat (Simplified_Available L)"
  by (simp add: Simplified_IsFull_def Simplified_Available_def word_le_nat_alt)

text \<open>The payload bytes lie behind the queue, so writing them does not disturb it.\<close>

lemma contents_payload_write:
  assumes "Simplified_header_inv L"
  shows "Simplified_contents 0 (L, write_bytes m (Simplified_GetPayload 0 0 L) bs) =
    Simplified_contents 0 (L, m)"
proof -
  have "object_at MsgHeader_type (write_bytes m (Simplified_GetPayload 0 0 L) bs) (Simplified_GetMessage 0 i L) =
      object_at MsgHeader_type m (Simplified_GetMessage 0 i L)" for i
    using GetMessage_in_queue(2) [OF assms, of 0 i] assms
    by (simp add: object_at_def Simplified_GetPayload_def Simplified_header_inv_def mem_simps apart_def)
  then show ?thesis by (simp add: Simplified_contents_def idx_contents_def)
qed

lemma payload_after_write:
  assumes "length bs = n"
  shows "read_bytes (write_bytes m (Simplified_GetPayload 0 0 L) bs) (Simplified_GetPayload 0 0 L) n = bs"
  using assms by (simp add: mem_simps)

lemma payload_after_push:
  assumes "Simplified_header_inv L" and "Simplified_Push 0 h (L, m) = (ok, L', m')"
  shows "read_bytes m' (Simplified_GetPayload 0 0 L) n = read_bytes m (Simplified_GetPayload 0 0 L) n"
    and "Simplified_GetPayload 0 0 L' = Simplified_GetPayload 0 0 L"
proof -
  have "Simplified_GetMessage 0 (sl_write_idx L) L + 16 \<le> Simplified_GetPayload 0 0 L"
    using GetMessage_in_queue(2) [OF assms(1), of 0 "sl_write_idx L"] assms(1)
    by (simp add: Simplified_GetPayload_def Simplified_header_inv_def)
  then show "read_bytes m' (Simplified_GetPayload 0 0 L) n = read_bytes m (Simplified_GetPayload 0 0 L) n"
    using assms(2)
    by (auto simp: Simplified_Push_def Let_def construct_at_def msg.bytes_length mem_simps apart_def
        split: if_splits)
  show "Simplified_GetPayload 0 0 L' = Simplified_GetPayload 0 0 L"
    using assms(2) by (auto simp: Simplified_Push_def Let_def Simplified_GetPayload_def split: if_splits)
qed

definition sent_header :: "u32 \<Rightarrow> u64 \<Rightarrow> MsgHeader" where
  "sent_header fid plen = \<lparr>seq_id = 0, func_id = fid, payload_len = ucast plen\<rparr>"

definition payload_written :: "u8 list option \<Rightarrow> u64 \<Rightarrow> u8 list option" where
  "payload_written payload plen =
     (case payload of None \<Rightarrow> None | Some bytes \<Rightarrow> if 0 < plen then Some (take (unat plen) bytes) else None)"

lemma send_message_ok:
  assumes inv: "segment_inv (Suc n) g" and room: "\<not> Simplified_IsFull (sg_layout g)"
  shows "\<exists>g'. send_message fid payload plen g = (True, g') \<and> segment_inv n g' \<and>
    segment_queue g' = segment_queue g @ [sent_header fid plen] \<and> sg_size g' = sg_size g \<and>
    (\<forall>k. segment_payload k g' = (case payload_written payload plen of
        None \<Rightarrow> segment_payload k g
      | Some bs \<Rightarrow> read_bytes (write_bytes (sg_memory g) (Simplified_GetPayload 0 0 (sg_layout g)) bs)
          (Simplified_GetPayload 0 0 (sg_layout g)) k))"
proof -
  let ?L = "sg_layout g" and ?h = "sent_header fid plen"
  let ?m = "case payload_written payload plen of None \<Rightarrow> sg_memory g
    | Some bs \<Rightarrow> write_bytes (sg_memory g) (Simplified_GetPayload 0 0 ?L) bs"
  let ?L' = "?L\<lparr>sl_write_idx := sl_write_idx ?L + 1\<rparr>"
  have inv': "Simplified_inv (Suc n) ?L" using inv by (simp add: segment_inv_def)
  note hd = Simplified_inv_header [OF inv']
  have space: "unat (Simplified_Available ?L) < unat (sl_queue_capacity ?L)"
    using room by (simp add: Simplified_IsFull_iff)
  obtain m' where push: "Simplified_Push 0 ?h (?L, ?m) = (True, ?L', m')"
    using Simplified_Push_room [OF space] by blast
  have m': "m' = construct_at MsgHeader_type ?m (Simplified_GetMessage 0 (sl_write_idx ?L) ?L) ?h"
    using push Simplified_Push_room [OF space, of 0 ?h ?m] by simp
  have send: "send_message fid payload plen g = (True, g\<lparr>sg_layout := ?L', sg_memory := m'\<rparr>)"
    using push by (auto simp: send_message_def sent_header_def payload_written_def Let_def split: option.splits)
  have "Simplified_contents 0 (?L, ?m) = segment_queue g"
    by (auto simp: segment_queue_def contents_payload_write [OF hd] split: option.splits)
  then have "Simplified_contents 0 (?L', m') = segment_queue g @ [?h]"
    using Simplified_Push_contents [OF inv' space, of 0 ?m ?h] m' by simp
  moreover have "read_bytes m' (Simplified_GetPayload 0 0 ?L) k = read_bytes ?m (Simplified_GetPayload 0 0 ?L) k"
    and "Simplified_GetPayload 0 0 ?L' = Simplified_GetPayload 0 0 ?L" for k
    using payload_after_push [OF hd push] by simp_all
  ultimately show ?thesis
    using send Simplified_Push_inv [OF inv' space]
    by (auto simp: segment_queue_def segment_payload_def segment_inv_def split: option.splits)
qed

lemma update_read_idx_same [simp]: "L\<lparr>sl_read_idx := sl_read_idx L\<rparr> = (L :: SimplifiedShmLayout)"
  by simp

lemma update_segment_same: "f (w_segments w i) = w_segments w i \<Longrightarrow> update_segment i f w = w"
  by (simp add: update_segment_def)

lemma update_segment_simps [simp]:
  "w_segments (update_segment i f w) i = f (w_segments w i)"
  "j \<noteq> i \<Longrightarrow> w_segments (update_segment i f w) j = w_segments w j"
  "w_files (update_segment i f w) = w_files w"
  "w_shm_names (update_segment i f w) = w_shm_names w"
  "w_next (update_segment i f w) = w_next w"
  "update_segment i f (update_segment i h w) = update_segment i (\<lambda>g. f (h g)) w"
  by (simp_all add: update_segment_def)

lemma Send_eq:
  assumes "pi_layout p = Mapped i" and "pi_valid p"
  shows "Producer_Send fid payload plen (p, w) =
    (if plen > sl_payload_size (sg_layout (w_segments w i))
     then (Some Send_kError, p\<lparr>pi_last_error := ''Payload too large''\<rparr>, w)
     else if Simplified_IsFull (sg_layout (w_segments w i)) then (Some Send_kQueueFull, p, w)
     else let (ok, g) = send_message fid payload plen (w_segments w i)
          in (Some (if ok then Send_kSuccess else Send_kQueueFull), p, update_segment i (\<lambda>_. g) w))"
  using assms
  by (simp add: Producer_Send_def Producer_DoSend_def current_poll_def Simplified_GetPayloadSize_def
      update_segment_same split_beta Let_def)

lemma wait_returns:
  assumes "polls_apart 100000 (map snd polls)" and "polls \<noteq> []"
    and "deadline \<le> snd (hd polls) + 100000 * (length polls - 1)"
  shows "wait_for_space timeout_ms deadline L polls \<noteq> None"
  using assms
proof (induction polls)
  case Nil
  then show ?case by simp
next
  case (Cons p polls)
  obtain r now where p: "p = (r, now)" by (cases p)
  show ?case
  proof (cases polls)
    case Nil
    then show ?thesis using Cons.prems by (auto simp: p)
  next
    case (Cons q qs)
    then have "polls_apart 100000 (map snd polls)" and "now + 100000 \<le> snd (hd polls)"
      using Cons.prems(1) by (simp_all add: p)
    then have "wait_for_space timeout_ms deadline L polls \<noteq> None"
      using Cons.IH Cons.prems(3) \<open>polls = q # qs\<close> by (simp add: p)
    then show ?thesis by (auto simp: p)
  qed
qed

text \<open>Where the wait ends: after polls that all found the queue full before the deadline.\<close>

lemma wait_exit:
  assumes "wait_for_space timeout_ms deadline L polls = Some (space, r)" and "0 < unat timeout_ms"
  shows "\<exists>k < length polls. r = fst (polls ! k) \<and> (space \<longleftrightarrow> \<not> Simplified_IsFull (L\<lparr>sl_read_idx := r\<rparr>)) \<and>
    (\<not> space \<longrightarrow> deadline \<le> snd (polls ! k)) \<and>
    (\<forall>j < k. Simplified_IsFull (L\<lparr>sl_read_idx := fst (polls ! j)\<rparr>) \<and> snd (polls ! j) < deadline)"
  using assms
proof (induction polls)
  case Nil
  then show ?case by simp
next
  case (Cons p polls)
  obtain r0 now where p: "p = (r0, now)" by (cases p)
  show ?case
  proof (cases "Simplified_IsFull (L\<lparr>sl_read_idx := r0\<rparr>) \<and> now < deadline")
    case True
    then have "wait_for_space timeout_ms deadline L polls = Some (space, r)"
      using Cons.prems by (auto simp: p split: if_splits)
    from Cons.IH [OF this Cons.prems(2)] obtain k where k: "k < length polls" "r = fst (polls ! k)"
      "space \<longleftrightarrow> \<not> Simplified_IsFull (L\<lparr>sl_read_idx := r\<rparr>)" "\<not> space \<longrightarrow> deadline \<le> snd (polls ! k)"
      "\<forall>j < k. Simplified_IsFull (L\<lparr>sl_read_idx := fst (polls ! j)\<rparr>) \<and> snd (polls ! j) < deadline" by blast
    then show ?thesis
      using True by (intro exI [of _ "Suc k"]) (auto simp: p nth_Cons split: nat.splits)
  next
    case False
    then show ?thesis using Cons.prems by (intro exI [of _ 0]) (auto simp: p split: if_splits)
  qed
qed

text \<open>With the sleeps the code asks for, the polls before the deadline are at most ten for each
  millisecond.\<close>

lemma polls_before_deadline:
  assumes "polls_apart 100000 ts" and "start \<le> hd ts" and "k \<le> length ts"
    and "\<forall>j < k. ts ! j < start + t * 1000000"
  shows "k \<le> 10 * t"
proof (rule ccontr)
  assume "\<not> k \<le> 10 * t"
  then have j: "10 * t < k" by simp
  then have "hd ts + 10 * t * 100000 \<le> ts ! (10 * t)" using assms(1,3) by (intro polls_apart_nth) simp_all
  moreover have "ts ! (10 * t) < start + t * 1000000" using assms(4) j by blast
  ultimately show False using assms(2) by simp
qed

lemma blocking_wait_exit:
  assumes apart: "polls_apart 100000 (map snd polls)" and start: "start \<le> snd (hd polls)"
    and t: "0 < unat timeout_ms" and many: "10 * unat timeout_ms < length polls"
  shows "\<exists>space k. k \<le> 10 * unat timeout_ms \<and>
    wait_for_space timeout_ms (start + unat timeout_ms * 1000000) L polls = Some (space, fst (polls ! k)) \<and>
    (space \<longleftrightarrow> \<not> Simplified_IsFull (L\<lparr>sl_read_idx := fst (polls ! k)\<rparr>)) \<and>
    (\<not> space \<longrightarrow> start + unat timeout_ms * 1000000 \<le> snd (polls ! k)) \<and>
    (\<forall>j < k. Simplified_IsFull (L\<lparr>sl_read_idx := fst (polls ! j)\<rparr>) \<and>
      snd (polls ! j) < start + unat timeout_ms * 1000000)"
proof -
  let ?d = "start + unat timeout_ms * 1000000"
  have ne: "polls \<noteq> []" using many by auto
  have "unat timeout_ms * 1000000 \<le> 100000 * (length polls - 1)" using many by simp
  then have "wait_for_space timeout_ms ?d L polls \<noteq> None"
    using apart ne start by (intro wait_returns) simp_all
  then obtain space r where wait: "wait_for_space timeout_ms ?d L polls = Some (space, r)" by fast
  from wait_exit [OF this t] obtain k where k: "k < length polls" "r = fst (polls ! k)"
    "space \<longleftrightarrow> \<not> Simplified_IsFull (L\<lparr>sl_read_idx := r\<rparr>)" "\<not> space \<longrightarrow> ?d \<le> snd (polls ! k)"
    "\<forall>j < k. Simplified_IsFull (L\<lparr>sl_read_idx := fst (polls ! j)\<rparr>) \<and> snd (polls ! j) < ?d" by blast
  have "k \<le> 10 * unat timeout_ms"
    using k start ne by (intro polls_before_deadline [OF apart]) (auto simp: hd_map)
  then show ?thesis using wait k by blast
qed

lemma send_message_space:
  "\<not> Simplified_IsFull (sg_layout g) \<Longrightarrow> fst (send_message fid payload plen g)"
  by (simp add: send_message_def Simplified_Push_def Simplified_IsFull_def Simplified_Available_def Let_def
      word_le_nat_alt split: option.splits)

subsection \<open>What a creation does\<close>

text \<open>No system call fails, and the generated name is not in use.\<close>

definition creation_possible :: "producer_env \<Rightarrow> string \<Rightarrow> ipc_world \<Rightarrow> bool" where
  "creation_possible env coord_file w \<longleftrightarrow>
     pe_shm_open_error env = None \<and> pe_ftruncate_error env = None \<and> pe_mmap_error env = None \<and>
     w_shm_names w (Coord_GenerateShmName (pe_pid env) (pe_name_time env) ''phoenix_ipc'') = None \<and>
     mkstemp_path (pe_posix env) (coord_file @ ''.tmp.XXXXXX'') \<noteq> None \<and>
     mkstemp_fresh (pe_posix env) coord_file (w_files w) \<and>
     write_count (pe_posix env) = int \<and> rename_ok (pe_posix env)"

lemma Coord_Create_possible:
  assumes "creation_possible env path w"
  shows "Coord_Create (pe_posix env) path m (w_files w) = (kSuccess, (w_files w)(path \<mapsto> Coord_json m))"
  using assms
  by (auto simp: creation_possible_def Coord_Create_def mkstemp_fresh_def Let_def fun_upd_idem)

definition created_producer :: "producer_env \<Rightarrow> string \<Rightarrow> u64 \<Rightarrow> u64 \<Rightarrow> nat \<Rightarrow> ProducerImpl" where
  "created_producer env coord_file c plen i =
     \<lparr>pi_coord_file_path = coord_file,
      pi_shm_name = Coord_GenerateShmName (pe_pid env) (pe_name_time env) ''phoenix_ipc'',
      pi_shm_fd = Some i, pi_shm_addr = Mapped i, pi_shm_size = Simplified_CalculateSize c plen,
      pi_layout = Mapped i, pi_last_error = [], pi_valid = True\<rparr>"

lemma Create_succeeds:
  assumes env: "creation_possible env path w" and fits: "320 + 16 * unat c + unat plen < 2 ^ 64"
    and pos: "0 < unat c"
  shows "\<exists>w' L. Producer_Create env path c plen w = (Some (created_producer env path c plen (w_next w)), w') \<and>
    w_segments w' (w_next w) =
      \<lparr>sg_size = Simplified_CalculateSize c plen, sg_layout = L, sg_memory = (\<lambda>_. 0)\<rparr> \<and>
    Simplified_Initialize (pe_layout_time env) (Simplified_CalculateSize c plen) c plen (pe_pid env)
      Simplified_construct = (True, L) \<and>
    w_shm_names w' = (w_shm_names w)(pi_shm_name (created_producer env path c plen (w_next w)) \<mapsto> w_next w) \<and>
    w_files w' = (w_files w)(path \<mapsto>
      Coord_json (Producer_metadata env c plen (created_producer env path c plen (w_next w))))"
proof -
  let ?n = "Simplified_CalculateSize c plen"
  have size: "unat ?n = 320 + 16 * unat c + unat plen" using fits by (rule CalculateSize_exact)
  then have "?n \<noteq> 0" and big: "\<not> ?n < 320"
    by (auto simp: word_less_nat_alt)
  moreover obtain L where init: "Simplified_Initialize (pe_layout_time env) ?n c plen (pe_pid env)
      Simplified_construct = (True, L)"
    using Initialize_fits [OF fits, of "pe_layout_time env" ?n "pe_pid env" Simplified_construct] size
    by (metis (full_types) fst_conv order_refl surj_pair)
  moreover have "SimplifiedFactory_Create (pe_layout_time env) ?n c plen (pe_pid env) L0 = (True, L)" for L0
    using init big by (simp add: SimplifiedFactory_Create_def)
  ultimately show ?thesis
    using env Coord_Create_possible [OF env]
    by (simp add: Producer_Create_def Producer_Initialize_def Producer_Initialize_mapped_def Producer_wrapper_defs
        creation_possible_def shm_open_create_def fresh_segment_def Let_def created_producer_def
        Producer_construct_def Producer_metadata_def)
qed

text \<open>A producer with the default arguments fits the default segment size, which nothing uses.\<close>

lemma default_creation_succeeds:
  assumes "creation_possible env path w"
  shows "fst (Producer_Create_default env path w) \<noteq> None"
    and "Simplified_CalculateSize GetDefaultQueueCapacity GetDefaultPayloadSize \<le> GetDefaultShmSize"
proof -
  show "fst (Producer_Create_default env path w) \<noteq> None"
    using Create_succeeds [OF assms, of GetDefaultQueueCapacity GetDefaultPayloadSize]
    by (auto simp: Producer_Create_default_def GetDefaultQueueCapacity_def GetDefaultPayloadSize_def)
  show "Simplified_CalculateSize GetDefaultQueueCapacity GetDefaultPayloadSize \<le> GetDefaultShmSize"
    by (simp add: Simplified_CalculateSize_def GetDefaultQueueCapacity_def GetDefaultPayloadSize_def
        GetDefaultShmSize_def)
qed

section \<open>Properties\<close>

text \<open>
  C14. What a non-blocking \<open>Send\<close> of a valid producer with a payload does. A payload larger than
  the payload buffer is an error and a full queue is reported as such, both without touching
  the shared memory; otherwise the send succeeds, exactly one header with the function id and
  the payload's length is appended, the payload slot starts with the payload, and nothing else
  in the world changes. The header's sequence number is always the invalid one.
\<close>

theorem Producer_send_exact:
  assumes p: "pi_layout p = Mapped i" "pi_valid p" and inv: "segment_inv (Suc n) (w_segments w i)"
    and plen: "unat plen = length bs"
  shows "let g = w_segments w i
     in case Producer_Send fid (Some bs) plen (p, w) of
          (r, p', w') \<Rightarrow>
            if plen > Simplified_GetPayloadSize (sg_layout g) then r = Some Send_kError \<and> w' = w
            else if length (segment_queue g) = unat (sl_queue_capacity (sg_layout g))
            then r = Some Send_kQueueFull \<and> p' = p \<and> w' = w
            else r = Some Send_kSuccess \<and> p' = p \<and>
                 segment_queue (w_segments w' i) = segment_queue g @ [sent_header fid plen] \<and>
                 \<not> MsgHeader_IsValid (sent_header fid plen) \<and>
                 (plen = 0 \<or> segment_payload (length bs) (w_segments w' i) = bs) \<and>
                 segment_inv n (w_segments w' i) \<and>
                 w' = update_segment i (\<lambda>_. w_segments w' i) w"
proof -
  let ?g = "w_segments w i"
  have avail: "unat (Simplified_Available (sg_layout ?g)) \<le> unat (sl_queue_capacity (sg_layout ?g))"
    using inv by (simp add: segment_inv_def Simplified_inv_def)
  then have full: "Simplified_IsFull (sg_layout ?g) \<longleftrightarrow>
      length (segment_queue ?g) = unat (sl_queue_capacity (sg_layout ?g))"
    by (auto simp: Simplified_IsFull_iff segment_queue_def)
  show ?thesis
  proof (cases "Simplified_IsFull (sg_layout ?g)")
    case True
    then show ?thesis using full by (simp add: Send_eq [OF p] Simplified_GetPayloadSize_def Let_def)
  next
    case False
    obtain g' where send: "send_message fid (Some bs) plen ?g = (True, g')" and inv': "segment_inv n g'"
      and queue: "segment_queue g' = segment_queue ?g @ [sent_header fid plen]"
      and pay: "\<forall>k. segment_payload k g' = (case payload_written (Some bs) plen of
          None \<Rightarrow> segment_payload k ?g
        | Some xs \<Rightarrow> read_bytes (write_bytes (sg_memory ?g) (Simplified_GetPayload 0 0 (sg_layout ?g)) xs)
            (Simplified_GetPayload 0 0 (sg_layout ?g)) k)"
      using send_message_ok [OF inv False, of fid "Some bs" plen] by blast
    have "plen = 0 \<or> segment_payload (length bs) g' = bs"
      using pay plen by (auto simp: payload_written_def payload_after_write word_gt_0 unat_eq_0)
    then show ?thesis
      using False full send inv' queue
      by (simp add: Send_eq [OF p] Simplified_GetPayloadSize_def Let_def sent_header_def
          MsgHeader_IsValid_def kInvalidSeqId_def)
  qed
qed

text \<open>A producer on a fresh segment for six messages.\<close>

definition sample_env :: producer_env where
  "sample_env = \<lparr>pe_pid = 77, pe_name_time = 1, pe_layout_time = 1, pe_meta_time = 1,
     pe_shm_open_error = None, pe_ftruncate_error = None, pe_mmap_error = None,
     pe_posix = sample_os, pe_unlink_ok = True\<rparr>"

definition empty_world :: ipc_world where
  "empty_world = \<lparr>w_files = Map.empty, w_shm_names = Map.empty, w_segments = (\<lambda>_. fresh_segment), w_next = 0\<rparr>"

definition sample_world :: ipc_world where
  "sample_world = empty_world\<lparr>w_segments :=
     (\<lambda>_. \<lparr>sg_size = 4096, sg_layout = sample_simplified, sg_memory = (\<lambda>_. 0)\<rparr>)\<rparr>"

lemma sample_world_inv: "n < 2 ^ 64 \<Longrightarrow> segment_inv n (w_segments sample_world i)"
  by (simp add: segment_inv_def sample_world_def sample_simplified_inv)

lemma sample_layout_values:
  "sl_queue_capacity sample_simplified = 6" "sl_payload_size sample_simplified = 1024"
  "sl_write_idx sample_simplified = 0" "sl_read_idx sample_simplified = 0"
  by (simp_all add: sample_simplified_def Simplified_Initialize_def Let_def)

lemma sample_segment: "sg_layout (w_segments sample_world i) = sample_simplified"
  by (simp add: sample_world_def)

lemma sample_queue_empty: "segment_queue (w_segments sample_world i) = []"
  by (simp add: segment_queue_def sample_world_def Simplified_contents_def idx_contents_def
      sample_layout_values)

theorem Producer_send_exact_witness:
  "fst (Producer_Send 9 (Some [1, 2, 3]) 3 (created_producer sample_env ''f'' 6 1024 0, sample_world)) =
    Some Send_kSuccess"
proof -
  have inv: "segment_inv (Suc 0) (w_segments sample_world 0)" by (rule sample_world_inv) simp
  show ?thesis
    using Producer_send_exact [OF _ _ inv, of "created_producer sample_env ''f'' 6 1024 0" 3 "[1, 2, 3]" 9]
    by (auto simp: created_producer_def sample_queue_empty sample_segment sample_layout_values
        Simplified_GetPayloadSize_def Let_def split: prod.splits)
qed

text \<open>
  C28. A blocking send with a timeout above zero returns, and when it does. With sleeps between the
  polls that last at least the 100 microseconds asked for, \<open>10 * timeout_ms + 1\<close> polls are enough,
  whatever the consumer does in the meantime. A valid producer with a payload that fits sends at the
  first poll that finds space and reports a full queue only when the deadline has passed and
  every poll has found the queue full. (A timeout of zero is not covered: the header documents it as
  no timeout, the code as one poll.)
\<close>

theorem Producer_SendBlocking_returns:
  assumes apart: "polls_apart 100000 (map snd polls)" and start: "start \<le> snd (hd polls)"
    and timeout: "0 < timeout_ms" and many: "10 * unat timeout_ms < length polls"
  shows "case Producer_SendBlocking fid payload plen timeout_ms start polls (p, w) of (r, p', w') \<Rightarrow>
    r \<noteq> None \<and>
    (\<forall>i. pi_layout p = Mapped i \<and> pi_valid p \<and> plen \<le> sl_payload_size (sg_layout (w_segments w i)) \<longrightarrow>
      (let g = w_segments w i; deadline = start + unat timeout_ms * 1000000;
           seen = (\<lambda>k. g\<lparr>sg_layout := (sg_layout g)\<lparr>sl_read_idx := fst (polls ! k)\<rparr>\<rparr>)
       in p' = p \<and> (\<exists>k \<le> 10 * unat timeout_ms.
            (\<forall>j < k. Simplified_IsFull (sg_layout (seen j)) \<and> snd (polls ! j) < deadline) \<and>
            (if Simplified_IsFull (sg_layout (seen k))
             then deadline \<le> snd (polls ! k) \<and> r = Some Send_kQueueFull \<and> w' = update_segment i (\<lambda>_. seen k) w
             else r = Some Send_kSuccess \<and>
               w' = update_segment i (\<lambda>_. snd (send_message fid payload plen (seen k))) w))))"
proof -
  let ?d = "start + unat timeout_ms * 1000000"
  have t: "0 < unat timeout_ms" using timeout by (simp add: word_less_nat_alt)
  note wait_end = blocking_wait_exit [OF apart start t many]
  then have returns: "wait_for_space timeout_ms ?d L polls \<noteq> None" for L by (metis option.distinct(1))
  show ?thesis
  proof (cases "\<exists>i. pi_layout p = Mapped i \<and> pi_valid p \<and> plen \<le> sl_payload_size (sg_layout (w_segments w i))")
    case False
    then show ?thesis
      by (cases "pi_layout p")
        (auto simp: Producer_SendBlocking_def Producer_DoSend_def Simplified_GetPayloadSize_def Let_def not_less [symmetric]
          returns simp del: not_None_eq split: option.splits prod.splits)
  next
    case True
    then obtain i where p: "pi_layout p = Mapped i" "pi_valid p" and fits: "plen \<le> sl_payload_size (sg_layout (w_segments w i))"
      by blast
    obtain space k where k: "k \<le> 10 * unat timeout_ms"
      and wait: "wait_for_space timeout_ms ?d (sg_layout (w_segments w i)) polls = Some (space, fst (polls ! k))"
      and e: "space \<longleftrightarrow> \<not> Simplified_IsFull ((sg_layout (w_segments w i))\<lparr>sl_read_idx := fst (polls ! k)\<rparr>)"
        "\<not> space \<longrightarrow> ?d \<le> snd (polls ! k)"
        "\<forall>j < k. Simplified_IsFull ((sg_layout (w_segments w i))\<lparr>sl_read_idx := fst (polls ! j)\<rparr>) \<and> snd (polls ! j) < ?d"
      using wait_end by blast
    have small: "\<not> sl_payload_size (sg_layout (w_segments w i)) < plen" using fits by simp
    let ?g = "(w_segments w i)\<lparr>sg_layout := (sg_layout (w_segments w i))\<lparr>sl_read_idx := fst (polls ! k)\<rparr>\<rparr>"
    have ok: "space \<Longrightarrow> fst (send_message fid payload plen ?g)" using e(1) by (intro send_message_space) simp
    obtain ok' g' where send: "send_message fid payload plen ?g = (ok', g')" by (cases "send_message fid payload plen ?g")
    have "Producer_SendBlocking fid payload plen timeout_ms start polls (p, w) =
        (if space then (Some Send_kSuccess, p, update_segment i (\<lambda>_. g') w)
         else (Some Send_kQueueFull, p, update_segment i (\<lambda>_. ?g) w))"
      using p small wait ok send
      by (simp add: Producer_SendBlocking_def Producer_DoSend_def Simplified_GetPayloadSize_def Let_def update_segment_def)
    then show ?thesis using p k e send by (auto simp: Let_def)
  qed
qed

text \<open>A queue of six that is full for two polls; the consumer takes a message before the third.\<close>

theorem Producer_SendBlocking_returns_witness:
  "fst (Producer_SendBlocking 9 None 0 1 5 (map (\<lambda>k. (if k < 2 then 0 else 1, 5 + 100000 * k)) [0..<11])
     (created_producer sample_env ''f'' 6 1024 0,
      update_segment 0 (\<lambda>g. g\<lparr>sg_layout := (sg_layout g)\<lparr>sl_write_idx := 6\<rparr>\<rparr>) sample_world)) = Some Send_kSuccess"
proof -
  define polls :: "index_poll list" where "polls = map (\<lambda>k. (if k < 2 then 0 else 1, 5 + 100000 * k)) [0..<11]"
  define w where "w = update_segment 0 (\<lambda>g. g\<lparr>sg_layout := (sg_layout g)\<lparr>sl_write_idx := 6\<rparr>\<rparr>) sample_world"
  define p where "p = created_producer sample_env ''f'' 6 1024 0"
  have p: "pi_layout p = Mapped 0" "pi_valid p" by (simp_all add: p_def created_producer_def)
  have apart: "polls_apart 100000 (map snd polls)" "5 \<le> snd (hd polls)" "10 < length polls"
    by (simp_all add: polls_def upt_conv_Cons)
  have poll: "polls ! k = (if k < 2 then 0 else 1, 5 + 100000 * k)" if "k \<le> 10" for k
    using that by (simp add: polls_def del: upt_rec_numeral)
  have full: "Simplified_IsFull ((sg_layout (w_segments w 0))\<lparr>sl_read_idx := fst (polls ! k)\<rparr>) \<longleftrightarrow> k < 2"
    if "k \<le> 10" for k
    using that by (simp add: poll w_def update_segment_def sample_segment Simplified_IsFull_def sample_layout_values)
  obtain k where k: "k \<le> 10"
    and before: "\<forall>j < k. Simplified_IsFull ((sg_layout (w_segments w 0))\<lparr>sl_read_idx := fst (polls ! j)\<rparr>)"
    and at: "if k < 2 then 1000005 \<le> snd (polls ! k)
      else fst (Producer_SendBlocking 9 None 0 1 5 polls (p, w)) = Some Send_kSuccess"
    using Producer_SendBlocking_returns [OF apart(1,2), where timeout_ms = 1 and fid = 9 and payload = None
        and plen = 0 and p = p and w = w] p apart(3) full by (force simp: split_beta Let_def)
  have "k < 3" using before [rule_format, of 2] full [of 2] k by (cases "k < 3") auto
  then have "fst (Producer_SendBlocking 9 None 0 1 5 polls (p, w)) = Some Send_kSuccess"
    using at poll [OF k] by (simp split: if_splits)
  then show ?thesis by (simp only: polls_def p_def w_def)
qed

text \<open>
  \<open>Create\<close> from scratch: when no system call fails, the generated name is free and the sizes
  do not wrap around, the producer is valid, its segment holds an empty queue of the requested
  capacity and payload size that is good for any number of messages, the segment has exactly
  the calculated size, and the coordination file describes it; no other file and no other
  segment name is affected.
\<close>

theorem Producer_Create_correct:
  assumes env: "creation_possible env path w" and fits: "320 + 16 * unat c + unat plen < 2 ^ 64"
    and pos: "0 < unat c"
  shows "case Producer_Create env path c plen w of
      (Some p, w') \<Rightarrow>
        Producer_IsValid p \<and> pi_layout p = Mapped (w_next w) \<and>
        w_shm_names w' = (w_shm_names w)(Producer_GetShmName p \<mapsto> w_next w) \<and>
        segment_inv (2 ^ 64 - 1) (w_segments w' (w_next w)) \<and>
        segment_queue (w_segments w' (w_next w)) = [] \<and>
        Producer_AvailableSpace p w' = c \<and> Producer_QueueCapacity p w' = c \<and>
        unat (sg_size (w_segments w' (w_next w))) = 320 + 16 * unat c + unat plen \<and>
        w_files w' = (w_files w)(path \<mapsto> Coord_json (Producer_metadata env c plen p))
    | (None, _) \<Rightarrow> False"
proof -
  let ?p = "created_producer env path c plen (w_next w)"
  from Create_succeeds [OF assms] obtain w' L where
    create: "Producer_Create env path c plen w = (Some ?p, w')"
    and seg: "w_segments w' (w_next w) =
      \<lparr>sg_size = Simplified_CalculateSize c plen, sg_layout = L, sg_memory = (\<lambda>_. 0)\<rparr>"
    and init: "Simplified_Initialize (pe_layout_time env) (Simplified_CalculateSize c plen) c plen
      (pe_pid env) Simplified_construct = (True, L)"
    and names: "w_shm_names w' = (w_shm_names w)(pi_shm_name ?p \<mapsto> w_next w)"
    and files: "w_files w' = (w_files w)(path \<mapsto> Coord_json (Producer_metadata env c plen ?p))"
    by blast
  note size = CalculateSize_exact [OF fits]
  then have room: "320 + 16 * unat c + unat plen \<le> unat (Simplified_CalculateSize c plen)" by simp
  note facts = Initialize_inv [OF fits room pos init, of "2 ^ 64 - 1"]
  have idx: "sl_write_idx L = sl_read_idx L" using facts(2) by (simp add: Simplified_IsEmpty_def)
  have "Producer_AvailableSpace ?p w' = c"
    using seg facts(3) idx by (simp add: Producer_AvailableSpace_def created_producer_def Simplified_FreeSpace_def)
  moreover have "Producer_QueueCapacity ?p w' = c"
    using seg facts(3) by (simp add: Producer_QueueCapacity_def created_producer_def Simplified_GetQueueCapacity_def)
  moreover have "segment_inv (2 ^ 64 - 1) (w_segments w' (w_next w))"
    using seg facts(1) by (simp add: segment_inv_def)
  moreover have "segment_queue (w_segments w' (w_next w)) = []"
    using seg idx by (simp add: segment_queue_def Simplified_contents_def idx_contents_def)
  ultimately show ?thesis
    using create seg names files size
    by (simp add: Producer_IsValid_def Producer_GetShmName_def) (simp add: created_producer_def)
qed

lemma sample_creation_possible: "creation_possible sample_env ''f'' empty_world"
  by (simp add: creation_possible_def sample_env_def empty_world_def sample_os_def mkstemp_fresh_def fun_eq_iff)

theorem Producer_Create_correct_witness:
  "fst (Producer_Create sample_env ''f'' 6 1024 empty_world) \<noteq> None"
  using Producer_Create_correct [OF sample_creation_possible, of 6 1024]
  by (auto split: option.splits prod.splits)

text \<open>
  A failed creation deletes the coordination file of whoever owns it. When \<open>shm_open\<close> fails,
  \<open>Create\<close> returns null, but \<open>Initialize\<close> has already recorded the path, and the destructor
  deletes the file there, which may announce a running producer.
\<close>

theorem Producer_failed_create_deletes_file:
  assumes "pe_shm_open_error env = Some e" and "pe_unlink_ok env" and "path \<noteq> []"
    and "Simplified_CalculateSize c plen \<noteq> 0"
  shows "Producer_Create env path c plen w = (None, w\<lparr>w_files := (w_files w)(path := None)\<rparr>)"
  using assms
  by (auto simp: Producer_Create_def Producer_Initialize_def Producer_Cleanup_def Producer_wrapper_defs Let_def
      Producer_construct_def Coord_Delete_def fun_upd_idem)

theorem Producer_failed_create_deletes_file_witness:
  "w_files (snd (Producer_Create (sample_env\<lparr>pe_shm_open_error := Some ''Too many open files''\<rparr>) ''f'' 6 1024
     (empty_world\<lparr>w_files := [''f'' \<mapsto> ''of another producer'']\<rparr>))) = Map.empty"
  by (subst Producer_failed_create_deletes_file)
    (simp_all add: sample_env_def Simplified_CalculateSize_def fun_eq_iff)

end
