(* ===== verification/Phoenix_Consumer.thy ===== *)
theory Phoenix_Consumer
  imports Phoenix_Producer
begin

text \<open>
  The consumer of \<open>include/phoenix/ipc/phoenix_consumer.hpp\<close> and \<open>src/ipc/phoenix_consumer.cpp\<close>,
  in the conventions of \<open>Phoenix_Producer\<close>. A receive reads the header again after the pop,
  when the producer may already have reused the slot: the argument \<open>meanwhile\<close> is what the
  producer does to the segment between the pop and that read.
\<close>

datatype ReceiveResult = Receive_kSuccess | Receive_kQueueEmpty | Receive_kShmClosed | Receive_kError

primrec ReceiveResult_code :: "ReceiveResult \<Rightarrow> int" where
  "ReceiveResult_code Receive_kSuccess = 0"
| "ReceiveResult_code Receive_kQueueEmpty = 1"
| "ReceiveResult_code Receive_kShmClosed = 2"
| "ReceiveResult_code Receive_kError = 3"

record ConsumerImpl =
  ci_coord_file_path :: string
  ci_shm_name :: string
  ci_shm_fd :: "nat option"
  ci_shm_addr :: mapping_ptr
  ci_shm_size :: u64
  ci_layout :: mapping_ptr
  ci_last_error :: string
  ci_valid :: bool
  ci_producer_pid :: pid

definition Consumer_construct :: ConsumerImpl where
  "Consumer_construct =
     \<lparr>ci_coord_file_path = [], ci_shm_name = [], ci_shm_fd = None, ci_shm_addr = Null, ci_shm_size = 0,
      ci_layout = Null, ci_last_error = [], ci_valid = False, ci_producer_pid = 0\<rparr>"

text \<open>\<open>ce_enoent\<close> is the text of \<open>strerror(ENOENT)\<close>; \<open>ce_metadata\<close> is what the uninitialised
  metadata of \<open>Initialize\<close> holds before \<open>Read\<close> fills it. A call of the system that fails for a
  reason of its own comes with its error text.\<close>

record consumer_env =
  ce_metadata :: CoordinationMetadata
  ce_enoent :: string
  ce_shm_open_error :: "string option"
  ce_mmap_error :: "string option"

definition attach_calls_ok :: "consumer_env \<Rightarrow> bool" where
  "attach_calls_ok env \<longleftrightarrow> ce_shm_open_error env = None \<and> ce_mmap_error env = None"

text \<open>\<open>shm_open\<close> without \<open>O_CREAT\<close>: the error text, or the segment of that name.\<close>

definition shm_open_existing :: "consumer_env \<Rightarrow> string \<Rightarrow> ipc_world \<Rightarrow> string + nat" where
  "shm_open_existing env name w =
     (case ce_shm_open_error env of
        Some e \<Rightarrow> Inl e
      | None \<Rightarrow> (case w_shm_names w name of None \<Rightarrow> Inl (ce_enoent env) | Some i \<Rightarrow> Inr i))"

section \<open>Construction and destruction\<close>

definition Consumer_Cleanup :: "ConsumerImpl \<times> ipc_world \<Rightarrow> ConsumerImpl \<times> ipc_world" where
  "Consumer_Cleanup s =
     (let (c, w) = s;
          c = c\<lparr>ci_valid := False\<rparr>;
          c = (if ci_shm_addr c \<noteq> Null \<and> ci_shm_addr c \<noteq> Map_failed then c\<lparr>ci_shm_addr := Null\<rparr> else c);
          c = (if ci_shm_fd c \<noteq> None then c\<lparr>ci_shm_fd := None\<rparr> else c);
          (c, w) = (if ci_shm_name c \<noteq> [] then (c\<lparr>ci_shm_name := []\<rparr>, shm_unlink (ci_shm_name c) w)
                    else (c, w))
      in (c\<lparr>ci_layout := Null\<rparr>, w))"

text \<open>The result of \<open>Initialize\<close>, or the exception that leaves it.\<close>

definition Consumer_Initialize ::
  "consumer_env \<Rightarrow> string \<Rightarrow> ConsumerImpl \<times> ipc_world \<Rightarrow>
   (cpp_exception + bool) \<times> ConsumerImpl \<times> ipc_world" where
  "Consumer_Initialize env coord_file s =
     (let (c, w) = s;
          c = c\<lparr>ci_coord_file_path := coord_file\<rparr>
      in case Coord_Read (w_files w) coord_file (ce_metadata env) of
           (Threw e, _) \<Rightarrow> (Inl e, c, w)
         | (Returned result, metadata) \<Rightarrow>
             if result \<noteq> kSuccess then
               (Inr False, c\<lparr>ci_last_error := ''Failed to read coordination file: ''
                  @ Coord_ResultToString result\<rparr>, w)
             else
               let c = c\<lparr>ci_shm_name := cm_shm_name metadata, ci_shm_size := cm_shm_size metadata\<rparr>
               in case shm_open_existing env (ci_shm_name c) w of
                    Inl e \<Rightarrow> (Inr False, c\<lparr>ci_last_error := ''shm_open failed: '' @ e\<rparr>, w)
                  | Inr i \<Rightarrow>
                      (case ce_mmap_error env of
                         Some e \<Rightarrow> (Inr False, c\<lparr>ci_shm_addr := Map_failed,
                             ci_last_error := ''mmap failed: '' @ e, ci_shm_fd := None\<rparr>, w)
                       | None \<Rightarrow>
                           let c = c\<lparr>ci_shm_fd := Some i, ci_shm_addr := Mapped i\<rparr>
                           in case SimplifiedFactory_Get (sg_layout (w_segments w i)) of
                                None \<Rightarrow>
                                  let (c, w) = Consumer_Cleanup (c\<lparr>ci_last_error := ''Failed to get layout''\<rparr>, w)
                                  in (Inr False, c, w)
                              | Some L \<Rightarrow>
                                  (Inr True, c\<lparr>ci_layout := Mapped i,
                                     ci_producer_pid := Simplified_GetProducerPid L, ci_valid := True\<rparr>, w)))"

text \<open>\<open>Consumer\<close> forwards to the struct behind its pointer as \<open>Producer\<close> does.\<close>

definition ConsumerImpl_destroy :: "ConsumerImpl \<times> ipc_world \<Rightarrow> ConsumerImpl \<times> ipc_world" where
  "ConsumerImpl_destroy s = Consumer_Cleanup s"

definition Consumer_Cleanup_outer :: "ConsumerImpl \<times> ipc_world \<Rightarrow> ConsumerImpl \<times> ipc_world" where
  "Consumer_Cleanup_outer s = Consumer_Cleanup s"

definition Consumer_Initialize_outer ::
  "consumer_env \<Rightarrow> string \<Rightarrow> ConsumerImpl \<times> ipc_world \<Rightarrow> (cpp_exception + bool) \<times> ConsumerImpl \<times> ipc_world" where
  "Consumer_Initialize_outer env coord_file s = Consumer_Initialize env coord_file s"

definition Consumer_destroy :: "ConsumerImpl \<times> ipc_world \<Rightarrow> ipc_world" where
  "Consumer_destroy s = snd (ConsumerImpl_destroy (Consumer_Cleanup_outer s))"

text \<open>\<open>Attach\<close> returns the consumer or null, or throws; unless it returns the consumer, the unique
  pointer runs the destructors.\<close>

definition Consumer_Attach ::
  "consumer_env \<Rightarrow> string \<Rightarrow> ipc_world \<Rightarrow> (cpp_exception + ConsumerImpl option) \<times> ipc_world" where
  "Consumer_Attach env coord_file w =
     (case Consumer_Initialize_outer env coord_file (Consumer_construct, w) of
        (Inl e, c, w) \<Rightarrow> (Inl e, Consumer_destroy (c, w))
      | (Inr ok, c, w) \<Rightarrow>
          if \<not> ok then (Inr None, Consumer_destroy (c, w))
          else (Inr (Some c), w))"

lemmas Consumer_wrapper_defs =
  ConsumerImpl_destroy_def Consumer_Cleanup_outer_def Consumer_Initialize_outer_def Consumer_destroy_def

section \<open>Receiving\<close>

text \<open>\<open>kill0 p\<close> tells whether \<open>kill(p, 0)\<close> returns 0.\<close>

definition Consumer_IsProducerAlive :: "(pid \<Rightarrow> bool) \<Rightarrow> ConsumerImpl \<Rightarrow> bool" where
  "Consumer_IsProducerAlive kill0 c \<longleftrightarrow>
     (if ci_producer_pid c = 0 then False else kill0 (ci_producer_pid c))"

text \<open>
  One round of the waiting loop: what \<open>kill\<close> answers, the segment as the producer has left it by
  then, and the value of the steady clock. The rounds are used up before the loop ends when the
  result is None.
\<close>

record receive_poll =
  rp_kill0 :: "pid \<Rightarrow> bool"
  rp_segment :: Segment
  rp_now :: nat

datatype receive_wait = Producer_gone Segment | Wait_empty Segment | Message_ready Segment

fun wait_for_message ::
  "ConsumerImpl \<Rightarrow> u32 \<Rightarrow> nat \<Rightarrow> receive_poll list \<Rightarrow> receive_wait option" where
  "wait_for_message c timeout_ms deadline [] = None"
| "wait_for_message c timeout_ms deadline (poll # polls) =
     (if \<not> Consumer_IsProducerAlive (rp_kill0 poll) c then Some (Producer_gone (rp_segment poll))
      else if \<not> Simplified_IsEmpty (sg_layout (rp_segment poll)) then Some (Message_ready (rp_segment poll))
      else if timeout_ms = 0 then Some (Wait_empty (rp_segment poll))
      else if rp_now poll \<ge> deadline then Some (Wait_empty (rp_segment poll))
      else wait_for_message c timeout_ms deadline polls)"

text \<open>Peek, copy of the payload, pop, and the second read of the header. The bytes copied to the
  payload buffer are part of the result; \<open>want_payload\<close> says that the buffer is not null.\<close>

definition take_message ::
  "bool \<Rightarrow> (Segment \<Rightarrow> Segment) \<Rightarrow> Segment \<Rightarrow> MsgHeader option \<times> u8 list \<times> Segment" where
  "take_message want_payload meanwhile g =
     (let L = sg_layout g; m = sg_memory g
      in case Simplified_Peek 0 L of
           None \<Rightarrow> (None, [], g)
         | Some header \<Rightarrow>
             let plen = payload_len (object_at MsgHeader_type m header);
                 buffer = (if plen > 0 \<and> want_payload
                           then read_bytes m (Simplified_GetPayload 0 0 L) (unat plen) else []);
                 (ok, L) = Simplified_Pop L;
                 g = g\<lparr>sg_layout := L\<rparr>
             in if \<not> ok then (None, buffer, g)
                else let g = meanwhile g
                     in (Some (object_at MsgHeader_type (sg_memory g) header), buffer, g))"

definition Consumer_DoReceive ::
  "bool \<Rightarrow> u32 \<Rightarrow> nat \<Rightarrow> receive_poll list \<Rightarrow> (pid \<Rightarrow> bool) \<Rightarrow> (Segment \<Rightarrow> Segment) \<Rightarrow>
   ConsumerImpl \<times> ipc_world \<Rightarrow> (MsgHeader option \<times> u8 list) option \<times> ConsumerImpl \<times> ipc_world" where
  "Consumer_DoReceive want_payload timeout_ms start polls kill0 meanwhile s =
     (let (c, w) = s
      in case ci_layout c of
           Mapped i \<Rightarrow>
             if \<not> ci_valid c then (Some (None, []), c, w)
             else
               let deadline = start + unat timeout_ms * 1000000
               in case wait_for_message c timeout_ms deadline polls of
                    None \<Rightarrow> (None, c, w)
                  | Some (Producer_gone g) \<Rightarrow>
                      (Some (None, []), c\<lparr>ci_last_error := ''Producer has exited''\<rparr>, update_segment i (\<lambda>_. g) w)
                  | Some (Wait_empty g) \<Rightarrow> (Some (None, []), c, update_segment i (\<lambda>_. g) w)
                  | Some (Message_ready g) \<Rightarrow>
                      if \<not> Consumer_IsProducerAlive kill0 c
                      then (Some (None, []), c\<lparr>ci_last_error := ''Producer has exited''\<rparr>, update_segment i (\<lambda>_. g) w)
                      else let (h, buffer, g) = take_message want_payload meanwhile g
                           in (Some (h, buffer), c, update_segment i (\<lambda>_. g) w)
         | _ \<Rightarrow> (Some (None, []), c, w))"

text \<open>\<open>Receive\<close> makes one round, on the segment as it is.\<close>

definition Consumer_Receive ::
  "bool \<Rightarrow> (pid \<Rightarrow> bool) \<Rightarrow> (Segment \<Rightarrow> Segment) \<Rightarrow> ConsumerImpl \<times> ipc_world \<Rightarrow>
   (MsgHeader option \<times> u8 list) option \<times> ConsumerImpl \<times> ipc_world" where
  "Consumer_Receive want_payload kill0 meanwhile s =
     Consumer_DoReceive want_payload 0 0
       (case ci_layout (fst s) of
          Mapped i \<Rightarrow> [\<lparr>rp_kill0 = kill0, rp_segment = w_segments (snd s) i, rp_now = 0\<rparr>] | _ \<Rightarrow> [])
       kill0 meanwhile s"

definition Consumer_ReceiveBlocking ::
  "bool \<Rightarrow> u32 \<Rightarrow> nat \<Rightarrow> receive_poll list \<Rightarrow> (pid \<Rightarrow> bool) \<Rightarrow> (Segment \<Rightarrow> Segment) \<Rightarrow>
   ConsumerImpl \<times> ipc_world \<Rightarrow> (MsgHeader option \<times> u8 list) option \<times> ConsumerImpl \<times> ipc_world" where
  "Consumer_ReceiveBlocking want_payload timeout_ms start polls kill0 meanwhile s =
     Consumer_DoReceive want_payload timeout_ms start polls kill0 meanwhile s"

definition Consumer_ReceiveBlocking_default ::
  "bool \<Rightarrow> nat \<Rightarrow> receive_poll list \<Rightarrow> (pid \<Rightarrow> bool) \<Rightarrow> (Segment \<Rightarrow> Segment) \<Rightarrow>
   ConsumerImpl \<times> ipc_world \<Rightarrow> (MsgHeader option \<times> u8 list) option \<times> ConsumerImpl \<times> ipc_world" where
  "Consumer_ReceiveBlocking_default want_payload start polls kill0 meanwhile s =
     Consumer_ReceiveBlocking want_payload 5000 start polls kill0 meanwhile s"

section \<open>Queries\<close>

definition Consumer_AvailableMessages :: "ConsumerImpl \<Rightarrow> ipc_world \<Rightarrow> u64" where
  "Consumer_AvailableMessages c w =
     (if \<not> ci_valid c then 0
      else case ci_layout c of Mapped i \<Rightarrow> Simplified_Available (sg_layout (w_segments w i)) | _ \<Rightarrow> 0)"

definition Consumer_QueueCapacity :: "ConsumerImpl \<Rightarrow> ipc_world \<Rightarrow> u64" where
  "Consumer_QueueCapacity c w =
     (if \<not> ci_valid c then 0
      else case ci_layout c of Mapped i \<Rightarrow> Simplified_GetQueueCapacity (sg_layout (w_segments w i)) | _ \<Rightarrow> 0)"

definition Consumer_IsValid :: "ConsumerImpl \<Rightarrow> bool" where
  "Consumer_IsValid c \<longleftrightarrow> ci_valid c"

definition Consumer_GetCoordFilePath :: "ConsumerImpl \<Rightarrow> string" where
  "Consumer_GetCoordFilePath c = ci_coord_file_path c"

definition Consumer_GetShmName :: "ConsumerImpl \<Rightarrow> string" where
  "Consumer_GetShmName c = ci_shm_name c"

definition Consumer_GetPayloadSize :: "ConsumerImpl \<Rightarrow> ipc_world \<Rightarrow> u64" where
  "Consumer_GetPayloadSize c w =
     (if \<not> ci_valid c then 0
      else case ci_layout c of Mapped i \<Rightarrow> Simplified_GetPayloadSize (sg_layout (w_segments w i)) | _ \<Rightarrow> 0)"

definition Consumer_GetLastError :: "ConsumerImpl \<Rightarrow> string" where
  "Consumer_GetLastError c = ci_last_error c"

definition Consumer_SetError :: "string \<Rightarrow> ConsumerImpl \<Rightarrow> ConsumerImpl" where
  "Consumer_SetError error c = c\<lparr>ci_last_error := error\<rparr>"

section \<open>What a receive does\<close>

lemma take_message_empty:
  "segment_queue g = [] \<Longrightarrow> take_message b f g = (None, [], g)"
  using length_Simplified_contents [of 0 "sg_layout g" "sg_memory g"]
  by (simp add: take_message_def Let_def Simplified_Peek_eq segment_queue_def)

lemma take_message_front:
  assumes queue: "segment_queue g = h # hs"
  shows "take_message want meanwhile g =
    (let g1 = g\<lparr>sg_layout := Simplified_ForceAdvanceReadIndex 1 (sg_layout g)\<rparr>; g2 = meanwhile g1
     in (Some (object_at MsgHeader_type (sg_memory g2) (Simplified_GetMessage 0 (sl_read_idx (sg_layout g)) (sg_layout g))),
         if payload_len h > 0 \<and> want then segment_payload (unat (payload_len h)) g else [], g2))"
    and "object_at MsgHeader_type (sg_memory g) (Simplified_GetMessage 0 (sl_read_idx (sg_layout g)) (sg_layout g)) = h"
    and "segment_queue (g\<lparr>sg_layout := Simplified_ForceAdvanceReadIndex 1 (sg_layout g)\<rparr>) = hs"
proof -
  let ?L = "sg_layout g"
  have len: "unat (Simplified_Available ?L) = Suc (length hs)"
    using queue length_Simplified_contents [of 0 ?L "sg_memory g"] by (simp add: segment_queue_def)
  then have peek: "Simplified_Peek 0 ?L = Some (Simplified_GetMessage 0 (sl_read_idx ?L) ?L)"
    by (simp add: Simplified_Peek_eq)
  have pop: "Simplified_Pop ?L = (True, Simplified_ForceAdvanceReadIndex 1 ?L)"
    using len by (intro Simplified_Pop_nonempty) simp
  have "Simplified_front 0 (?L, sg_memory g) = Some h"
    using queue by (simp add: Simplified_front_eq segment_queue_def)
  then show front: "object_at MsgHeader_type (sg_memory g) (Simplified_GetMessage 0 (sl_read_idx ?L) ?L) = h"
    by (simp add: Simplified_front_def peek)
  show "segment_queue (g\<lparr>sg_layout := Simplified_ForceAdvanceReadIndex 1 ?L\<rparr>) = hs"
    using queue len Simplified_Advance_contents [of 1 ?L 0 "sg_memory g"] by (simp add: segment_queue_def)
  show "take_message want meanwhile g =
    (let g1 = g\<lparr>sg_layout := Simplified_ForceAdvanceReadIndex 1 ?L\<rparr>; g2 = meanwhile g1
     in (Some (object_at MsgHeader_type (sg_memory g2) (Simplified_GetMessage 0 (sl_read_idx ?L) ?L)),
         if payload_len h > 0 \<and> want then segment_payload (unat (payload_len h)) g else [], g2))"
    by (simp add: take_message_def peek pop front Let_def segment_payload_def)
qed

lemma segment_inv_pop:
  assumes "segment_inv n g" and "segment_queue g \<noteq> []"
  shows "segment_inv n (g\<lparr>sg_layout := Simplified_ForceAdvanceReadIndex 1 (sg_layout g)\<rparr>)"
proof -
  have "0 < length (segment_queue g)" using assms(2) by simp
  then have "unat (1 :: u64) \<le> unat (Simplified_Available (sg_layout g))"
    by (simp add: segment_queue_def)
  then show ?thesis using assms(1) by (simp add: segment_inv_def Simplified_Advance_inv)
qed

text \<open>Taking the front of a non-empty queue: the header is read once more after \<open>meanwhile\<close>.\<close>

lemma take_message_result:
  assumes queue: "segment_queue g = h # hs"
  shows "\<exists>g1 h'. take_message want meanwhile g =
      (Some h', if want then segment_payload (unat (payload_len h)) g else [], meanwhile g1) \<and>
    sg_memory g1 = sg_memory g \<and> segment_queue g1 = hs \<and> (segment_inv n g \<longrightarrow> segment_inv n g1) \<and>
    h' = object_at MsgHeader_type (sg_memory (meanwhile g1)) (Simplified_GetMessage 0 (sl_read_idx (sg_layout g)) (sg_layout g)) \<and>
    h = object_at MsgHeader_type (sg_memory g) (Simplified_GetMessage 0 (sl_read_idx (sg_layout g)) (sg_layout g))"
proof -
  have "unat (payload_len h) = 0 \<Longrightarrow> segment_payload (unat (payload_len h)) g = []"
    by (simp add: segment_payload_def read_bytes_def)
  then show ?thesis
    using take_message_front [OF queue] segment_inv_pop [of n g] queue
    by (intro exI [of _ "g\<lparr>sg_layout := Simplified_ForceAdvanceReadIndex 1 (sg_layout g)\<rparr>"])
      (simp add: Let_def word_gt_0 unat_eq_0)
qed

lemma Receive_eq:
  assumes "ci_layout c = Mapped i" and "ci_valid c"
  shows "Consumer_Receive want kill0 meanwhile (c, w) =
    (if \<not> Consumer_IsProducerAlive kill0 c
     then (Some (None, []), c\<lparr>ci_last_error := ''Producer has exited''\<rparr>, w)
     else if segment_queue (w_segments w i) = [] then (Some (None, []), c, w)
     else let (h, buffer, g) = take_message want meanwhile (w_segments w i)
          in (Some (h, buffer), c, update_segment i (\<lambda>_. g) w))"
proof -
  have "Simplified_IsEmpty (sg_layout g) \<longleftrightarrow> segment_queue g = []" for g
    using Simplified_Available_0 [of "sg_layout g"] length_0_conv [of "segment_queue g"]
    by (simp add: segment_queue_def Simplified_IsEmpty_def del: length_0_conv)
  then show ?thesis
    using assms
    by (simp add: Consumer_Receive_def Consumer_DoReceive_def update_segment_same split_beta Let_def)
qed

lemma receive_wait_returns:
  assumes "polls_apart 100000 (map rp_now polls)" and "polls \<noteq> []"
    and "deadline \<le> rp_now (hd polls) + 100000 * (length polls - 1)"
  shows "wait_for_message c timeout_ms deadline polls \<noteq> None"
  using assms
proof (induction polls)
  case Nil
  then show ?case by simp
next
  case (Cons p polls)
  show ?case
  proof (cases polls)
    case Nil
    then show ?thesis using Cons.prems by simp
  next
    case (Cons q qs)
    then have "polls_apart 100000 (map rp_now polls)" and "rp_now p + 100000 \<le> rp_now (hd polls)"
      using Cons.prems(1) by simp_all
    then have "wait_for_message c timeout_ms deadline polls \<noteq> None"
      using Cons.IH Cons.prems(3) \<open>polls = q # qs\<close> by simp
    then show ?thesis by simp
  qed
qed

text \<open>What the last round of the wait has seen.\<close>

definition round_end :: "ConsumerImpl \<Rightarrow> nat \<Rightarrow> receive_poll \<Rightarrow> receive_wait \<Rightarrow> bool" where
  "round_end c deadline poll r \<longleftrightarrow>
     (if \<not> Consumer_IsProducerAlive (rp_kill0 poll) c then r = Producer_gone (rp_segment poll)
      else if segment_queue (rp_segment poll) \<noteq> [] then r = Message_ready (rp_segment poll)
      else deadline \<le> rp_now poll \<and> r = Wait_empty (rp_segment poll))"

lemma IsEmpty_queue: "Simplified_IsEmpty (sg_layout g) \<longleftrightarrow> segment_queue g = []"
  using Simplified_Available_0 [of "sg_layout g"] length_0_conv [of "segment_queue g"]
  by (simp add: segment_queue_def Simplified_IsEmpty_def del: length_0_conv)

lemma receive_exit:
  assumes "wait_for_message c timeout_ms deadline polls = Some r" and "0 < unat timeout_ms"
  shows "\<exists>k < length polls. round_end c deadline (polls ! k) r \<and>
    (\<forall>j < k. Consumer_IsProducerAlive (rp_kill0 (polls ! j)) c \<and>
      segment_queue (rp_segment (polls ! j)) = [] \<and> rp_now (polls ! j) < deadline)"
  using assms
proof (induction polls)
  case Nil
  then show ?case by simp
next
  case (Cons p polls)
  show ?case
  proof (cases "Consumer_IsProducerAlive (rp_kill0 p) c \<and> segment_queue (rp_segment p) = [] \<and> rp_now p < deadline")
    case True
    then have "wait_for_message c timeout_ms deadline polls = Some r"
      using Cons.prems by (auto simp: IsEmpty_queue split: if_splits)
    from Cons.IH [OF this Cons.prems(2)] obtain k where k: "k < length polls" "round_end c deadline (polls ! k) r"
      "\<forall>j < k. Consumer_IsProducerAlive (rp_kill0 (polls ! j)) c \<and>
        segment_queue (rp_segment (polls ! j)) = [] \<and> rp_now (polls ! j) < deadline" by blast
    then show ?thesis
      using True by (intro exI [of _ "Suc k"]) (auto simp: nth_Cons split: nat.splits)
  next
    case False
    then show ?thesis
      using Cons.prems by (intro exI [of _ 0]) (auto simp: round_end_def IsEmpty_queue split: if_splits)
  qed
qed

lemma blocking_receive_exit:
  assumes apart: "polls_apart 100000 (map rp_now polls)" and start: "start \<le> rp_now (hd polls)"
    and t: "0 < unat timeout_ms" and many: "10 * unat timeout_ms < length polls"
  shows "\<exists>k r. k \<le> 10 * unat timeout_ms \<and>
    wait_for_message c timeout_ms (start + unat timeout_ms * 1000000) polls = Some r \<and>
    round_end c (start + unat timeout_ms * 1000000) (polls ! k) r \<and>
    (\<forall>j < k. Consumer_IsProducerAlive (rp_kill0 (polls ! j)) c \<and>
      segment_queue (rp_segment (polls ! j)) = [] \<and> rp_now (polls ! j) < start + unat timeout_ms * 1000000)"
proof -
  let ?d = "start + unat timeout_ms * 1000000"
  have ne: "polls \<noteq> []" using many by auto
  have "unat timeout_ms * 1000000 \<le> 100000 * (length polls - 1)" using many by simp
  then have "wait_for_message c timeout_ms ?d polls \<noteq> None"
    using apart ne start by (intro receive_wait_returns) simp_all
  then obtain r where wait: "wait_for_message c timeout_ms ?d polls = Some r" by fast
  from receive_exit [OF this t] obtain k where k: "k < length polls" "round_end c ?d (polls ! k) r"
    "\<forall>j < k. Consumer_IsProducerAlive (rp_kill0 (polls ! j)) c \<and>
      segment_queue (rp_segment (polls ! j)) = [] \<and> rp_now (polls ! j) < ?d" by blast
  have "k \<le> 10 * unat timeout_ms"
    using k start ne by (intro polls_before_deadline [OF apart]) (auto simp: hd_map)
  then show ?thesis using wait k by blast
qed

subsection \<open>A successful send\<close>

definition message :: "u32 \<Rightarrow> u8 list \<Rightarrow> MsgHeader" where
  "message fid bs = \<lparr>seq_id = 0, func_id = fid, payload_len = of_nat (length bs)\<rparr>"

lemma sent_header_message:
  assumes "length bs < 2 ^ 32"
  shows "sent_header fid (of_nat (length bs)) = message fid bs"
    and "unat (payload_len (message fid bs)) = length bs"
proof -
  have "(ucast (of_nat (length bs) :: u64) :: u32) = of_nat (length bs)"
    using assms by (simp add: unsigned_of_nat take_bit_nat_eq_self)
  then show "sent_header fid (of_nat (length bs)) = message fid bs"
    by (simp add: sent_header_def message_def)
  show "unat (payload_len (message fid bs)) = length bs"
    using assms by (simp add: message_def unat_of_nat take_bit_nat_eq_self)
qed

lemma segment_not_full:
  assumes "segment_inv n g" and "length (segment_queue g) < unat (sl_queue_capacity (sg_layout g))"
  shows "\<not> Simplified_IsFull (sg_layout g)"
  using assms by (simp add: Simplified_IsFull_iff segment_queue_def)

lemma send_message_layout:
  "send_message fid payload plen g = (True, g') \<Longrightarrow>
    sg_layout g' = (sg_layout g)\<lparr>sl_write_idx := sl_write_idx (sg_layout g) + 1\<rparr>"
  by (auto simp: send_message_def Simplified_Push_def Let_def split: if_splits option.splits)

lemma send_ok:
  assumes p: "pi_layout p = Mapped i" "pi_valid p" and inv: "segment_inv (Suc n) (w_segments w i)"
    and room: "length (segment_queue (w_segments w i)) < unat (sl_queue_capacity (sg_layout (w_segments w i)))"
    and fits: "length bs \<le> unat (sl_payload_size (sg_layout (w_segments w i)))" and len: "length bs < 2 ^ 32"
  shows "\<exists>g. Producer_Send fid (Some bs) (of_nat (length bs)) (p, w) =
      (Some Send_kSuccess, p, update_segment i (\<lambda>_. g) w) \<and>
    segment_inv n g \<and> segment_queue g = segment_queue (w_segments w i) @ [message fid bs] \<and>
    (\<forall>k \<le> length bs. segment_payload k g = take k bs) \<and>
    sg_layout g = (sg_layout (w_segments w i))\<lparr>sl_write_idx := sl_write_idx (sg_layout (w_segments w i)) + 1\<rparr>"
proof -
  let ?g = "w_segments w i" and ?n = "of_nat (length bs) :: u64"
  note space = segment_not_full [OF inv room]
  have n: "unat ?n = length bs" using len by (intro unat_of_nat_u64) simp
  then have small: "\<not> sl_payload_size (sg_layout ?g) < ?n" using fits by (simp add: word_less_nat_alt)
  obtain g where send: "send_message fid (Some bs) ?n ?g = (True, g)" and inv': "segment_inv n g"
    and queue: "segment_queue g = segment_queue ?g @ [sent_header fid ?n]"
    and pay: "\<forall>k. segment_payload k g = (case payload_written (Some bs) ?n of
        None \<Rightarrow> segment_payload k ?g
      | Some xs \<Rightarrow> read_bytes (write_bytes (sg_memory ?g) (Simplified_GetPayload 0 0 (sg_layout ?g)) xs)
          (Simplified_GetPayload 0 0 (sg_layout ?g)) k)"
    using send_message_ok [OF inv space, of fid "Some bs" ?n] by blast
  have "segment_payload k g = take k bs" if "k \<le> length bs" for k
  proof (cases "length bs = 0")
    case True
    then show ?thesis using that by (simp add: segment_payload_def read_bytes_def)
  next
    case False
    then have "0 < ?n" using n by (simp add: word_less_nat_alt)
    then show ?thesis using pay that n by (simp add: payload_written_def read_write_prefix)
  qed
  moreover note send_message_layout [OF send]
  ultimately show ?thesis
    using send small space inv' queue sent_header_message [OF len]
    by (intro exI [of _ g]) (simp add: Send_eq [OF p])
qed

text \<open>In a full queue the slot of the oldest message is the slot of the next one.\<close>

lemma full_queue_slot:
  assumes "Simplified_inv n L" and "unat (Simplified_Available L) = unat (sl_queue_capacity L)"
  shows "Simplified_GetMessage this (sl_write_idx L) L = Simplified_GetMessage this (sl_read_idx L) L"
proof -
  have w: "sl_write_idx L = sl_read_idx L + of_nat (unat (Simplified_Available L))"
    by (simp add: Simplified_Available_def)
  have "unat (sl_write_idx L) mod unat (sl_queue_capacity L) =
      unat (sl_read_idx L) mod unat (sl_queue_capacity L)"
    using unat_index [OF assms(1) le_refl] assms(2) unfolding w by simp
  then show ?thesis by (simp add: GetMessage_eq [OF Simplified_inv_header [OF assms(1)]])
qed

lemma receive_ok:
  assumes c: "ci_layout c = Mapped i" "ci_valid c" and alive: "Consumer_IsProducerAlive kill0 c"
    and queue: "segment_queue (w_segments w i) = h # hs"
  shows "\<exists>g. Consumer_Receive True kill0 (\<lambda>g. g) (c, w) =
      (Some (Some h, segment_payload (unat (payload_len h)) (w_segments w i)), c, update_segment i (\<lambda>_. g) w) \<and>
    segment_queue g = hs"
proof -
  note take = take_message_front [OF queue]
  have "unat (payload_len h) = 0 \<Longrightarrow> segment_payload (unat (payload_len h)) g = []" for g
    by (simp add: segment_payload_def read_bytes_def)
  then show ?thesis
    using queue alive by (auto simp: Receive_eq [OF c] take Let_def word_gt_0 unat_eq_0)
qed

section \<open>Properties\<close>

text \<open>
  C13. What a non-blocking \<open>Receive\<close> does, on every branch. An invalid consumer, or one without a
  mapping, receives nothing. If the producer has exited nothing is received, even when messages are
  queued; from an empty queue nothing is received. Otherwise the oldest message is removed, and a
  payload buffer that is not null gets as many bytes of the payload slot as the header says. The
  returned header is read from the slot after the pop: it is the oldest header unless the
  producer, in what it does between (\<open>meanwhile\<close>), writes to that slot; nothing else in the world
  changes. Both liveness checks of one call get the same answer here.
\<close>

theorem Consumer_receive_exact:
  assumes inv: "\<And>i. ci_layout c = Mapped i \<Longrightarrow> ci_valid c \<Longrightarrow> segment_inv n (w_segments w i)"
  shows "case Consumer_Receive want kill0 meanwhile (c, w) of (r, c', w') \<Rightarrow>
    (case ci_layout c of
       Mapped i \<Rightarrow>
         (let g = w_segments w i; slot = Simplified_GetMessage 0 (sl_read_idx (sg_layout g)) (sg_layout g)
          in if \<not> ci_valid c then r = Some (None, []) \<and> c' = c \<and> w' = w
             else if \<not> Consumer_IsProducerAlive kill0 c
             then r = Some (None, []) \<and> c' = c\<lparr>ci_last_error := ''Producer has exited''\<rparr> \<and> w' = w
             else case segment_queue g of
                    [] \<Rightarrow> r = Some (None, []) \<and> c' = c \<and> w' = w
                  | h # hs \<Rightarrow> c' = c \<and> (\<exists>g1 h'.
                      r = Some (Some h', if want then segment_payload (unat (payload_len h)) g else []) \<and>
                      sg_memory g1 = sg_memory g \<and> segment_queue g1 = hs \<and> segment_inv n g1 \<and>
                      w' = update_segment i (\<lambda>_. meanwhile g1) w \<and>
                      h' = object_at MsgHeader_type (sg_memory (w_segments w' i)) slot \<and>
                      (read_bytes (sg_memory (w_segments w' i)) slot 16 = read_bytes (sg_memory g) slot 16 \<longrightarrow> h' = h)))
     | _ \<Rightarrow> r = Some (None, []) \<and> c' = c \<and> w' = w)"
proof (cases "\<exists>i. ci_layout c = Mapped i \<and> ci_valid c")
  case False
  then show ?thesis
    by (cases "ci_layout c") (auto simp: Consumer_Receive_def Consumer_DoReceive_def Let_def)
next
  case True
  then obtain i where c: "ci_layout c = Mapped i" "ci_valid c" by blast
  show ?thesis
  proof (cases "segment_queue (w_segments w i)")
    case Nil
    then show ?thesis by (simp add: Receive_eq [OF c] c Let_def)
  next
    case (Cons h hs)
    have size: "unat (size_of MsgHeader_type) = 16" by (simp add: MsgHeader_type_def kSize_def)
    from take_message_result [OF Cons, of want meanwhile n] show ?thesis
      using Cons inv [OF c] by (auto simp: Receive_eq [OF c] c Let_def object_at_def size)
  qed
qed

text \<open>A consumer of the sample segment, and the segment after one send.\<close>

definition sample_consumer :: ConsumerImpl where
  "sample_consumer = Consumer_construct\<lparr>ci_layout := Mapped 0, ci_valid := True, ci_producer_pid := 77\<rparr>"

lemma sample_consumer_simps [simp]:
  "ci_layout sample_consumer = Mapped 0" "ci_valid sample_consumer"
  "Consumer_IsProducerAlive (\<lambda>_. True) sample_consumer"
  by (simp_all add: sample_consumer_def Consumer_IsProducerAlive_def)

text \<open>A segment whose only slot is taken.\<close>

definition full_layout :: SimplifiedShmLayout where
  "full_layout = (snd (Simplified_Initialize 0 4096 1 1024 77 Simplified_construct))\<lparr>sl_write_idx := 1\<rparr>"

definition full_world :: ipc_world where
  "full_world = empty_world\<lparr>w_segments :=
     (\<lambda>_. \<lparr>sg_size = 4096, sg_layout = full_layout, sg_memory = (\<lambda>_. 0)\<rparr>)\<rparr>"

lemma full_world_inv: "segment_inv 1 (w_segments full_world i)"
proof -
  let ?L = "snd (Simplified_Initialize 0 4096 1 1024 77 Simplified_construct)"
  have "fst (Simplified_Initialize 0 4096 1 1024 77 Simplified_construct)"
    using Initialize_fits [of 1 1024 0 4096 77 Simplified_construct] by simp
  then have "Simplified_Initialize 0 4096 1 1024 77 Simplified_construct = (True, ?L)" by (simp add: prod_eq_iff)
  note init = Initialize_inv [OF _ _ _ this, of 2]
  have "Simplified_inv 2 ?L" using init(1) by simp
  then have "Simplified_inv (Suc 1) ?L" by (simp only: Suc_1)
  moreover have idx: "sl_write_idx ?L = 0" "sl_read_idx ?L = 0" "sl_queue_capacity ?L = 1"
    by (simp_all add: Simplified_Initialize_def Let_def)
  ultimately show ?thesis
    using Simplified_Push_inv [of 1 ?L]
    by (simp add: segment_inv_def full_world_def full_layout_def Simplified_Available_def)
qed

lemma le_value_zero: "le_value (replicate n 0) = 0"
  by (induction n) simp_all

lemma full_world_zero: "object_at MsgHeader_type (\<lambda>_. 0) a = \<lparr>seq_id = 0, func_id = 0, payload_len = 0\<rparr>"
  by (simp add: object_at_def MsgHeader_type_def kSize_def MsgHeader_value_def read_bytes_def map_replicate_const
      le_value_zero)

lemma full_world_queue: "segment_queue (w_segments full_world i) = [\<lparr>seq_id = 0, func_id = 0, payload_len = 0\<rparr>]"
  by (simp add: segment_queue_def Simplified_contents_def idx_contents_def full_world_zero full_world_def full_layout_def
      Simplified_Initialize_def Let_def)

theorem Consumer_receive_exact_witness:
  "fst (Consumer_Receive False (\<lambda>_. True) (\<lambda>g. g) (sample_consumer, full_world)) =
     Some (Some \<lparr>seq_id = 0, func_id = 0, payload_len = 0\<rparr>, []) \<and>
   segment_queue (w_segments (snd (snd (Consumer_Receive False (\<lambda>_. True) (\<lambda>g. g) (sample_consumer, full_world)))) 0) = []"
  using Consumer_receive_exact [of sample_consumer 1 full_world "\<lambda>_. True" False "\<lambda>g. g"] full_world_inv
    full_world_queue [of 0]
  by (auto simp: Let_def split: prod.splits)

text \<open>
  C20. One message from end to end: a payload that fits, sent on an empty queue, arrives with its
  function id, its length and exactly its bytes, and leaves the queue empty again.
\<close>

theorem send_then_receive:
  assumes p: "pi_layout p = Mapped i" "pi_valid p" and c: "ci_layout c = Mapped i" "ci_valid c"
    and inv: "segment_inv (Suc n) (w_segments w i)" and empty: "segment_queue (w_segments w i) = []"
    and fits: "length bs \<le> unat (sl_payload_size (sg_layout (w_segments w i)))" and len: "length bs < 2 ^ 32"
    and alive: "Consumer_IsProducerAlive kill0 c"
  shows "case Producer_Send fid (Some bs) (of_nat (length bs)) (p, w) of
      (r, p', w') \<Rightarrow> r = Some Send_kSuccess \<and>
        (case Consumer_Receive True kill0 (\<lambda>g. g) (c, w') of
           (got, c', w'') \<Rightarrow>
             got = Some (Some \<lparr>seq_id = 0, func_id = fid, payload_len = of_nat (length bs)\<rparr>, bs) \<and>
             segment_queue (w_segments w'' i) = [])"
proof -
  have "0 < unat (sl_queue_capacity (sg_layout (w_segments w i)))"
    using inv Simplified_capacity_pos by (simp add: segment_inv_def Simplified_inv_def)
  then have room: "length (segment_queue (w_segments w i)) < unat (sl_queue_capacity (sg_layout (w_segments w i)))"
    using empty by simp
  from send_ok [OF p inv room fits len, of fid] obtain g where
    send: "Producer_Send fid (Some bs) (of_nat (length bs)) (p, w) =
      (Some Send_kSuccess, p, update_segment i (\<lambda>_. g) w)"
    and queue: "segment_queue g = [message fid bs]" and pay: "\<forall>k \<le> length bs. segment_payload k g = take k bs"
    using empty by auto
  have "segment_queue (w_segments (update_segment i (\<lambda>_. g) w) i) = [message fid bs]" using queue by simp
  from receive_ok [OF c alive this] show ?thesis
    using send pay sent_header_message(2) [OF len, of fid] by (auto simp: message_def)
qed

lemma sample_producer_simps [simp]:
  "pi_layout (created_producer env f c n i) = Mapped i" "pi_valid (created_producer env f c n i)"
  by (simp_all add: created_producer_def)

theorem send_then_receive_witness:
  "case Producer_Send 9 (Some [1, 2, 3]) 3 (created_producer sample_env ''f'' 6 1024 0, sample_world) of
     (r, p', w') \<Rightarrow> fst (Consumer_Receive True (\<lambda>_. True) (\<lambda>g. g) (sample_consumer, w')) =
       Some (Some \<lparr>seq_id = 0, func_id = 9, payload_len = 3\<rparr>, [1, 2, 3])"
proof -
  have inv: "segment_inv (Suc 0) (w_segments sample_world 0)" by (rule sample_world_inv) simp
  show ?thesis
    using send_then_receive [OF _ _ _ _ inv, of "created_producer sample_env ''f'' 6 1024 0" sample_consumer
        "[1, 2, 3]" "\<lambda>_. True" 9]
    by (auto simp: sample_queue_empty sample_segment sample_layout_values split: prod.splits)
qed

text \<open>
  All messages share one payload slot. After two sends the first receive returns the first
  header, as it should, but with the bytes of the second payload.
\<close>

theorem second_send_overwrites_payload:
  assumes p: "pi_layout p = Mapped i" "pi_valid p" and c: "ci_layout c = Mapped i" "ci_valid c"
    and inv: "segment_inv (Suc (Suc n)) (w_segments w i)" and empty: "segment_queue (w_segments w i) = []"
    and cap: "2 \<le> unat (sl_queue_capacity (sg_layout (w_segments w i)))"
    and fits: "length bs2 \<le> unat (sl_payload_size (sg_layout (w_segments w i)))"
    and le: "length bs1 \<le> length bs2" and len: "length bs2 < 2 ^ 32"
    and alive: "Consumer_IsProducerAlive kill0 c"
  shows "case Producer_Send fid1 (Some bs1) (of_nat (length bs1)) (p, w) of
      (r1, p1, w1) \<Rightarrow>
        (case Producer_Send fid2 (Some bs2) (of_nat (length bs2)) (p1, w1) of
           (r2, p2, w2) \<Rightarrow> r1 = Some Send_kSuccess \<and> r2 = Some Send_kSuccess \<and>
             fst (Consumer_Receive True kill0 (\<lambda>g. g) (c, w2)) =
               Some (Some \<lparr>seq_id = 0, func_id = fid1, payload_len = of_nat (length bs1)\<rparr>,
                 take (length bs1) bs2))"
proof -
  have len1: "length bs1 < 2 ^ 32" and fits1: "length bs1 \<le> unat (sl_payload_size (sg_layout (w_segments w i)))"
    using le len fits by simp_all
  have room: "length (segment_queue (w_segments w i)) < unat (sl_queue_capacity (sg_layout (w_segments w i)))"
    using empty cap by simp
  from send_ok [OF p inv room fits1 len1, of fid1] obtain g1 where
    send1: "Producer_Send fid1 (Some bs1) (of_nat (length bs1)) (p, w) =
      (Some Send_kSuccess, p, update_segment i (\<lambda>_. g1) w)"
    and g1: "segment_inv (Suc n) g1" "segment_queue g1 = [message fid1 bs1]"
      "sl_queue_capacity (sg_layout g1) = sl_queue_capacity (sg_layout (w_segments w i))"
      "sl_payload_size (sg_layout g1) = sl_payload_size (sg_layout (w_segments w i))"
    using empty by auto
  let ?w1 = "update_segment i (\<lambda>_. g1) w"
  have inv1: "segment_inv (Suc n) (w_segments ?w1 i)"
    and room1: "length (segment_queue (w_segments ?w1 i)) < unat (sl_queue_capacity (sg_layout (w_segments ?w1 i)))"
    and fits2: "length bs2 \<le> unat (sl_payload_size (sg_layout (w_segments ?w1 i)))"
    using g1 cap fits by simp_all
  from send_ok [OF p inv1 room1 fits2 len, of fid2] obtain g2 where
    send2: "Producer_Send fid2 (Some bs2) (of_nat (length bs2)) (p, ?w1) =
      (Some Send_kSuccess, p, update_segment i (\<lambda>_. g2) ?w1)"
    and queue: "segment_queue g2 = message fid1 bs1 # [message fid2 bs2]"
    and pay: "\<forall>k \<le> length bs2. segment_payload k g2 = take k bs2"
    using g1 by auto
  have "segment_queue (w_segments (update_segment i (\<lambda>_. g2) ?w1) i) = message fid1 bs1 # [message fid2 bs2]"
    using queue by simp
  from receive_ok [OF c alive this] show ?thesis
    using send1 send2 pay le sent_header_message(2) [OF len1, of fid1] by (auto simp: message_def)
qed

theorem second_send_overwrites_payload_witness:
  "case Producer_Send 9 (Some [1, 2]) 2 (created_producer sample_env ''f'' 6 1024 0, sample_world) of
     (r1, p1, w1) \<Rightarrow>
       (case Producer_Send 10 (Some [7, 8, 9]) 3 (p1, w1) of
          (r2, p2, w2) \<Rightarrow> fst (Consumer_Receive True (\<lambda>_. True) (\<lambda>g. g) (sample_consumer, w2)) =
            Some (Some \<lparr>seq_id = 0, func_id = 9, payload_len = 2\<rparr>, [7, 8]))"
proof -
  have inv: "segment_inv (Suc (Suc 0)) (w_segments sample_world 0)" by (rule sample_world_inv) simp
  show ?thesis
    using second_send_overwrites_payload [OF _ _ _ _ inv, of "created_producer sample_env ''f'' 6 1024 0"
        sample_consumer "[7, 8, 9]" "[1, 2]" "\<lambda>_. True" 9 10]
    by (auto simp: sample_queue_empty sample_segment sample_layout_values split: prod.splits)
qed

text \<open>
  The returned header is read after the pop has given its slot back. When the queue was full
  and the producer sends one message before that read, the receive returns the header of the
  new message: the oldest one is lost, and the new one is queued and will be received again.
\<close>

theorem received_header_overwritten:
  assumes c: "ci_layout c = Mapped i" "ci_valid c" and inv: "segment_inv (Suc n) (w_segments w i)"
    and full: "length (segment_queue (w_segments w i)) = unat (sl_queue_capacity (sg_layout (w_segments w i)))"
    and alive: "Consumer_IsProducerAlive kill0 c"
  shows "case Consumer_Receive True kill0 (\<lambda>g. snd (send_message fid payload plen g)) (c, w) of
      (got, c', w') \<Rightarrow> map_option fst got = Some (Some (sent_header fid plen)) \<and>
        segment_queue (w_segments w' i) = tl (segment_queue (w_segments w i)) @ [sent_header fid plen]"
proof -
  let ?g = "w_segments w i" and ?L = "sg_layout (w_segments w i)"
  have inv': "Simplified_inv (Suc n) ?L" using inv by (simp add: segment_inv_def)
  have "0 < unat (sl_queue_capacity ?L)" using Simplified_capacity_pos [OF Simplified_inv_header [OF inv']] .
  then obtain h hs where queue: "segment_queue ?g = h # hs" using full by (cases "segment_queue ?g") auto
  let ?L1 = "Simplified_ForceAdvanceReadIndex 1 ?L" and ?g1 = "?g\<lparr>sg_layout := Simplified_ForceAdvanceReadIndex 1 ?L\<rparr>"
  note take = take_message_front [OF queue]
  have inv1: "segment_inv (Suc n) ?g1" using segment_inv_pop [OF inv] queue by simp
  have cap1: "sl_queue_capacity ?L1 = sl_queue_capacity ?L"
    by (simp add: Simplified_ForceAdvanceReadIndex_def)
  have "\<not> Simplified_IsFull (sg_layout ?g1)"
    using take(3) full queue cap1 by (intro segment_not_full [OF inv1]) simp
  from send_message_ok [OF inv1 this, of fid payload plen] obtain g2 where
    send: "send_message fid payload plen ?g1 = (True, g2)"
    and queue2: "segment_queue g2 = hs @ [sent_header fid plen]" and inv2: "segment_inv n g2"
    using take(3) by auto
  have L2: "sg_layout g2 = ?L1\<lparr>sl_write_idx := sl_write_idx ?L + 1\<rparr>"
    using send_message_layout [OF send] by (simp add: Simplified_ForceAdvanceReadIndex_def)
  have full_count: "unat (Simplified_Available ?L) = unat (sl_queue_capacity ?L)"
    using full by (simp add: segment_queue_def)
  have slot: "Simplified_GetMessage 0 (sl_read_idx ?L) ?L = Simplified_GetMessage 0 (sl_write_idx ?L) (sg_layout g2)"
    using full_queue_slot [OF inv' full_count, of 0]
    by (simp add: L2 Simplified_ForceAdvanceReadIndex_def)
  have "sl_write_idx ?L = sl_read_idx (sg_layout g2) + of_nat (length hs)"
  proof -
    have "of_nat (unat (Simplified_Available ?L)) = (of_nat (Suc (length hs)) :: u64)"
      using full full_count queue by simp
    then show ?thesis
      by (simp add: L2 Simplified_Available_def Simplified_ForceAdvanceReadIndex_def algebra_simps)
  qed
  moreover have "length hs < unat (sl_write_idx (sg_layout g2) - sl_read_idx (sg_layout g2))"
    using arg_cong [OF queue2, of length] by (simp add: segment_queue_def Simplified_Available_def)
  then have "segment_queue g2 ! length hs = object_at MsgHeader_type (sg_memory g2)
      (Simplified_GetMessage 0 (sl_read_idx (sg_layout g2) + of_nat (length hs)) (sg_layout g2))"
    by (simp add: segment_queue_def Simplified_contents_def idx_contents_def)
  ultimately have "object_at MsgHeader_type (sg_memory g2) (Simplified_GetMessage 0 (sl_read_idx ?L) ?L) =
      sent_header fid plen"
    using queue2 slot by simp
  then show ?thesis
    using queue queue2 send alive by (simp add: Receive_eq [OF c] take Let_def)
qed

theorem received_header_overwritten_witness:
  "map_option fst (fst (Consumer_Receive True (\<lambda>_. True) (\<lambda>g. snd (send_message 5 None 0 g))
     (sample_consumer, full_world))) = Some (Some (sent_header 5 0))"
proof -
  have "segment_inv (Suc 0) (w_segments full_world 0)" using full_world_inv by simp
  moreover have "length (segment_queue (w_segments full_world 0)) =
      unat (sl_queue_capacity (sg_layout (w_segments full_world 0)))"
    by (simp add: segment_queue_def Simplified_Available_def full_world_def full_layout_def
        Simplified_Initialize_def Let_def)
  ultimately show ?thesis
    using received_header_overwritten [of sample_consumer 0 0 full_world "\<lambda>_. True" 5 0 None]
    by (auto split: prod.splits)
qed

text \<open>
  A consumer attaches to the producer that has just been created: \<open>Attach\<close> finds the segment
  through the coordination file, accepts its layout, changes nothing, and then agrees with the
  producer on the segment, its name, the capacity, the payload size and the process to watch.
\<close>

theorem Consumer_attaches_to_producer:
  assumes env: "creation_possible env path w" and fits: "320 + 16 * unat c + unat plen < 2 ^ 64"
    and pos: "0 < unat c" and map_ok: "attach_calls_ok cenv"
  shows "case Producer_Create env path c plen w of
      (None, _) \<Rightarrow> False
    | (Some p, w') \<Rightarrow>
        (case Consumer_Attach cenv path w' of
           (Inr (Some cons), w'') \<Rightarrow>
             w'' = w' \<and> Consumer_IsValid cons \<and> ci_layout cons = pi_layout p \<and>
             Consumer_GetShmName cons = Producer_GetShmName p \<and> ci_producer_pid cons = pe_pid env \<and>
             Consumer_AvailableMessages cons w'' = 0 \<and> Consumer_QueueCapacity cons w'' = c \<and>
             Consumer_GetPayloadSize cons w'' = plen
         | _ \<Rightarrow> False)"
proof -
  let ?p = "created_producer env path c plen (w_next w)"
  from Create_succeeds [OF env fits pos] obtain w' L where
    create: "Producer_Create env path c plen w = (Some ?p, w')"
    and seg: "w_segments w' (w_next w) =
      \<lparr>sg_size = Simplified_CalculateSize c plen, sg_layout = L, sg_memory = (\<lambda>_. 0)\<rparr>"
    and init: "Simplified_Initialize (pe_layout_time env) (Simplified_CalculateSize c plen) c plen
      (pe_pid env) Simplified_construct = (True, L)"
    and names: "w_shm_names w' = (w_shm_names w)(pi_shm_name ?p \<mapsto> w_next w)"
    and files: "w_files w' = (w_files w)(path \<mapsto> Coord_json (Producer_metadata env c plen ?p))"
    by blast
  let ?m = "Producer_metadata env c plen ?p"
  have room: "320 + 16 * unat c + unat plen \<le> unat (Simplified_CalculateSize c plen)"
    using CalculateSize_exact [OF fits] by simp
  note facts = Initialize_inv [OF fits room pos init, of 0]
  have "cm_shm_name ?m = Coord_GenerateShmName (pe_pid env) (pe_name_time env) ''phoenix_ipc''"
    by (simp add: Producer_metadata_def created_producer_def)
  then have "Coord_Read (w_files w') path (ce_metadata cenv) = (Returned kSuccess, ?m)"
    using files length_int_digits_u64 [of "scast (pe_pid env)"] length_int_digits_u64 [of "pe_name_time env"]
    by (intro Read_created)
      (simp_all add: Coord_GenerateShmName_def digits_free field_keys_def sint_scast_pid)
  moreover have "SimplifiedFactory_Get L = Some L"
    using facts(1) by (simp add: SimplifiedFactory_Get_def Simplified_inv_def Simplified_header_inv_def)
  moreover have "Simplified_GetProducerPid L = pe_pid env"
    using facts(5) by (simp add: Simplified_GetProducerPid_def pid_roundtrip)
  moreover have "sl_write_idx L = sl_read_idx L" using facts(2) by (simp add: Simplified_IsEmpty_def)
  moreover have meta: "cm_shm_name ?m = pi_shm_name ?p" by (simp add: Producer_metadata_def)
  ultimately show ?thesis
    using create seg names map_ok facts(3,4)
    by (simp add: attach_calls_ok_def shm_open_existing_def Consumer_Attach_def Consumer_wrapper_defs Consumer_Initialize_def Let_def Consumer_IsValid_def
        Consumer_GetShmName_def Producer_GetShmName_def Consumer_AvailableMessages_def
        Consumer_QueueCapacity_def Consumer_GetPayloadSize_def Simplified_Available_def
        Simplified_GetQueueCapacity_def Simplified_GetPayloadSize_def)
qed

definition sample_consumer_env :: consumer_env where
  "sample_consumer_env = \<lparr>ce_metadata = sample_metadata [], ce_enoent = ''No such file or directory'',
     ce_shm_open_error = None, ce_mmap_error = None\<rparr>"

theorem Consumer_attaches_to_producer_witness:
  "\<exists>cons. fst (Consumer_Attach sample_consumer_env ''f'' (snd (Producer_Create sample_env ''f'' 6 1024 empty_world))) =
    Inr (Some cons)"
proof -
  have "attach_calls_ok sample_consumer_env" by (simp add: attach_calls_ok_def sample_consumer_env_def)
  note attach = Consumer_attaches_to_producer [OF sample_creation_possible _ _ this, of 6 1024]
  obtain r w' where r: "Consumer_Attach sample_consumer_env ''f''
      (snd (Producer_Create sample_env ''f'' 6 1024 empty_world)) = (r, w')" by fastforce
  then show ?thesis
    using attach by (cases r) (auto split: option.splits prod.splits)
qed

text \<open>
  A consumer that goes away, or one whose \<open>Attach\<close> fails after the coordination file was read,
  takes the segment's name with it: a later \<open>Attach\<close> through the same, still valid file fails,
  although the segment and its producer are as they were.
\<close>

theorem Consumer_cleanup_unlinks:
  assumes read: "Coord_Read (w_files w) path (ce_metadata cenv) = (Returned kSuccess, m)"
    and name: "cm_shm_name m \<noteq> []" and gone: "ci_shm_name c = cm_shm_name m"
  shows "case Consumer_Cleanup (c, w) of
      (c', w') \<Rightarrow> \<not> Consumer_IsValid c' \<and> w_segments w' = w_segments w \<and> w_files w' = w_files w \<and>
        fst (Consumer_Attach cenv path w') = Inr None \<and>
        (attach_calls_ok cenv \<or> w_shm_names w (cm_shm_name m) = None \<or>
         w_shm_names (snd (Consumer_Attach cenv path w)) = (w_shm_names w)(cm_shm_name m := None))"
  using assms
  by (auto simp: Consumer_Cleanup_def Consumer_Attach_def Consumer_wrapper_defs Consumer_Initialize_def Let_def
      Consumer_IsValid_def shm_unlink_def Consumer_construct_def attach_calls_ok_def shm_open_existing_def
      split: option.splits)

theorem Consumer_cleanup_unlinks_witness:
  "fst (Consumer_Attach sample_consumer_env ''f''
     (snd (Consumer_Cleanup (Consumer_construct\<lparr>ci_shm_name := ''/p''\<rparr>,
       empty_world\<lparr>w_files := [''f'' \<mapsto> Coord_json (sample_metadata ''/p'')], w_shm_names := [''/p'' \<mapsto> 0]\<rparr>)))) =
    Inr None"
proof -
  let ?w = "empty_world\<lparr>w_files := [''f'' \<mapsto> Coord_json (sample_metadata ''/p'')], w_shm_names := [''/p'' \<mapsto> 0]\<rparr>"
  have "Coord_Read (w_files ?w) ''f'' (ce_metadata sample_consumer_env) = (Returned kSuccess, sample_metadata ''/p'')"
    by (rule Read_created) (simp_all add: field_keys_def sample_metadata_def)
  from Consumer_cleanup_unlinks [OF this, of "Consumer_construct\<lparr>ci_shm_name := ''/p''\<rparr>"] show ?thesis
    by (simp add: sample_metadata_def split_beta)
qed

text \<open>
  C29. A blocking receive with a timeout above zero returns, and with what. When the sleeps between the
  rounds last at least 100 microseconds, \<open>10 * timeout_ms + 1\<close> rounds are enough, whatever the
  producer does. A valid consumer ends in the first round that finds the producer gone, a message, or
  the deadline passed. In the first case and when the second look at the producer finds it gone,
  nothing is received; with a message it returns a header, the oldest one if memory is left alone
  until the second read of it, and copies the payload bytes if the buffer is not null; without one it
  returns nothing, and only when the deadline has passed. (A timeout of zero is not covered: the
  header documents it as no timeout, the code as one round.)
\<close>

theorem Consumer_ReceiveBlocking_returns:
  assumes apart: "polls_apart 100000 (map rp_now polls)" and start: "start \<le> rp_now (hd polls)"
    and timeout: "0 < timeout_ms" and many: "10 * unat timeout_ms < length polls"
  shows "case Consumer_ReceiveBlocking want timeout_ms start polls kill0 meanwhile (c, w) of (r, c', w') \<Rightarrow>
    r \<noteq> None \<and>
    (\<forall>i. ci_layout c = Mapped i \<and> ci_valid c \<longrightarrow>
      (\<exists>k \<le> 10 * unat timeout_ms.
        let deadline = start + unat timeout_ms * 1000000; poll = polls ! k; g = rp_segment poll
        in (\<forall>j < k. Consumer_IsProducerAlive (rp_kill0 (polls ! j)) c \<and>
              segment_queue (rp_segment (polls ! j)) = [] \<and> rp_now (polls ! j) < deadline) \<and>
           (if \<not> Consumer_IsProducerAlive (rp_kill0 poll) c
            then r = Some (None, []) \<and> Consumer_GetLastError c' = ''Producer has exited''
            else case segment_queue g of
                   [] \<Rightarrow> deadline \<le> rp_now poll \<and> r = Some (None, []) \<and> c' = c
                 | h # hs \<Rightarrow>
                     if \<not> Consumer_IsProducerAlive kill0 c
                     then r = Some (None, []) \<and> Consumer_GetLastError c' = ''Producer has exited''
                     else \<exists>h'. r = Some (Some h', if want then segment_payload (unat (payload_len h)) g else []) \<and>
                       ((\<forall>g. sg_memory (meanwhile g) = sg_memory g) \<longrightarrow> h' = h))))"
proof -
  let ?d = "start + unat timeout_ms * 1000000"
  have t: "0 < unat timeout_ms" using timeout by (simp add: word_less_nat_alt)
  obtain k r where k: "k \<le> 10 * unat timeout_ms" and wait: "wait_for_message c timeout_ms ?d polls = Some r"
    and before: "\<forall>j < k. Consumer_IsProducerAlive (rp_kill0 (polls ! j)) c \<and>
      segment_queue (rp_segment (polls ! j)) = [] \<and> rp_now (polls ! j) < ?d"
    and at: "round_end c ?d (polls ! k) r"
    using blocking_receive_exit [OF apart start t many, of c] by blast
  show ?thesis
  proof (cases "\<exists>i. ci_layout c = Mapped i \<and> ci_valid c")
    case False
    then show ?thesis
      by (cases "ci_layout c") (auto simp: Consumer_ReceiveBlocking_def Consumer_DoReceive_def Let_def)
  next
    case True
    then obtain i where c: "ci_layout c = Mapped i" "ci_valid c" by blast
    note eq = Consumer_ReceiveBlocking_def Consumer_DoReceive_def Consumer_GetLastError_def round_end_def
    show ?thesis
    proof (cases "segment_queue (rp_segment (polls ! k))")
      case Nil
      then show ?thesis using k before at wait c by (auto simp: eq Let_def split: if_splits)
    next
      case (Cons h hs)
      obtain g1 h' where take: "take_message want meanwhile (rp_segment (polls ! k)) =
          (Some h', if want then segment_payload (unat (payload_len h)) (rp_segment (polls ! k)) else [], meanwhile g1)"
        and kept: "(\<forall>g. sg_memory (meanwhile g) = sg_memory g) \<longrightarrow> h' = h"
        using take_message_result [OF Cons, of want meanwhile 0] by auto
      show ?thesis
        using k before at wait c take kept Cons
        by (auto simp: eq Let_def split: if_splits intro!: exI [of _ k])
    qed
  qed
qed

text \<open>The first two rounds see an empty queue, the third a message.\<close>

theorem Consumer_ReceiveBlocking_returns_witness:
  "fst (Consumer_ReceiveBlocking False 1 5
     (map (\<lambda>k. \<lparr>rp_kill0 = \<lambda>_. True,
       rp_segment = (if k < 2 then w_segments sample_world 0 else w_segments full_world 0),
       rp_now = 5 + 100000 * k\<rparr>) [0..<11]) (\<lambda>_. True) (\<lambda>g. g) (sample_consumer, full_world)) =
   Some (Some \<lparr>seq_id = 0, func_id = 0, payload_len = 0\<rparr>, [])"
proof -
  define polls where "polls = map (\<lambda>k. \<lparr>rp_kill0 = \<lambda>_. True,
    rp_segment = (if k < 2 then w_segments sample_world 0 else w_segments full_world 0),
    rp_now = 5 + 100000 * k\<rparr>) [0..<11]"
  have apart: "polls_apart 100000 (map rp_now polls)" "5 \<le> rp_now (hd polls)" "10 < length polls"
    by (simp_all add: polls_def upt_conv_Cons)
  have poll: "polls ! k = \<lparr>rp_kill0 = \<lambda>_. True,
      rp_segment = (if k < 2 then w_segments sample_world 0 else w_segments full_world 0),
      rp_now = 5 + 100000 * k\<rparr>" if "k \<le> 10" for k
    using that by (simp add: polls_def del: upt_rec_numeral)
  let ?h = "\<lparr>seq_id = 0, func_id = 0, payload_len = 0\<rparr>"
  have queue: "segment_queue (rp_segment (polls ! k)) = (if k < 2 then [] else [?h])" if "k \<le> 10" for k
    using that by (simp add: poll sample_queue_empty full_world_queue)
  obtain r c' w' where eq: "Consumer_ReceiveBlocking False 1 5 polls (\<lambda>_. True) (\<lambda>g. g) (sample_consumer, full_world) = (r, c', w')"
    by (cases "Consumer_ReceiveBlocking False 1 5 polls (\<lambda>_. True) (\<lambda>g. g) (sample_consumer, full_world)") auto
  have alive: "Consumer_IsProducerAlive (rp_kill0 (polls ! k)) sample_consumer" if "k \<le> 10" for k
    using that by (simp add: poll)
  have "0 < (1 :: u32)" "10 * unat (1 :: u32) < length polls" using apart(3) by simp_all
  note returns = Consumer_ReceiveBlocking_returns [OF apart(1,2) this, where c = sample_consumer
      and w = full_world and want = False and ?kill0.0 = "\<lambda>_. True" and meanwhile = "\<lambda>g. g",
      unfolded eq prod.case]
  have "\<exists>k \<le> 10. (\<forall>j < k. segment_queue (rp_segment (polls ! j)) = []) \<and>
      (case segment_queue (rp_segment (polls ! k)) of
         [] \<Rightarrow> 1000005 \<le> rp_now (polls ! k)
       | h # hs \<Rightarrow> r = Some (Some h, []))"
    using returns [THEN conjunct2, THEN spec [of _ 0], THEN mp, OF conjI [OF sample_consumer_simps(1,2)]]
  proof (elim exE conjE, goal_cases)
    case (1 k)
    then have "k \<le> 10" by simp
    then show ?case using 1(2) by (intro exI [of _ k]) (simp add: Let_def alive split: list.splits)
  qed
  then obtain k where k: "k \<le> 10" and before: "\<forall>j < k. segment_queue (rp_segment (polls ! j)) = []"
    and at: "case segment_queue (rp_segment (polls ! k)) of
        [] \<Rightarrow> 1000005 \<le> rp_now (polls ! k)
      | h # hs \<Rightarrow> r = Some (Some h, [])"
    by blast
  have "k < 3" using before [rule_format, of 2] queue [of 2] k by (cases "k < 3") auto
  then have "r = Some (Some ?h, [])" using at poll [OF k] queue [OF k] by (auto split: if_splits)
  then show ?thesis using eq by (simp add: polls_def del: upt_rec_numeral)
qed

end
