(* ===== verification/Ipc_System.thy ===== *)
theory Ipc_System
  imports Phoenix_Consumer
begin

text \<open>
  Producers and consumers of \<open>phoenix_producer.cpp\<close> and \<open>phoenix_consumer.cpp\<close> together: any number
  of handles on one world, created, used and destroyed in any order, one call at a time. The
  pointers of a handle are typed by the segments of the world, and the invariant is that a handle
  the library has returned never holds a null, failed or stale one. \<open>sy_used\<close> records the segment
  names generated so far.
\<close>

record ipc_system =
  sy_producers :: "ProducerImpl list"
  sy_consumers :: "ConsumerImpl list"
  sy_world :: ipc_world
  sy_used :: "string list"

datatype ipc_action =
    Act_create producer_env string u64 u64
  | Act_send nat u32 "u8 list option" u64
  | Act_destroy_producer producer_env nat
  | Act_attach consumer_env string
  | Act_receive nat bool "pid \<Rightarrow> bool"
  | Act_destroy_consumer nat

definition generated_name :: "producer_env \<Rightarrow> string" where
  "generated_name env = Coord_GenerateShmName (pe_pid env) (pe_name_time env) ''phoenix_ipc''"

definition remove_nth :: "nat \<Rightarrow> 'a list \<Rightarrow> 'a list" where
  "remove_nth k xs = take k xs @ drop (Suc k) xs"

text \<open>One call. An index without a handle stands for no call.\<close>

fun ipc_act :: "ipc_action \<Rightarrow> ipc_system \<Rightarrow> ipc_system" where
  "ipc_act (Act_create env path c plen) s =
     (let (r, w) = Producer_Create env path c plen (sy_world s)
      in s\<lparr>sy_producers := sy_producers s @ (case r of None \<Rightarrow> [] | Some p \<Rightarrow> [p]),
           sy_world := w, sy_used := generated_name env # sy_used s\<rparr>)"
| "ipc_act (Act_send k fid payload plen) s =
     (if k < length (sy_producers s)
      then let (r, p, w) = Producer_Send fid payload plen (sy_producers s ! k, sy_world s)
           in s\<lparr>sy_producers := (sy_producers s)[k := p], sy_world := w\<rparr>
      else s)"
| "ipc_act (Act_destroy_producer env k) s =
     (if k < length (sy_producers s)
      then s\<lparr>sy_producers := remove_nth k (sy_producers s),
             sy_world := Producer_destroy env (sy_producers s ! k, sy_world s)\<rparr>
      else s)"
| "ipc_act (Act_attach env path) s =
     (let (r, w) = Consumer_Attach env path (sy_world s)
      in s\<lparr>sy_consumers := sy_consumers s @ (case r of Inr (Some c) \<Rightarrow> [c] | _ \<Rightarrow> []), sy_world := w\<rparr>)"
| "ipc_act (Act_receive k want kill0) s =
     (if k < length (sy_consumers s)
      then let (r, c, w) = Consumer_Receive want kill0 (\<lambda>g. g) (sy_consumers s ! k, sy_world s)
           in s\<lparr>sy_consumers := (sy_consumers s)[k := c], sy_world := w\<rparr>
      else s)"
| "ipc_act (Act_destroy_consumer k) s =
     (if k < length (sy_consumers s)
      then s\<lparr>sy_consumers := remove_nth k (sy_consumers s),
             sy_world := Consumer_destroy (sy_consumers s ! k, sy_world s)\<rparr>
      else s)"

text \<open>
  What the properties of histories ask of the calls; the code tests none of it. A creation's sizes do
  not wrap around (else the size test of \<open>Initialize\<close> passes on a segment that is too small), its
  queue has a slot, the generated name has not been used before, that is, no process creates two
  producers within a second (else the second resets the first one's segment, as shown below), and
  \<open>mkstemp\<close> makes new files.
\<close>

fun admissible :: "ipc_action \<Rightarrow> ipc_system \<Rightarrow> bool" where
  "admissible (Act_create env path c plen) s \<longleftrightarrow>
     320 + 16 * unat c + unat plen < 2 ^ 64 \<and> 0 < unat c \<and> generated_name env \<notin> set (sy_used s) \<and>
     mkstemp_fresh (pe_posix env) path (w_files (sy_world s))"
| "admissible _ s \<longleftrightarrow> True"

fun ipc_run :: "ipc_action list \<Rightarrow> ipc_system \<Rightarrow> ipc_system" where
  "ipc_run [] s = s"
| "ipc_run (a # as) s = ipc_run as (ipc_act a s)"

fun admissible_run :: "ipc_action list \<Rightarrow> ipc_system \<Rightarrow> bool" where
  "admissible_run [] s \<longleftrightarrow> True"
| "admissible_run (a # as) s \<longleftrightarrow> admissible a s \<and> admissible_run as (ipc_act a s)"

definition initial_system :: ipc_system where
  "initial_system = \<lparr>sy_producers = [], sy_consumers = [], sy_world = empty_world, sy_used = []\<rparr>"

section \<open>Well-formed worlds and well-typed handles\<close>

text \<open>A segment with a layout: the layout is right for the segment's size, and no queued header
  promises more payload than the payload buffer has.\<close>

definition formatted :: "nat \<Rightarrow> Segment \<Rightarrow> bool" where
  "formatted n g \<longleftrightarrow> segment_inv n g \<and> sl_shm_size (sg_layout g) = sg_size g \<and>
     (\<forall>h \<in> set (segment_queue g). unat (payload_len h) \<le> unat (sl_payload_size (sg_layout g)))"

definition good_segment :: "nat \<Rightarrow> Segment \<Rightarrow> bool" where
  "good_segment n g \<longleftrightarrow> SimplifiedFactory_Get (sg_layout g) = None \<or> formatted n g"

definition readable_name :: "string \<Rightarrow> bool" where
  "readable_name name \<longleftrightarrow> CHR ''\"'' \<notin> set name \<and> name \<notin> set field_keys \<and> length name < 2 ^ 62"

definition good_file :: "string set \<Rightarrow> ipc_world \<Rightarrow> string \<Rightarrow> bool" where
  "good_file used w t \<longleftrightarrow> (\<exists>m. t = Coord_json m \<and> readable_name (cm_shm_name m) \<and> cm_shm_name m \<in> used \<and>
     (\<forall>i. w_shm_names w (cm_shm_name m) = Some i \<longrightarrow> sg_size (w_segments w i) = cm_shm_size m))"

definition world_ok :: "nat \<Rightarrow> string set \<Rightarrow> ipc_world \<Rightarrow> bool" where
  "world_ok n used w \<longleftrightarrow>
     (\<forall>name i. w_shm_names w name = Some i \<longrightarrow> i < w_next w \<and> name \<in> used) \<and>
     (\<forall>i < w_next w. good_segment n (w_segments w i)) \<and>
     (\<forall>path t. w_files w path = Some t \<longrightarrow> good_file used w t)"

text \<open>The type of a handle: valid, and its layout pointer, its mapping and its descriptor are one
  existing segment, mapped at its full size.\<close>

definition well_typed :: "nat \<Rightarrow> ipc_world \<Rightarrow> bool \<Rightarrow> mapping_ptr \<Rightarrow> mapping_ptr \<Rightarrow> nat option \<Rightarrow> u64 \<Rightarrow> bool" where
  "well_typed n w valid layout addr fd bytes \<longleftrightarrow> valid \<and>
     (\<exists>i < w_next w. layout = Mapped i \<and> addr = Mapped i \<and> fd = Some i \<and>
        bytes = sg_size (w_segments w i) \<and> formatted n (w_segments w i))"

definition producer_ok :: "nat \<Rightarrow> ipc_world \<Rightarrow> ProducerImpl \<Rightarrow> bool" where
  "producer_ok n w p \<longleftrightarrow> well_typed n w (pi_valid p) (pi_layout p) (pi_shm_addr p) (pi_shm_fd p) (pi_shm_size p)"

definition consumer_ok :: "nat \<Rightarrow> ipc_world \<Rightarrow> ConsumerImpl \<Rightarrow> bool" where
  "consumer_ok n w c \<longleftrightarrow> well_typed n w (ci_valid c) (ci_layout c) (ci_shm_addr c) (ci_shm_fd c) (ci_shm_size c)"

definition system_ok :: "nat \<Rightarrow> ipc_system \<Rightarrow> bool" where
  "system_ok n s \<longleftrightarrow> world_ok n (set (sy_used s)) (sy_world s) \<and>
     (\<forall>p \<in> set (sy_producers s). producer_ok n (sy_world s) p) \<and>
     (\<forall>c \<in> set (sy_consumers s). consumer_ok n (sy_world s) c)"

text \<open>What one call may do to the segments that are there.\<close>

definition evolves :: "nat \<Rightarrow> ipc_world \<Rightarrow> ipc_world \<Rightarrow> bool" where
  "evolves n w w' \<longleftrightarrow> w_next w \<le> w_next w' \<and>
     (\<forall>i < w_next w. sg_size (w_segments w' i) = sg_size (w_segments w i) \<and>
        (formatted (Suc n) (w_segments w i) \<longrightarrow> formatted n (w_segments w' i)) \<and>
        (good_segment (Suc n) (w_segments w i) \<longrightarrow> good_segment n (w_segments w' i)))"

lemma formatted_less: "formatted (Suc n) g \<Longrightarrow> formatted n g"
  by (simp add: formatted_def segment_inv_def Simplified_inv_less)

lemma good_segment_less: "good_segment (Suc n) g \<Longrightarrow> good_segment n g"
  by (auto simp: good_segment_def formatted_less)

lemma formatted_get: "formatted n g \<Longrightarrow> SimplifiedFactory_Get (sg_layout g) = Some (sg_layout g)"
  by (simp add: formatted_def segment_inv_def Simplified_inv_def Simplified_header_inv_def SimplifiedFactory_Get_def)

lemma evolves_same_segments:
  "w_segments w' = w_segments w \<Longrightarrow> w_next w' = w_next w \<Longrightarrow> evolves n w w'"
  by (simp add: evolves_def formatted_less good_segment_less)

lemma evolves_update:
  assumes "formatted n g" and "sg_size g = sg_size (w_segments w i)"
  shows "evolves n w (update_segment i (\<lambda>_. g) w)"
proof -
  have "good_segment n g" using assms(1) by (simp add: good_segment_def)
  then show ?thesis
    using assms by (auto simp: evolves_def update_segment_def formatted_less good_segment_less)
qed

lemma well_typed_evolves:
  "evolves n w w' \<Longrightarrow> well_typed (Suc n) w valid layout addr fd bytes \<Longrightarrow> well_typed n w' valid layout addr fd bytes"
  unfolding well_typed_def evolves_def by (metis less_le_trans)

lemma producer_ok_evolves: "evolves n w w' \<Longrightarrow> producer_ok (Suc n) w p \<Longrightarrow> producer_ok n w' p"
  by (simp add: producer_ok_def well_typed_evolves)

lemma consumer_ok_evolves: "evolves n w w' \<Longrightarrow> consumer_ok (Suc n) w c \<Longrightarrow> consumer_ok n w' c"
  by (simp add: consumer_ok_def well_typed_evolves)

text \<open>A step that leaves names and files alone, or only removes some, keeps the world in order.\<close>

lemma world_ok_evolves:
  assumes "world_ok (Suc n) used w" and "evolves n w w'" and "w_next w' = w_next w"
    and "w_shm_names w' \<subseteq>\<^sub>m w_shm_names w" and "w_files w' \<subseteq>\<^sub>m w_files w"
  shows "world_ok n used w'"
proof -
  have names: "w_shm_names w' name = Some i \<Longrightarrow> w_shm_names w name = Some i" for name i
    using assms(4) by (metis domI map_le_def)
  have files: "w_files w' path = Some t \<Longrightarrow> w_files w path = Some t" for path t
    using assms(5) by (metis domI map_le_def)
  have sizes: "i < w_next w \<Longrightarrow> sg_size (w_segments w' i) = sg_size (w_segments w i)" for i
    using assms(2) by (simp add: evolves_def)
  have known: "w_shm_names w name = Some i \<Longrightarrow> i < w_next w \<and> name \<in> used" for name i
    using assms(1) by (simp add: world_ok_def)
  have "good_file used w' t" if "w_files w' path = Some t" for path t
  proof -
    have "good_file used w t" using assms(1) files [OF that] unfolding world_ok_def by blast
    then obtain m where m: "t = Coord_json m" "readable_name (cm_shm_name m)" "cm_shm_name m \<in> used"
      and at: "\<And>i. w_shm_names w (cm_shm_name m) = Some i \<Longrightarrow> sg_size (w_segments w i) = cm_shm_size m"
      unfolding good_file_def by blast
    have "sg_size (w_segments w' i) = cm_shm_size m" if "w_shm_names w' (cm_shm_name m) = Some i" for i
      using at [OF names [OF that]] sizes known [OF names [OF that]] by simp
    then show ?thesis using m unfolding good_file_def by blast
  qed
  moreover have "good_segment n (w_segments w' i)" if "i < w_next w" for i
    using assms(1,2) that by (simp add: world_ok_def evolves_def)
  moreover have "i < w_next w \<and> name \<in> used" if "w_shm_names w' name = Some i" for name i
    using known names [OF that] by blast
  ultimately show ?thesis using assms(3) unfolding world_ok_def by simp
qed

lemma in_remove_nth: "x \<in> set (remove_nth k xs) \<Longrightarrow> x \<in> set xs"
  by (auto simp: remove_nth_def dest: in_set_takeD in_set_dropD)

section \<open>What the calls do to a system in order\<close>

lemma formatted_push:
  assumes g: "formatted (Suc n) g" and small: "\<not> sl_payload_size (sg_layout g) < plen"
    and room: "\<not> Simplified_IsFull (sg_layout g)"
  shows "\<exists>g'. send_message fid payload plen g = (True, g') \<and> formatted n g' \<and> sg_size g' = sg_size g"
proof -
  from g have inv: "segment_inv (Suc n) g" by (simp add: formatted_def)
  from send_message_ok [OF inv room, of fid payload plen] obtain g' where
    send: "send_message fid payload plen g = (True, g')" and inv': "segment_inv n g'"
    and queue: "segment_queue g' = segment_queue g @ [sent_header fid plen]" and size: "sg_size g' = sg_size g"
    by blast
  have "unat (payload_len (sent_header fid plen)) \<le> unat plen"
    by (simp add: sent_header_def unsigned_ucast_eq take_bit_nat_less_eq_self)
  also have "\<dots> \<le> unat (sl_payload_size (sg_layout g))" using small by (simp add: word_less_nat_alt not_less)
  finally have "formatted n g'"
    using g inv' queue size send_message_layout [OF send] by (auto simp: formatted_def)
  then show ?thesis using send size by blast
qed

lemma Send_effect:
  assumes "producer_ok (Suc n) w p"
  obtains r e i g where "Producer_Send fid payload plen (p, w) =
      (Some r, p\<lparr>pi_last_error := e\<rparr>, update_segment i (\<lambda>_. g) w)"
    and "formatted n g" and "sg_size g = sg_size (w_segments w i)"
proof -
  from assms obtain i where p: "pi_layout p = Mapped i" "pi_valid p" and g: "formatted (Suc n) (w_segments w i)"
    by (auto simp: producer_ok_def well_typed_def)
  let ?g = "w_segments w i"
  have same: "w = update_segment i (\<lambda>_. ?g) w" by (simp add: update_segment_same)
  consider (big) "sl_payload_size (sg_layout ?g) < plen"
    | (full) "\<not> sl_payload_size (sg_layout ?g) < plen" "Simplified_IsFull (sg_layout ?g)"
    | (room) "\<not> sl_payload_size (sg_layout ?g) < plen" "\<not> Simplified_IsFull (sg_layout ?g)" by blast
  then show thesis
  proof cases
    case big
    then show thesis
      using that [of Send_kError "''Payload too large''" i ?g] same formatted_less [OF g] by (simp add: Send_eq [OF p])
  next
    case full
    then show thesis
      using that [of Send_kQueueFull "pi_last_error p" i ?g] same formatted_less [OF g] by (simp add: Send_eq [OF p])
  next
    case room
    from formatted_push [OF g this, of fid payload] obtain g' where
      "send_message fid payload plen ?g = (True, g')" "formatted n g'" "sg_size g' = sg_size ?g" by blast
    then show thesis
      using room that [of Send_kSuccess "pi_last_error p" i g'] by (simp add: Send_eq [OF p])
  qed
qed

lemma formatted_pop:
  assumes g: "formatted n g" and queue: "segment_queue g = h # hs"
  shows "formatted n (g\<lparr>sg_layout := Simplified_ForceAdvanceReadIndex 1 (sg_layout g)\<rparr>)"
  using assms segment_inv_pop [of n g] take_message_front(3) [OF queue]
  by (simp add: formatted_def) (simp add: Simplified_ForceAdvanceReadIndex_def)

lemma Receive_effect:
  assumes "consumer_ok (Suc n) w c"
  obtains h bs e i g where "Consumer_Receive want kill0 (\<lambda>g. g) (c, w) =
      (Some (h, bs), c\<lparr>ci_last_error := e\<rparr>, update_segment i (\<lambda>_. g) w)"
    and "formatted n g" and "sg_size g = sg_size (w_segments w i)"
    and "length bs \<le> unat (Consumer_GetPayloadSize c w)"
proof -
  from assms obtain i where c: "ci_layout c = Mapped i" "ci_valid c" and g: "formatted (Suc n) (w_segments w i)"
    by (auto simp: consumer_ok_def well_typed_def)
  let ?g = "w_segments w i"
  have same: "w = update_segment i (\<lambda>_. ?g) w" by (simp add: update_segment_same)
  have keep: "formatted n ?g" using g by (rule formatted_less)
  consider (gone) "\<not> Consumer_IsProducerAlive kill0 c"
    | (empty) "Consumer_IsProducerAlive kill0 c" "segment_queue ?g = []"
    | (front) h hs where "Consumer_IsProducerAlive kill0 c" "segment_queue ?g = h # hs"
    by (metis list.exhaust)
  then show thesis
  proof cases
    case gone
    then show thesis
      using that [of None "[]" "''Producer has exited''" i ?g] same keep by (simp add: Receive_eq [OF c])
  next
    case empty
    then show thesis using that [of None "[]" "ci_last_error c" i ?g] same keep by (simp add: Receive_eq [OF c])
  next
    case front
    let ?g' = "?g\<lparr>sg_layout := Simplified_ForceAdvanceReadIndex 1 (sg_layout ?g)\<rparr>"
    let ?bs = "if payload_len h > 0 \<and> want then segment_payload (unat (payload_len h)) ?g else []"
    have "unat (payload_len h) \<le> unat (sl_payload_size (sg_layout ?g))"
      using g front(2) by (simp add: formatted_def)
    then have "length ?bs \<le> unat (Consumer_GetPayloadSize c w)"
      using c by (simp add: Consumer_GetPayloadSize_def Simplified_GetPayloadSize_def segment_payload_def)
    then show thesis
      using front that [of _ ?bs "ci_last_error c" i ?g'] formatted_pop [OF keep front(2)]
      by (simp add: Receive_eq [OF c] take_message_front [OF front(2)] Let_def)
  qed
qed

text \<open>The destructors: the handle is empty afterwards, and doing it twice is doing it once.\<close>

definition unmapped :: "mapping_ptr \<Rightarrow> mapping_ptr" where
  "unmapped a = (if a = Map_failed then Map_failed else Null)"

lemma Producer_Cleanup_eq:
  "Producer_Cleanup env (p, w) =
     (p\<lparr>pi_coord_file_path := [], pi_shm_fd := None, pi_shm_addr := unmapped (pi_shm_addr p), pi_layout := Null,
        pi_valid := False\<rparr>,
      if pi_coord_file_path p = [] then w
      else w\<lparr>w_files := snd (Coord_Delete (pe_unlink_ok env) (pi_coord_file_path p) (w_files w))\<rparr>)"
  by (cases p; cases "pi_coord_file_path p = []"; cases "pi_shm_addr p"; cases "pi_shm_fd p")
    (simp_all add: Producer_Cleanup_def unmapped_def)

lemma Producer_destroy_eq:
  "Producer_destroy env (p, w) =
     (if pi_coord_file_path p = [] then w
      else w\<lparr>w_files := snd (Coord_Delete (pe_unlink_ok env) (pi_coord_file_path p) (w_files w))\<rparr>)"
  by (simp add: Producer_wrapper_defs Producer_Cleanup_eq)

lemma Consumer_Cleanup_eq:
  "Consumer_Cleanup (c, w) =
     (c\<lparr>ci_shm_name := [], ci_shm_fd := None, ci_shm_addr := unmapped (ci_shm_addr c), ci_layout := Null,
        ci_valid := False\<rparr>,
      if ci_shm_name c = [] then w else shm_unlink (ci_shm_name c) w)"
  by (cases c; cases "ci_shm_name c = []"; cases "ci_shm_addr c"; cases "ci_shm_fd c")
    (simp_all add: Consumer_Cleanup_def unmapped_def)

lemma Consumer_destroy_eq:
  "Consumer_destroy (c, w) = (if ci_shm_name c = [] then w else shm_unlink (ci_shm_name c) w)"
  by (simp add: Consumer_wrapper_defs Consumer_Cleanup_eq)

lemma files_cleaned: "snd (Coord_Delete ok path fs) \<subseteq>\<^sub>m fs"
  by (auto simp: Coord_Delete_def map_le_def)

lemma Producer_destroy_effect:
  obtains fs where "Producer_destroy env (p, w) = w\<lparr>w_files := fs\<rparr>" and "fs \<subseteq>\<^sub>m w_files w"
proof (cases "pi_coord_file_path p = []")
  case True
  then show thesis using that [of "w_files w"] by (simp add: Producer_destroy_eq)
next
  case False
  then show thesis
    using that [of "snd (Coord_Delete (pe_unlink_ok env) (pi_coord_file_path p) (w_files w))"]
    by (simp add: Producer_destroy_eq files_cleaned)
qed

definition unlinked :: "string \<Rightarrow> ipc_world \<Rightarrow> ipc_world" where
  "unlinked name w = (if name = [] then w else shm_unlink name w)"

lemma unlink_effect:
  obtains names where "unlinked name w = w\<lparr>w_shm_names := names\<rparr>" and "names \<subseteq>\<^sub>m w_shm_names w"
proof (cases "name = []")
  case True
  then show thesis using that [of "w_shm_names w"] by (simp add: unlinked_def)
next
  case False
  then show thesis
    using that [of "(w_shm_names w)(name := None)"] by (auto simp: unlinked_def shm_unlink_def map_le_def)
qed

lemma Consumer_destroy_effect:
  obtains names where "Consumer_destroy (c, w) = w\<lparr>w_shm_names := names\<rparr>" and "names \<subseteq>\<^sub>m w_shm_names w"
  using unlink_effect [of "ci_shm_name c" w] by (metis Consumer_destroy_eq unlinked_def)

lemma Read_missing: "fs path = None \<Longrightarrow> Coord_Read fs path m0 = (Returned kFileNotFound, m0)"
  by (simp add: Coord_Read_def)

lemma Read_good:
  assumes "good_file used w t" and "w_files w path = Some t"
  obtains m where "Coord_Read (w_files w) path m0 = (Returned kSuccess, m)"
    and "\<forall>i. w_shm_names w (cm_shm_name m) = Some i \<longrightarrow> sg_size (w_segments w i) = cm_shm_size m"
  using assms that Read_created by (auto simp: good_file_def readable_name_def)

definition attached_consumer :: "string \<Rightarrow> CoordinationMetadata \<Rightarrow> nat \<Rightarrow> ipc_world \<Rightarrow> ConsumerImpl" where
  "attached_consumer path m i w =
     \<lparr>ci_coord_file_path = path, ci_shm_name = cm_shm_name m, ci_shm_fd = Some i, ci_shm_addr = Mapped i,
      ci_shm_size = cm_shm_size m, ci_layout = Mapped i, ci_last_error = [], ci_valid = True,
      ci_producer_pid = Simplified_GetProducerPid (sg_layout (w_segments w i))\<rparr>"

definition attachable :: "consumer_env \<Rightarrow> CoordinationMetadata \<Rightarrow> ipc_world \<Rightarrow> nat \<Rightarrow> bool" where
  "attachable env m w i \<longleftrightarrow> w_shm_names w (cm_shm_name m) = Some i \<and> attach_calls_ok env \<and>
     SimplifiedFactory_Get (sg_layout (w_segments w i)) \<noteq> None"

lemma shm_unlink_twice [simp]: "shm_unlink name (shm_unlink name w) = shm_unlink name w"
  by (simp add: shm_unlink_def)

lemma Attach_success:
  assumes "Coord_Read (w_files w) path (ce_metadata env) = (Returned kSuccess, m)" and "attachable env m w i"
  shows "Consumer_Attach env path w = (Inr (Some (attached_consumer path m i w)), w)"
  using assms
  by (auto simp: Consumer_Attach_def Consumer_Initialize_outer_def Consumer_Initialize_def Let_def attachable_def
      attach_calls_ok_def shm_open_existing_def SimplifiedFactory_Get_def attached_consumer_def Consumer_construct_def split: if_splits)

lemma Attach_failure:
  assumes "Coord_Read (w_files w) path (ce_metadata env) = (Returned r, m)"
    and "\<And>i. r = kSuccess \<Longrightarrow> \<not> attachable env m w i"
  shows "Consumer_Attach env path w = (Inr None, if r = kSuccess then unlinked (cm_shm_name m) w else w)"
proof (cases "r = kSuccess")
  case False
  then show ?thesis
    using assms(1)
    by (simp add: Consumer_Attach_def Consumer_Initialize_outer_def Consumer_Initialize_def Consumer_destroy_eq
        Consumer_construct_def)
next
  case True
  note defs = Consumer_Attach_def Consumer_Initialize_outer_def Consumer_Initialize_def Consumer_destroy_eq
    Consumer_Cleanup_eq unlinked_def attachable_def attach_calls_ok_def shm_open_existing_def Let_def
  show ?thesis
  proof (cases "w_shm_names w (cm_shm_name m)")
    case None
    then show ?thesis using True assms(1) by (auto simp: defs split: option.split)
  next
    case (Some i)
    then show ?thesis
      using True assms(1) assms(2) [OF True, of i]
      by (cases "ce_shm_open_error env"; cases "ce_mmap_error env") (auto simp: defs)
  qed
qed

text \<open>On the files of a world in order an attach never throws. It returns a well-typed consumer and
  leaves the world alone, or it returns null and may have unlinked the name.\<close>

lemma Attach_effect:
  assumes ok: "world_ok n used w"
  shows "(\<exists>c. Consumer_Attach env path w = (Inr (Some c), w) \<and> consumer_ok n w c) \<or>
    (\<exists>names. Consumer_Attach env path w = (Inr None, w\<lparr>w_shm_names := names\<rparr>) \<and> names \<subseteq>\<^sub>m w_shm_names w)"
proof (cases "w_files w path")
  case None
  have "w\<lparr>w_shm_names := w_shm_names w\<rparr> = w" by simp
  then have "Consumer_Attach env path w = (Inr None, w\<lparr>w_shm_names := w_shm_names w\<rparr>)"
    using Attach_failure [OF Read_missing [where fs = "w_files w" and path = path, OF None]] by simp
  then show ?thesis using map_le_refl by blast
next
  case (Some t)
  then have "good_file used w t" using ok by (simp add: world_ok_def)
  then obtain m where read: "Coord_Read (w_files w) path (ce_metadata env) = (Returned kSuccess, m)"
    and sizes: "\<forall>i. w_shm_names w (cm_shm_name m) = Some i \<longrightarrow> sg_size (w_segments w i) = cm_shm_size m"
    using Some by (rule Read_good)
  show ?thesis
  proof (cases "\<exists>i. attachable env m w i")
    case True
    then obtain i where i: "attachable env m w i" by blast
    then have name: "w_shm_names w (cm_shm_name m) = Some i"
      and valid: "SimplifiedFactory_Get (sg_layout (w_segments w i)) \<noteq> None" by (simp_all add: attachable_def)
    then have "i < w_next w" "good_segment n (w_segments w i)" "sg_size (w_segments w i) = cm_shm_size m"
      using ok sizes by (auto simp: world_ok_def)
    moreover from this valid have "formatted n (w_segments w i)" by (simp add: good_segment_def)
    ultimately have "consumer_ok n w (attached_consumer path m i w)"
      by (simp add: consumer_ok_def well_typed_def attached_consumer_def)
    then show ?thesis using Attach_success [OF read i] by blast
  next
    case False
    obtain names where "unlinked (cm_shm_name m) w = w\<lparr>w_shm_names := names\<rparr>" "names \<subseteq>\<^sub>m w_shm_names w"
      by (rule unlink_effect)
    then show ?thesis using Attach_failure [OF read] False by auto
  qed
qed

text \<open>A creation makes at most one new segment, under a name of its own, and adds or removes one file.\<close>

definition with_segment :: "string \<Rightarrow> Segment \<Rightarrow> ipc_world \<Rightarrow> ipc_world" where
  "with_segment name g w =
     w\<lparr>w_shm_names := (w_shm_names w)(name \<mapsto> w_next w), w_segments := (w_segments w)(w_next w := g),
       w_next := Suc (w_next w)\<rparr>"

lemma shm_open_create_new:
  "w_shm_names w name = None \<Longrightarrow> shm_open_create name w = (w_next w, with_segment name fresh_segment w)"
  by (simp add: shm_open_create_def with_segment_def)

lemma with_segment_simps [simp]:
  "update_segment (w_next w) f (with_segment name g w) = with_segment name (f g) w"
  "w_files (with_segment name g w) = w_files w"
  "w_segments (with_segment name g w) (w_next w) = g"
  by (simp_all add: update_segment_def with_segment_def)

lemma with_segment_evolves: "evolves n w (with_segment name g w)"
  by (simp add: evolves_def with_segment_def formatted_less good_segment_less)

lemma with_segment_ok:
  assumes ok: "world_ok (Suc n) used w" and name: "name \<notin> used" and g: "good_segment n g"
  shows "world_ok n (insert name used) (with_segment name g w)"
proof -
  let ?w = "with_segment name g w"
  have files: "good_file (insert name used) ?w t" if t: "w_files w path = Some t" for path t
  proof -
    have "good_file used w t" using ok t by (simp add: world_ok_def)
    then obtain m where m: "t = Coord_json m" "readable_name (cm_shm_name m)" "cm_shm_name m \<in> used"
      and at: "\<And>i. w_shm_names w (cm_shm_name m) = Some i \<Longrightarrow> sg_size (w_segments w i) = cm_shm_size m"
      unfolding good_file_def by blast
    have "sg_size (w_segments ?w i) = cm_shm_size m" if "w_shm_names ?w (cm_shm_name m) = Some i" for i
    proof -
      have i: "w_shm_names w (cm_shm_name m) = Some i"
        using that m(3) name by (auto simp: with_segment_def split: if_splits)
      then have "i < w_next w" using ok by (simp add: world_ok_def)
      then show ?thesis using at [OF i] by (simp add: with_segment_def)
    qed
    then show ?thesis using m unfolding good_file_def by blast
  qed
  moreover have "good_segment n (w_segments ?w i)" if "i < w_next ?w" for i
    using ok g that by (auto simp: with_segment_def world_ok_def less_Suc_eq good_segment_less)
  moreover have "i < w_next ?w \<and> a \<in> insert name used" if "w_shm_names ?w a = Some i" for a i
    using ok that by (auto simp: with_segment_def world_ok_def less_Suc_eq split: if_splits)
  ultimately show ?thesis by (simp add: world_ok_def)
qed

lemma good_file_insert: "good_file used w t \<Longrightarrow> good_file (insert name used) w t"
  by (auto simp: good_file_def)

lemma world_ok_used: "world_ok (Suc n) used w \<Longrightarrow> world_ok n (insert name used) w"
  by (auto simp: world_ok_def good_file_insert good_segment_less)

lemma world_ok_files:
  assumes "world_ok n used w" and "\<And>path t. fs path = Some t \<Longrightarrow> w_files w path = Some t \<or> good_file used w t"
  shows "world_ok n used (w\<lparr>w_files := fs\<rparr>)"
  using assms unfolding world_ok_def good_file_def by simp metis

lemma world_ok_fewer_files: "world_ok n used w \<Longrightarrow> fs \<subseteq>\<^sub>m w_files w \<Longrightarrow> world_ok n used (w\<lparr>w_files := fs\<rparr>)"
  by (rule world_ok_files) (metis domI map_le_def)+

lemma readable_generated: "readable_name (generated_name env)"
  using length_int_digits_u64 [of "scast (pe_pid env)"] length_int_digits_u64 [of "pe_name_time env"]
  by (simp add: readable_name_def generated_name_def Coord_GenerateShmName_def digits_free field_keys_def sint_scast_pid)

text \<open>An attach through the file a creation has written.\<close>

lemma Attach_created:
  fixes env path c plen i
  defines "m \<equiv> Producer_metadata env c plen (created_producer env path c plen i)"
  assumes "w_files w path = Some (Coord_json m)" and "w_shm_names w (generated_name env) = Some i"
    and "SimplifiedFactory_Get (sg_layout (w_segments w i)) \<noteq> None" and "attach_calls_ok cenv"
  shows "Consumer_Attach cenv path w = (Inr (Some (attached_consumer path m i w)), w)"
proof -
  have name: "cm_shm_name m = generated_name env"
    by (simp add: m_def Producer_metadata_def created_producer_def generated_name_def)
  have "readable_name (generated_name env)" by (rule readable_generated)
  then have "Coord_Read (w_files w) path (ce_metadata cenv) = (Returned kSuccess, m)"
    using assms(2) name by (intro Read_created) (simp_all add: readable_name_def)
  moreover have "attachable cenv m w i" using assms(3-5) name by (simp add: attachable_def)
  ultimately show ?thesis by (rule Attach_success)
qed

lemma destroy_after_Cleanup: "Producer_destroy env (Producer_Cleanup env (p, w)) = Producer_destroy env (p, w)"
  by (simp add: Producer_destroy_eq Producer_Cleanup_eq)

text \<open>How far a creation comes, and the world it leaves.\<close>

lemma Create_stages:
  assumes free: "w_shm_names w (generated_name env) = None" and size: "Simplified_CalculateSize c plen \<noteq> 0"
  shows "pe_shm_open_error env \<noteq> None \<Longrightarrow>
      \<exists>p. Producer_Create env path c plen w = (None, Producer_destroy env (p, w))"
    and "pe_shm_open_error env = None \<Longrightarrow> pe_ftruncate_error env \<noteq> None \<Longrightarrow>
      \<exists>p. Producer_Create env path c plen w =
        (None, Producer_destroy env (p, with_segment (generated_name env) fresh_segment w))"
    and "pe_shm_open_error env = None \<Longrightarrow> pe_ftruncate_error env = None \<Longrightarrow> pe_mmap_error env \<noteq> None \<Longrightarrow>
      \<exists>p. Producer_Create env path c plen w = (None, Producer_destroy env (p,
        with_segment (generated_name env) (fresh_segment\<lparr>sg_size := Simplified_CalculateSize c plen\<rparr>) w))"
  using free size
  by (auto simp: Producer_Create_def Producer_Initialize_outer_def Producer_Initialize_def Let_def
      shm_open_create_new generated_name_def)

lemma Create_mapped_stage:
  assumes free: "w_shm_names w (generated_name env) = None" and size: "Simplified_CalculateSize c plen \<noteq> 0"
    and calls: "pe_shm_open_error env = None" "pe_ftruncate_error env = None" "pe_mmap_error env = None"
    and layout: "SimplifiedFactory_Create (pe_layout_time env) (Simplified_CalculateSize c plen) c plen (pe_pid env)
      Simplified_construct = (True, L)"
    and coord: "Coord_Create (pe_posix env) path
      (Producer_metadata env c plen (created_producer env path c plen (w_next w))) (w_files w) = (r, fs)"
    and g: "g = \<lparr>sg_size = Simplified_CalculateSize c plen, sg_layout = L, sg_memory = (\<lambda>_. 0)\<rparr>"
  shows "r = kSuccess \<Longrightarrow> Producer_Create env path c plen w =
      (Some (created_producer env path c plen (w_next w)), (with_segment (generated_name env) g w)\<lparr>w_files := fs\<rparr>)"
    and "r \<noteq> kSuccess \<Longrightarrow> \<exists>p. Producer_Create env path c plen w =
      (None, Producer_destroy env (p, (with_segment (generated_name env) g w)\<lparr>w_files := fs\<rparr>))"
  using assms
  by (auto simp: Producer_Create_def Producer_Initialize_outer_def Producer_Initialize_def
      Producer_Initialize_mapped_def Let_def shm_open_create_new generated_name_def fresh_segment_def
      created_producer_def Producer_construct_def Producer_metadata_def split_beta destroy_after_Cleanup)

text \<open>Everything a creation under a new name can do.\<close>

lemma evolves_files: "evolves n w (w1\<lparr>w_files := fs\<rparr>) = evolves n w w1"
  by (simp add: evolves_def)

lemma world_ok_destroyed:
  assumes "world_ok n used w1" and "evolves n w w1"
  shows "world_ok n used (Producer_destroy env (p, w1)) \<and> evolves n w (Producer_destroy env (p, w1))"
  using assms Producer_destroy_effect [of env p w1] world_ok_fewer_files evolves_files by metis

definition only_new_segment :: "ipc_world \<Rightarrow> ipc_world \<Rightarrow> bool" where
  "only_new_segment w w' \<longleftrightarrow> w_next w \<le> w_next w' \<and>
     (\<forall>j. w_segments w' j = w_segments w j \<or>
        j = w_next w \<and> j < w_next w' \<and> segment_queue (w_segments w' j) = [])"

lemma only_new_segment_with: "segment_queue g = [] \<Longrightarrow> only_new_segment w (with_segment name g w)"
  by (simp add: only_new_segment_def with_segment_def)

lemma only_new_segment_destroyed:
  assumes "only_new_segment w w1"
  shows "only_new_segment w (Producer_destroy env (p, w1))"
proof -
  obtain fs where "Producer_destroy env (p, w1) = w1\<lparr>w_files := fs\<rparr>" by (rule Producer_destroy_effect)
  then show ?thesis using assms by (simp add: only_new_segment_def)
qed

lemma fresh_segment_queue [simp]:
  "segment_queue fresh_segment = []" "segment_queue (fresh_segment\<lparr>sg_size := k\<rparr>) = []"
  by (simp_all add: segment_queue_def fresh_segment_def Simplified_contents_def idx_contents_def Simplified_construct_def)

lemma Create_effect:
  assumes ok: "world_ok (Suc n) used w" and fresh: "generated_name env \<notin> used" and n: "n < 2 ^ 64"
    and fits: "320 + 16 * unat c + unat plen < 2 ^ 64" and pos: "0 < unat c"
    and tmp: "mkstemp_fresh (pe_posix env) path (w_files w)"
  shows "case Producer_Create env path c plen w of (r, w') \<Rightarrow>
    world_ok n (insert (generated_name env) used) w' \<and> evolves n w w' \<and> only_new_segment w w' \<and>
    (\<forall>p. r = Some p \<longrightarrow> producer_ok n w' p)"
proof -
  let ?name = "generated_name env" and ?sz = "Simplified_CalculateSize c plen"
  let ?new = "\<lambda>g. with_segment ?name g w" and ?used = "insert ?name used"
  have free: "w_shm_names w ?name = None"
    using ok fresh by (cases "w_shm_names w ?name") (auto simp: world_ok_def)
  note size = CalculateSize_exact [OF fits]
  then have nz: "?sz \<noteq> 0" and big: "\<not> ?sz < 320" by (auto simp: word_less_nat_alt)
  have blank: "good_segment n (fresh_segment\<lparr>sg_size := k\<rparr>)" for k
    by (simp add: good_segment_def fresh_segment_def SimplifiedFactory_Get_def Simplified_IsValid_def
        Simplified_construct_def Simplified_kMagicNumber_def)
  have new: "world_ok n ?used (?new g)" if "good_segment n g" for g
    using with_segment_ok [OF ok fresh that] .
  have fail: ?thesis if "\<exists>p. Producer_Create env path c plen w = (None, Producer_destroy env (p, w1))"
    and "world_ok n ?used w1" and "evolves n w w1" and "only_new_segment w w1" for w1
    using that(1) world_ok_destroyed [OF that(2,3)] only_new_segment_destroyed [OF that(4)] by auto
  note stages = Create_stages [OF free nz, of path]
  consider (early) "pe_shm_open_error env \<noteq> None"
    | (size) "pe_shm_open_error env = None" "pe_ftruncate_error env \<noteq> None"
    | (map) "pe_shm_open_error env = None" "pe_ftruncate_error env = None" "pe_mmap_error env \<noteq> None"
    | (mapped) "pe_shm_open_error env = None" "pe_ftruncate_error env = None" "pe_mmap_error env = None"
    by blast
  then show ?thesis
  proof cases
    case early
    show ?thesis
      by (rule fail [OF stages(1) [OF early] world_ok_used [OF ok] evolves_same_segments])
        (simp_all add: only_new_segment_def)
  next
    case size
    have "good_segment n fresh_segment" using blank [of 0] by (simp add: fresh_segment_def)
    from fail [OF stages(2) [OF size] new [OF this] with_segment_evolves only_new_segment_with] show ?thesis by simp
  next
    case map
    from fail [OF stages(3) [OF map] new [OF blank] with_segment_evolves only_new_segment_with] show ?thesis by simp
  next
    case mapped
    let ?p = "created_producer env path c plen (w_next w)"
    let ?m = "Producer_metadata env c plen ?p"
    from Initialize_fits [OF fits, of "pe_layout_time env" ?sz "pe_pid env" Simplified_construct] size
    obtain L where init: "Simplified_Initialize (pe_layout_time env) ?sz c plen (pe_pid env)
        Simplified_construct = (True, L)" by (metis (full_types) fst_conv order_refl surj_pair)
    then have layout: "SimplifiedFactory_Create (pe_layout_time env) ?sz c plen (pe_pid env) Simplified_construct =
        (True, L)" using big by (simp add: SimplifiedFactory_Create_def)
    define g where "g = \<lparr>sg_size = ?sz, sg_layout = L, sg_memory = (\<lambda>_. 0 :: u8)\<rparr>"
    have "320 + 16 * unat c + unat plen \<le> unat ?sz" using size by simp
    note facts = Initialize_inv [OF fits this pos init n]
    have queue: "segment_queue g = []"
      using facts(2) by (simp add: g_def segment_queue_def Simplified_contents_def idx_contents_def Simplified_IsEmpty_def)
    have "sl_shm_size L = ?sz" using init by (auto simp: Simplified_Initialize_def Let_def split: if_splits)
    then have g: "formatted n g" using facts(1) queue by (simp add: formatted_def segment_inv_def g_def)
    then have good: "world_ok n ?used (?new g)" by (intro new) (simp add: good_segment_def)
    obtain r fs where coord: "Coord_Create (pe_posix env) path ?m (w_files w) = (r, fs)" by fastforce
    note stage = Create_mapped_stage [OF free nz mapped layout coord g_def]
    show ?thesis
    proof (cases "r = kSuccess")
      case False
      then have "fs = w_files w" using Create_cases [OF tmp coord] by blast
      then have "(?new g)\<lparr>w_files := fs\<rparr> = ?new g" by (simp add: with_segment_def)
      then show ?thesis using fail [OF _ good with_segment_evolves only_new_segment_with [OF queue]] stage(2) [OF False] by simp
    next
      case True
      then have fs: "fs = (w_files w)(path \<mapsto> Coord_json ?m)" using Create_cases [OF tmp coord] by auto
      have "readable_name ?name" by (rule readable_generated)
      then have "good_file ?used (?new g) (Coord_json ?m)"
        unfolding good_file_def
        by (intro exI [of _ ?m]) (simp add: Producer_metadata_def created_producer_def generated_name_def [symmetric]
            with_segment_def g_def)
      then have "world_ok n ?used ((?new g)\<lparr>w_files := fs\<rparr>)"
        by (intro world_ok_files [OF good]) (auto simp: fs split: if_splits)
      moreover have "producer_ok n ((?new g)\<lparr>w_files := fs\<rparr>) ?p"
        using g by (simp add: producer_ok_def well_typed_def created_producer_def with_segment_def) (simp add: g_def)
      moreover have "only_new_segment w ((?new g)\<lparr>w_files := fs\<rparr>)"
        using only_new_segment_with [OF queue, of w ?name] by (simp add: only_new_segment_def)
      ultimately show ?thesis using stage(1) [OF True] with_segment_evolves by (simp add: evolves_files)
    qed
  qed
qed

section \<open>The invariant of the system\<close>

lemma pointers_ok_error:
  "producer_ok n w (p\<lparr>pi_last_error := e\<rparr>) = producer_ok n w p"
  "consumer_ok n w (c\<lparr>ci_last_error := e\<rparr>) = consumer_ok n w c"
  by (simp_all add: producer_ok_def consumer_ok_def)

lemma world_ok_step:
  "world_ok (Suc n) used w \<Longrightarrow> evolves n w (update_segment i (\<lambda>_. g) w) \<Longrightarrow> world_ok n used (update_segment i (\<lambda>_. g) w)"
  by (erule world_ok_evolves) simp_all

lemma in_update: "x \<in> set (xs[k := y]) \<Longrightarrow> x = y \<or> x \<in> set xs"
  by (metis insert_iff set_update_subset_insert subsetD)

text \<open>What is left to show of a step: the world, and the handles that are new or changed.\<close>

lemma system_okI:
  assumes "system_ok (Suc n) s" and "evolves n (sy_world s) (sy_world s')"
    and "world_ok n (set (sy_used s')) (sy_world s')"
    and "\<And>p. p \<in> set (sy_producers s') \<Longrightarrow> p \<notin> set (sy_producers s) \<Longrightarrow> producer_ok n (sy_world s') p"
    and "\<And>c. c \<in> set (sy_consumers s') \<Longrightarrow> c \<notin> set (sy_consumers s) \<Longrightarrow> consumer_ok n (sy_world s') c"
  shows "system_ok n s'"
  unfolding system_ok_def
proof (intro conjI ballI)
  fix p assume p: "p \<in> set (sy_producers s')"
  have "producer_ok (Suc n) (sy_world s) p" if "p \<in> set (sy_producers s)"
    using assms(1) that by (simp add: system_ok_def)
  then show "producer_ok n (sy_world s') p" using assms(4) [OF p] producer_ok_evolves [OF assms(2)] by blast
next
  fix c assume c: "c \<in> set (sy_consumers s')"
  have "consumer_ok (Suc n) (sy_world s) c" if "c \<in> set (sy_consumers s)"
    using assms(1) that by (simp add: system_ok_def)
  then show "consumer_ok n (sy_world s') c" using assms(5) [OF c] consumer_ok_evolves [OF assms(2)] by blast
qed (rule assms(3))

lemma act_keeps_order:
  assumes ok: "system_ok (Suc n) s" and adm: "admissible a s" and n: "n < 2 ^ 64"
  shows "system_ok n (ipc_act a s)"
proof -
  let ?w = "sy_world s"
  have w: "world_ok (Suc n) (set (sy_used s)) ?w"
    and ps: "\<And>p. p \<in> set (sy_producers s) \<Longrightarrow> producer_ok (Suc n) ?w p"
    and cs: "\<And>c. c \<in> set (sy_consumers s) \<Longrightarrow> consumer_ok (Suc n) ?w c"
    using ok by (simp_all add: system_ok_def)
  have ev0: "evolves n ?w ?w" by (rule evolves_same_segments) simp_all
  have w0: "world_ok n (set (sy_used s)) ?w" by (rule world_ok_evolves [OF w ev0]) simp_all
  have same: "system_ok n s" by (rule system_okI [OF ok]) (simp_all add: ev0 w0)
  have shrink: "world_ok n (set (sy_used s)) w' \<and> evolves n ?w w'"
    if "w' = ?w\<lparr>w_files := fs\<rparr> \<or> w' = ?w\<lparr>w_shm_names := names\<rparr>" "fs \<subseteq>\<^sub>m w_files ?w" "names \<subseteq>\<^sub>m w_shm_names ?w"
    for w' fs names
  proof -
    have ev: "evolves n ?w w'" using that(1) by (intro evolves_same_segments) auto
    show ?thesis using that world_ok_evolves [OF w ev] ev by auto
  qed
  show ?thesis
  proof (cases a)
    case (Act_create env path c plen)
    then show ?thesis
      using Create_effect [OF w _ n, of env c plen path] adm
      by (auto intro!: system_okI [OF ok] split: prod.splits option.splits)
  next
    case (Act_send k fid payload plen)
    show ?thesis
    proof (cases "k < length (sy_producers s)")
      case True
      let ?p = "sy_producers s ! k"
      have p: "producer_ok (Suc n) ?w ?p" using ps True by simp
      then obtain r e i g where send: "Producer_Send fid payload plen (?p, ?w) =
          (Some r, ?p\<lparr>pi_last_error := e\<rparr>, update_segment i (\<lambda>_. g) ?w)"
        and g: "formatted n g" "sg_size g = sg_size (w_segments ?w i)" by (rule Send_effect)
      note ev = evolves_update [OF g]
      have "producer_ok n (update_segment i (\<lambda>_. g) ?w) (?p\<lparr>pi_last_error := e\<rparr>)"
        using producer_ok_evolves [OF ev p] by (simp add: pointers_ok_error)
      then show ?thesis
        using True send world_ok_step [OF w ev] ev Act_send
        by (auto intro!: system_okI [OF ok] dest!: in_update)
    qed (simp add: Act_send same)
  next
    case (Act_destroy_producer env k)
    obtain fs where "Producer_destroy env (sy_producers s ! k, ?w) = ?w\<lparr>w_files := fs\<rparr>" "fs \<subseteq>\<^sub>m w_files ?w"
      by (rule Producer_destroy_effect)
    then show ?thesis
      using same shrink [of _ fs Map.empty] Act_destroy_producer
      by (auto intro!: system_okI [OF ok] dest: in_remove_nth)
  next
    case (Act_attach env path)
    from Attach_effect [OF w, of env path] show ?thesis
    proof (elim disjE exE conjE)
      fix c assume "Consumer_Attach env path ?w = (Inr (Some c), ?w)" and "consumer_ok (Suc n) ?w c"
      then show ?thesis
        using Act_attach consumer_ok_evolves [OF ev0] ev0 w0 by (auto intro!: system_okI [OF ok])
    next
      fix names assume "Consumer_Attach env path ?w = (Inr None, ?w\<lparr>w_shm_names := names\<rparr>)"
        and "names \<subseteq>\<^sub>m w_shm_names ?w"
      then show ?thesis
        using Act_attach shrink [of _ Map.empty names] by (auto intro!: system_okI [OF ok])
    qed
  next
    case (Act_receive k want kill0)
    show ?thesis
    proof (cases "k < length (sy_consumers s)")
      case True
      let ?c = "sy_consumers s ! k"
      have c: "consumer_ok (Suc n) ?w ?c" using cs True by simp
      then obtain h bs e i g where receive: "Consumer_Receive want kill0 (\<lambda>g. g) (?c, ?w) =
          (Some (h, bs), ?c\<lparr>ci_last_error := e\<rparr>, update_segment i (\<lambda>_. g) ?w)"
        and g: "formatted n g" "sg_size g = sg_size (w_segments ?w i)" by (rule Receive_effect)
      note ev = evolves_update [OF g]
      have "consumer_ok n (update_segment i (\<lambda>_. g) ?w) (?c\<lparr>ci_last_error := e\<rparr>)"
        using consumer_ok_evolves [OF ev c] by (simp add: pointers_ok_error)
      then show ?thesis
        using True receive world_ok_step [OF w ev] ev Act_receive
        by (auto intro!: system_okI [OF ok] dest!: in_update)
    qed (simp add: Act_receive same)
  next
    case (Act_destroy_consumer k)
    obtain names where "Consumer_destroy (sy_consumers s ! k, ?w) = ?w\<lparr>w_shm_names := names\<rparr>"
      "names \<subseteq>\<^sub>m w_shm_names ?w" by (rule Consumer_destroy_effect)
    then show ?thesis
      using same shrink [of _ Map.empty names] Act_destroy_consumer
      by (auto intro!: system_okI [OF ok] dest: in_remove_nth)
  qed
qed

lemma run_keeps_order:
  "system_ok (length acts + n) s \<Longrightarrow> admissible_run acts s \<Longrightarrow> length acts + n \<le> 2 ^ 64 \<Longrightarrow> system_ok n (ipc_run acts s)"
proof (induction acts arbitrary: s)
  case Nil
  then show ?case by simp
next
  case (Cons a acts)
  then have "system_ok (length acts + n) (ipc_act a s)" by (intro act_keeps_order) simp_all
  then show ?case using Cons by simp
qed

lemma initial_order: "system_ok n initial_system"
  by (simp add: system_ok_def initial_system_def world_ok_def empty_world_def)

section \<open>Properties\<close>

text \<open>Every slot lies between the layout and the payload buffer, which ends with the mapping.\<close>

definition accesses_inside :: "SimplifiedShmLayout \<Rightarrow> u64 \<Rightarrow> bool" where
  "accesses_inside L bytes \<longleftrightarrow>
     (\<forall>index. sizeof_SimplifiedShmLayout \<le> Simplified_GetMessage 0 index L \<and>
        Simplified_GetMessage 0 index L + 16 \<le> Simplified_GetPayload 0 0 L) \<and>
     Simplified_GetPayload 0 0 L + unat (Simplified_GetPayloadSize L) \<le> unat bytes"

lemma formatted_inside:
  assumes "formatted n g"
  shows "accesses_inside (sg_layout g) (sg_size g)"
proof -
  have hd: "Simplified_header_inv (sg_layout g)"
    using assms by (auto simp: formatted_def segment_inv_def intro: Simplified_inv_header)
  then show ?thesis
    using assms GetMessage_in_queue [OF hd, of 0]
    by (simp add: accesses_inside_def formatted_def Simplified_GetPayload_def Simplified_GetPayloadSize_def
        Simplified_header_inv_def sl_required_def)
qed

text \<open>
  C8. The handles of the library are well typed in every history of less than \<open>2 ^ 64\<close> calls, one at a time,
  in which no process creates two producers within a second and the sizes asked for have a slot and do
  not wrap around (\<open>admissible_run\<close>). Whatever producers are created and destroyed and consumers
  attached in it, whichever of them fail, and however sends and receives are interleaved, a
  producer or consumer that a call has returned is valid and its layout pointer, its mapping and
  its descriptor are the same existing segment, mapped at its full size: no query, send or receive
  meets a null or failed pointer. Two creations within a second break this; C38 shows how.
\<close>

theorem Handles_well_typed:
  assumes "admissible_run calls initial_system" and "length calls < 2 ^ 64"
  shows "let s = ipc_run calls initial_system; w = sy_world s
     in (\<forall>p \<in> set (sy_producers s). Producer_IsValid p \<and>
          (\<exists>i < w_next w. pi_layout p = Mapped i \<and> pi_shm_addr p = Mapped i \<and> pi_shm_fd p = Some i \<and>
             pi_shm_size p = sg_size (w_segments w i))) \<and>
        (\<forall>c \<in> set (sy_consumers s). Consumer_IsValid c \<and>
          (\<exists>i < w_next w. ci_layout c = Mapped i \<and> ci_shm_addr c = Mapped i \<and> ci_shm_fd c = Some i \<and>
             ci_shm_size c = sg_size (w_segments w i)))"
proof -
  have "system_ok 0 (ipc_run calls initial_system)"
    using assms initial_order by (intro run_keeps_order) simp_all
  then show ?thesis
    by (auto simp: Let_def system_ok_def producer_ok_def consumer_ok_def well_typed_def Producer_IsValid_def
        Consumer_IsValid_def)
qed

definition sample_calls :: "ipc_action list" where
  "sample_calls = [Act_create sample_env ''f'' 6 1024, Act_attach sample_consumer_env ''f'',
     Act_send 0 9 (Some [1, 2, 3]) 3, Act_receive 0 True (\<lambda>_. True), Act_destroy_consumer 0]"

lemma sample_calls_admissible: "admissible_run sample_calls initial_system"
  by (simp add: sample_calls_def initial_system_def sample_env_def sample_os_def mkstemp_fresh_def empty_world_def
      del: ipc_act.simps)

lemma sample_calls_producer: "length (sy_producers (ipc_run sample_calls initial_system)) = 1"
proof -
  from Create_succeeds [OF sample_creation_possible, of 6 1024] obtain p w where
    "Producer_Create sample_env ''f'' 6 1024 empty_world = (Some p, w)" by auto
  then show ?thesis
    by (simp add: sample_calls_def initial_system_def split_beta)
qed

theorem Handles_well_typed_witness:
  "\<exists>p. sy_producers (ipc_run sample_calls initial_system) = [p] \<and> Producer_IsValid p \<and> pi_layout p \<noteq> Null"
proof -
  obtain p where "sy_producers (ipc_run sample_calls initial_system) = [p]"
    using sample_calls_producer by (auto simp: length_Suc_conv)
  then show ?thesis
    using Handles_well_typed [OF sample_calls_admissible] by (auto simp: sample_calls_def Let_def)
qed

text \<open>
  C9. Every access to shared memory is inside the mapping, for every handle in every history of less than
  \<open>2 ^ 64 - 1\<close> calls, one at a time, in which no process creates two producers within a second and
  the sizes asked for have a slot and do not wrap around (\<open>admissible_run\<close>; without these conditions
  slots can lie outside). Each queue slot lies between the layout and the payload buffer, the payload buffer ends with the
  segment that is mapped, and a receive hands out at most \<open>GetPayloadSize\<close> bytes, so that a buffer
  of that size, which the header file asks for, is large enough whatever has been sent.
\<close>

theorem Accesses_inside_mapping:
  assumes "admissible_run calls initial_system" and "length calls < 2 ^ 64 - 1"
  shows "let s = ipc_run calls initial_system; w = sy_world s
     in (\<forall>p \<in> set (sy_producers s). \<forall>i. pi_layout p = Mapped i \<longrightarrow>
          accesses_inside (sg_layout (w_segments w i)) (pi_shm_size p)) \<and>
        (\<forall>c \<in> set (sy_consumers s). \<forall>i. ci_layout c = Mapped i \<longrightarrow>
          accesses_inside (sg_layout (w_segments w i)) (ci_shm_size c) \<and>
          (case Consumer_Receive want kill0 (\<lambda>g. g) (c, w) of
             (Some (h, buffer), _, _) \<Rightarrow> length buffer \<le> unat (Consumer_GetPayloadSize c w)
           | (None, _, _) \<Rightarrow> False))"
proof -
  let ?s = "ipc_run calls initial_system"
  have ok: "system_ok (Suc 0) ?s"
    using assms initial_order by (intro run_keeps_order) simp_all
  have "case Consumer_Receive want kill0 (\<lambda>g. g) (c, sy_world ?s) of
      (Some (h, buffer), _, _) \<Rightarrow> length buffer \<le> unat (Consumer_GetPayloadSize c (sy_world ?s))
    | (None, _, _) \<Rightarrow> False" if "c \<in> set (sy_consumers ?s)" for c
  proof -
    have "consumer_ok (Suc 0) (sy_world ?s) c" using ok that by (simp add: system_ok_def)
    then obtain h bs e i g where "Consumer_Receive want kill0 (\<lambda>g. g) (c, sy_world ?s) =
        (Some (h, bs), c\<lparr>ci_last_error := e\<rparr>, update_segment i (\<lambda>_. g) (sy_world ?s))"
      "length bs \<le> unat (Consumer_GetPayloadSize c (sy_world ?s))" by (rule Receive_effect)
    then show ?thesis by simp
  qed
  then show ?thesis
    using ok formatted_inside
    by (fastforce simp: Let_def system_ok_def producer_ok_def consumer_ok_def well_typed_def)
qed

theorem Accesses_inside_mapping_witness:
  "\<exists>p i. sy_producers (ipc_run sample_calls initial_system) = [p] \<and> pi_layout p = Mapped i \<and>
     accesses_inside (sg_layout (w_segments (sy_world (ipc_run sample_calls initial_system)) i)) (pi_shm_size p)"
proof -
  obtain p where p: "sy_producers (ipc_run sample_calls initial_system) = [p]"
    using sample_calls_producer by (auto simp: length_Suc_conv)
  have "system_ok 0 (ipc_run sample_calls initial_system)"
    using sample_calls_admissible initial_order by (intro run_keeps_order) (simp_all add: sample_calls_def)
  then obtain i where "pi_layout p = Mapped i" using p by (auto simp: system_ok_def producer_ok_def well_typed_def)
  then show ?thesis
    using Accesses_inside_mapping [OF sample_calls_admissible] p by (auto simp: sample_calls_def Let_def)
qed

text \<open>
  C38. Two producers of one process within one second share a segment. The generated name depends on
  the process and the second only, and \<open>shm_open\<close> opens what is there, so the second creation
  resizes and re-initialises the segment of the first producer, even when it then fails: the
  first producer is still valid, but its queued messages are gone and its queue has the second
  one's capacity, whatever size it has mapped.
\<close>

theorem Producer_same_second_resets:
  assumes p: "Producer_IsValid p" "pi_layout p = Mapped i" "w_shm_names w (Producer_GetShmName p) = Some i"
    and same: "Producer_GetShmName p = Coord_GenerateShmName (pe_pid env) (pe_name_time env) ''phoenix_ipc''"
    and calls: "pe_shm_open_error env = None" "pe_ftruncate_error env = None" "pe_mmap_error env = None"
    and fits: "320 + 16 * unat c + unat plen < 2 ^ 64" and pos: "0 < unat c"
  shows "let w' = snd (Producer_Create env path c plen w)
     in w_next w' = w_next w \<and> segment_queue (w_segments w' i) = [] \<and>
        Producer_QueueCapacity p w' = c \<and> Producer_AvailableSpace p w' = c \<and>
        unat (sg_size (w_segments w' i)) = 320 + 16 * unat c + unat plen"
proof -
  let ?sz = "Simplified_CalculateSize c plen"
  note size = CalculateSize_exact [OF fits]
  then have nz: "?sz \<noteq> 0" and big: "\<not> ?sz < 320" by (auto simp: word_less_nat_alt)
  from Initialize_fits [OF fits, of "pe_layout_time env" ?sz "pe_pid env" Simplified_construct] size
  obtain L where init: "Simplified_Initialize (pe_layout_time env) ?sz c plen (pe_pid env)
      Simplified_construct = (True, L)" by (metis (full_types) fst_conv order_refl surj_pair)
  then have layout: "SimplifiedFactory_Create (pe_layout_time env) ?sz c plen (pe_pid env) L0 = (True, L)" for L0
    using big by (simp add: SimplifiedFactory_Create_def)
  have "320 + 16 * unat c + unat plen \<le> unat ?sz" using size by simp
  note facts = Initialize_inv [OF fits this pos init, of 0]
  have name: "w_shm_names w (Coord_GenerateShmName (pe_pid env) (pe_name_time env) ''phoenix_ipc'') = Some i"
    using p same by simp
  let ?w = "snd (Producer_Create env path c plen w)"
  have "w_next ?w = w_next w \<and> sg_size (w_segments ?w i) = ?sz \<and> sg_layout (w_segments ?w i) = L"
    using name nz calls layout
    by (simp add: Producer_Create_def Producer_Initialize_outer_def Producer_Initialize_def
        Producer_Initialize_mapped_def shm_open_create_def Let_def split_beta destroy_after_Cleanup
        Producer_destroy_eq)
  moreover have "sl_write_idx L = sl_read_idx L" using facts(2) by (simp add: Simplified_IsEmpty_def)
  ultimately show ?thesis
    using p facts(3) size
    by (simp add: Let_def segment_queue_def Simplified_contents_def idx_contents_def Producer_IsValid_def
        Producer_QueueCapacity_def Producer_AvailableSpace_def Simplified_GetQueueCapacity_def Simplified_FreeSpace_def)
qed

theorem Producer_same_second_resets_witness:
  "case Producer_Create sample_env ''f'' 6 1024 empty_world of
     (Some p, w) \<Rightarrow> Producer_QueueCapacity p w = 6 \<and>
       Producer_QueueCapacity p (snd (Producer_Create sample_env ''g'' 2 16 w)) = 2
   | (None, _) \<Rightarrow> False"
proof -
  let ?p = "created_producer sample_env ''f'' 6 1024 (w_next empty_world)"
  from Create_succeeds [OF sample_creation_possible, of 6 1024] obtain w L where
    create: "Producer_Create sample_env ''f'' 6 1024 empty_world = (Some ?p, w)"
    and seg: "sg_layout (w_segments w (w_next empty_world)) = L"
    and init: "Simplified_Initialize (pe_layout_time sample_env) (Simplified_CalculateSize 6 1024) 6 1024
      (pe_pid sample_env) Simplified_construct = (True, L)"
    and names: "w_shm_names w = (w_shm_names empty_world)(pi_shm_name ?p \<mapsto> w_next empty_world)" by auto
  have "sl_queue_capacity L = 6" using init by (auto simp: Simplified_Initialize_def Let_def split: if_splits)
  then have "Producer_QueueCapacity ?p w = 6"
    using seg by (simp add: Producer_QueueCapacity_def created_producer_def Simplified_GetQueueCapacity_def)
  moreover have "Producer_QueueCapacity ?p (snd (Producer_Create sample_env ''g'' 2 16 w)) = 2"
    using Producer_same_second_resets [of ?p "w_next empty_world" w sample_env 2 16 "''g''"] names
    by (simp add: Producer_IsValid_def Producer_GetShmName_def created_producer_def sample_env_def Let_def)
  ultimately show ?thesis using create by simp
qed

end
