(* ===== verification/Worker_Channel.thy ===== *)
theory Worker_Channel
  imports Spsc_Ring_Buffer
begin

text \<open>
  The pair of message rings between the parent and one worker, from
  \<open>include/phoenix/layout/worker_channel.hpp\<close>. The template parameter \<open>QSize\<close> is an argument
  of the functions that use it.
\<close>

record WorkerChannel =
  request_queue :: SpscRingBuffer
  response_queue :: SpscRingBuffer

definition Channel_RequestQueueEmpty :: "WorkerChannel \<Rightarrow> bool" where
  "Channel_RequestQueueEmpty c \<longleftrightarrow> Spsc_Empty (request_queue c)"

definition Channel_RequestQueueFull :: "u64 \<Rightarrow> WorkerChannel \<Rightarrow> bool" where
  "Channel_RequestQueueFull QSize c \<longleftrightarrow> Spsc_Full QSize (request_queue c)"

definition Channel_ResponseQueueEmpty :: "WorkerChannel \<Rightarrow> bool" where
  "Channel_ResponseQueueEmpty c \<longleftrightarrow> Spsc_Empty (response_queue c)"

definition Channel_ResponseQueueFull :: "u64 \<Rightarrow> WorkerChannel \<Rightarrow> bool" where
  "Channel_ResponseQueueFull QSize c \<longleftrightarrow> Spsc_Full QSize (response_queue c)"

definition Channel_AvailableRequests :: "WorkerChannel \<Rightarrow> u64" where
  "Channel_AvailableRequests c = Spsc_Size (request_queue c)"

definition Channel_AvailableResponses :: "WorkerChannel \<Rightarrow> u64" where
  "Channel_AvailableResponses c = Spsc_Size (response_queue c)"

definition Channel_QueueCapacity :: "u64 \<Rightarrow> u64" where
  "Channel_QueueCapacity QSize = QSize"

record ChannelStats =
  request_queue_size :: u64
  response_queue_size :: u64
  request_queue_capacity :: u64
  response_queue_capacity :: u64
  request_queue_full :: bool
  response_queue_full :: bool

definition Channel_inv :: "u64 \<Rightarrow> WorkerChannel \<Rightarrow> bool" where
  "Channel_inv QSize c \<longleftrightarrow>
     Spsc_inv MsgHeader_type QSize (request_queue c) \<and>
     Spsc_inv MsgHeader_type QSize (response_queue c)"

definition Channel_construct :: WorkerChannel where
  "Channel_construct = \<lparr>request_queue = Spsc_construct nullptr 0,
     response_queue = Spsc_construct nullptr 0\<rparr>"

end
