(* ===== verification/Phoenix_Shm_Layout.thy ===== *)
theory Phoenix_Shm_Layout
  imports Worker_Channel Thread_Monitor
begin

text \<open>
  The multi-worker shared memory layout of \<open>include/phoenix/layout/phoenix_shm_layout.hpp\<close>:
  initialisation of the header, the monitors and the twelve message rings, selection of the
  least loaded worker, and the scan for and recovery from crashed workers. A layout is the
  record of its fields; the address it lives at is an argument where pointers are computed
  from \<open>this\<close>. The message buffers lie in the memory behind it.
\<close>

section \<open>Sizes\<close>

text \<open>
  \<open>sizeof\<close> and offsets as the LP64 ABI lays the declared fields out: pointers, \<open>size_t\<close> and the
  64-bit atomics take 8 bytes, a ring ends with 56 bytes of padding, monitors are aligned to 64.
\<close>

definition sizeof_SpscRingBuffer :: nat where
  "sizeof_SpscRingBuffer = 8 + 8 + 8 + 8 + 56"

definition sizeof_WorkerChannel :: nat where
  "sizeof_WorkerChannel = 2 * sizeof_SpscRingBuffer"

definition kNormalWorkerCount :: nat where "kNormalWorkerCount = 4"

definition kNormalQueueCapacity :: u64 where "kNormalQueueCapacity = 1024"

definition kVipWorkerCount :: nat where "kVipWorkerCount = 2"

definition kVipQueueCapacity :: u64 where "kVipQueueCapacity = 256"

definition kMagicNumber :: u32 where "kMagicNumber = 0x50484E58"

definition kVersion :: u32 where "kVersion = 1"

definition Layout_kCacheLineSize :: u64 where "Layout_kCacheLineSize = 64"

definition sizeof_PhoenixShmLayout :: nat where
  "sizeof_PhoenixShmLayout =
     (let normal_channels = align_up 64 (4 + 4 + 8 + 8);
          normal_monitors = align_up 64 (normal_channels + kNormalWorkerCount * sizeof_WorkerChannel);
          vip_channels = align_up 64 (normal_monitors + kNormalWorkerCount * sizeof_ThreadMonitor);
          vip_monitors = align_up 64 (vip_channels + kVipWorkerCount * sizeof_WorkerChannel)
      in align_up 64 (vip_monitors + kVipWorkerCount * sizeof_ThreadMonitor))"

lemma sizeof_PhoenixShmLayout_value: "sizeof_PhoenixShmLayout = 1536"
  by (simp add: sizeof_PhoenixShmLayout_def Let_def align_up_def sizeof_SpscRingBuffer_def
      sizeof_WorkerChannel_def sizeof_ThreadMonitor_def kNormalWorkerCount_def kVipWorkerCount_def)

section \<open>State\<close>

record PhoenixShmLayout =
  pl_magic_number :: u32
  pl_version :: u32
  pl_total_size :: u64
  pl_buffer_offset :: u64
  normal_channels :: "WorkerChannel list"
  normal_monitors :: "ThreadMonitor list"
  vip_channels :: "WorkerChannel list"
  vip_monitors :: "ThreadMonitor list"

text \<open>\<open>new (address) PhoenixShmLayout()\<close>: value initialisation, then the member constructors.\<close>

definition Layout_construct :: PhoenixShmLayout where
  "Layout_construct =
     \<lparr>pl_magic_number = 0, pl_version = 0, pl_total_size = 0, pl_buffer_offset = 0,
      normal_channels = replicate kNormalWorkerCount Channel_construct,
      normal_monitors = replicate kNormalWorkerCount Monitor_construct,
      vip_channels = replicate kVipWorkerCount Channel_construct,
      vip_monitors = replicate kVipWorkerCount Monitor_construct\<rparr>"

definition Layout_CalculateBufferSize :: u64 where
  "Layout_CalculateBufferSize =
     (let normal_buffer = of_nat kNormalWorkerCount * 2 * kNormalQueueCapacity * size_of MsgHeader_type;
          vip_buffer = of_nat kVipWorkerCount * 2 * kVipQueueCapacity * size_of MsgHeader_type
      in normal_buffer + vip_buffer)"

definition Layout_RequiredSize :: u64 where
  "Layout_RequiredSize = of_nat sizeof_PhoenixShmLayout + Layout_CalculateBufferSize"

definition Layout_IsValid :: "PhoenixShmLayout \<Rightarrow> bool" where
  "Layout_IsValid L \<longleftrightarrow> pl_magic_number L = kMagicNumber \<and> pl_version L = kVersion"

text \<open>The accessors return references; the model returns the element. The index is not checked.\<close>

definition Layout_GetNormalChannel :: "nat \<Rightarrow> PhoenixShmLayout \<Rightarrow> WorkerChannel" where
  "Layout_GetNormalChannel index L = normal_channels L ! index"

definition Layout_GetNormalMonitor :: "nat \<Rightarrow> PhoenixShmLayout \<Rightarrow> ThreadMonitor" where
  "Layout_GetNormalMonitor index L = normal_monitors L ! index"

definition Layout_GetVipChannel :: "nat \<Rightarrow> PhoenixShmLayout \<Rightarrow> WorkerChannel" where
  "Layout_GetVipChannel index L = vip_channels L ! index"

definition Layout_GetVipMonitor :: "nat \<Rightarrow> PhoenixShmLayout \<Rightarrow> ThreadMonitor" where
  "Layout_GetVipMonitor index L = vip_monitors L ! index"

section \<open>Initialisation\<close>

text \<open>One iteration of the loops over a group: its monitor and its two rings. \<open>buffer\<close> is where
  the group's message buffers start, \<open>qsize\<close> the size given to each ring.\<close>

definition init_worker ::
  "u64 \<Rightarrow> address \<Rightarrow> u64 \<Rightarrow> nat \<Rightarrow> WorkerChannel list \<times> ThreadMonitor list \<Rightarrow>
   WorkerChannel list \<times> ThreadMonitor list" where
  "init_worker cap buffer qsize i s =
     (let (chs, mons) = s;
          mons' = mons[i := Monitor_Reset (mons ! i)];
          req_start = buffer + i * 2 * unat qsize;
          resp_start = req_start + unat qsize;
          c = chs ! i;
          c' = c\<lparr>request_queue := snd (Spsc_Initialize MsgHeader_type cap req_start qsize (request_queue c)),
                response_queue := snd (Spsc_Initialize MsgHeader_type cap resp_start qsize (response_queue c))\<rparr>
      in (chs[i := c'], mons'))"

definition Layout_Initialize :: "address \<Rightarrow> u64 \<Rightarrow> PhoenixShmLayout \<Rightarrow> bool \<times> PhoenixShmLayout" where
  "Layout_Initialize this shm_size L =
     (let min_size = of_nat sizeof_PhoenixShmLayout + Layout_CalculateBufferSize
      in if shm_size < min_size then (False, L)
         else
           let buffer_base = this + sizeof_PhoenixShmLayout;
               normal_buffer = buffer_base;
               vip_buffer = normal_buffer + unat (of_nat kNormalWorkerCount * 2 * kNormalQueueCapacity
                 * size_of MsgHeader_type);
               req_buffer_size = kNormalQueueCapacity * size_of MsgHeader_type;
               (nchs, nmons) = fold (init_worker kNormalQueueCapacity normal_buffer req_buffer_size)
                 [0..<kNormalWorkerCount] (normal_channels L, normal_monitors L);
               (vchs, vmons) = fold (init_worker kVipQueueCapacity vip_buffer req_buffer_size)
                 [0..<kVipWorkerCount] (vip_channels L, vip_monitors L)
           in (True,
               L\<lparr>pl_magic_number := kMagicNumber, pl_version := kVersion,
                 pl_total_size := shm_size, pl_buffer_offset := of_nat sizeof_PhoenixShmLayout,
                 normal_channels := nchs, normal_monitors := nmons,
                 vip_channels := vchs, vip_monitors := vmons\<rparr>))"

definition ShmLayoutFactory_Create :: "address \<Rightarrow> u64 \<Rightarrow> PhoenixShmLayout option" where
  "ShmLayoutFactory_Create addr bytes =
     (if bytes < of_nat sizeof_PhoenixShmLayout then None
      else let (ok, L) = Layout_Initialize addr bytes Layout_construct
           in if ok then Some L else None)"

definition ShmLayoutFactory_Get :: "PhoenixShmLayout \<Rightarrow> PhoenixShmLayout option" where
  "ShmLayoutFactory_Get L = (if Layout_IsValid L then Some L else None)"

section \<open>Worker selection\<close>

fun best_worker_loop :: "WorkerChannel list \<Rightarrow> nat list \<Rightarrow> nat \<Rightarrow> u64 \<Rightarrow> nat" where
  "best_worker_loop chs [] best_index min_size = best_index"
| "best_worker_loop chs (i # is) best_index min_size =
     (let sz = Channel_AvailableRequests (chs ! i)
      in if sz < min_size then best_worker_loop chs is i sz
         else best_worker_loop chs is best_index min_size)"

definition Layout_FindBestNormalWorker :: "PhoenixShmLayout \<Rightarrow> nat" where
  "Layout_FindBestNormalWorker L =
     best_worker_loop (normal_channels L) [1..<kNormalWorkerCount] 0
       (Channel_AvailableRequests (normal_channels L ! 0))"

definition Layout_FindBestVipWorker :: "PhoenixShmLayout \<Rightarrow> nat" where
  "Layout_FindBestVipWorker L =
     best_worker_loop (vip_channels L) [1..<kVipWorkerCount] 0
       (Channel_AvailableRequests (vip_channels L ! 0))"

section \<open>Crash scan and recovery\<close>

fun scan_loop :: "ThreadMonitor list \<Rightarrow> nat list \<Rightarrow> nat \<Rightarrow> nat" where
  "scan_loop mons [] count = count"
| "scan_loop mons (i # is) count =
     scan_loop mons is (if Monitor_IsProcessing (mons ! i) then Suc count else count)"

definition Layout_ScanCrashedWorkers :: "PhoenixShmLayout \<Rightarrow> nat" where
  "Layout_ScanCrashedWorkers L =
     scan_loop (vip_monitors L) [0..<kVipWorkerCount]
       (scan_loop (normal_monitors L) [0..<kNormalWorkerCount] 0)"

fun recover_loop :: "nat list \<Rightarrow> WorkerChannel list \<times> ThreadMonitor list \<times> nat \<Rightarrow>
    WorkerChannel list \<times> ThreadMonitor list \<times> nat" where
  "recover_loop [] (chs, mons, skipped) = (chs, mons, skipped)"
| "recover_loop (i # is) (chs, mons, skipped) =
     (if Monitor_IsProcessing (mons ! i)
      then recover_loop is
        (chs[i := (chs ! i)\<lparr>request_queue := Spsc_ForceAdvanceReadIndex 1 (request_queue (chs ! i))\<rparr>],
         mons[i := Monitor_EndTransaction (mons ! i)], Suc skipped)
      else recover_loop is (chs, mons, skipped))"

definition Layout_RecoverCrashedWorkers :: "PhoenixShmLayout \<Rightarrow> nat \<times> PhoenixShmLayout" where
  "Layout_RecoverCrashedWorkers L =
     (let (nchs, nmons, skipped) =
            recover_loop [0..<kNormalWorkerCount] (normal_channels L, normal_monitors L, 0);
          (vchs, vmons, skipped') =
            recover_loop [0..<kVipWorkerCount] (vip_channels L, vip_monitors L, skipped)
      in (skipped',
          L\<lparr>normal_channels := nchs, normal_monitors := nmons,
            vip_channels := vchs, vip_monitors := vmons\<rparr>))"

section \<open>Facts about the loops\<close>

lemmas layout_consts = kNormalWorkerCount_def kVipWorkerCount_def kNormalQueueCapacity_def
  kVipQueueCapacity_def

definition wf_layout :: "PhoenixShmLayout \<Rightarrow> bool" where
  "wf_layout L \<longleftrightarrow>
     length (normal_channels L) = kNormalWorkerCount \<and> length (normal_monitors L) = kNormalWorkerCount \<and>
     length (vip_channels L) = kVipWorkerCount \<and> length (vip_monitors L) = kVipWorkerCount"

lemma wf_Layout_construct: "wf_layout Layout_construct"
  by (simp add: wf_layout_def Layout_construct_def)

subsection \<open>Initialisation of a group\<close>

definition fresh_channel :: "address \<Rightarrow> u64 \<Rightarrow> nat \<Rightarrow> WorkerChannel" where
  "fresh_channel buffer qsize i =
     \<lparr>request_queue = Spsc_construct (buffer + i * 2 * unat qsize) qsize,
      response_queue = Spsc_construct (buffer + i * 2 * unat qsize + unat qsize) qsize\<rparr>"

lemma Spsc_Initialize_construct:
  "size_of T * cap \<le> bsize \<Longrightarrow> Spsc_Initialize T cap start bsize q = (True, Spsc_construct start bsize)"
  by (simp add: Spsc_Initialize_def Spsc_construct_def not_less)

lemma Monitor_Reset_construct: "Monitor_Reset m = Monitor_construct"
  by (simp add: monitor_defs)

lemma init_worker_eq:
  assumes "16 * cap \<le> qsize"
  shows "init_worker cap buffer qsize i (chs, mons) =
    (chs[i := fresh_channel buffer qsize i], mons[i := Monitor_construct])"
  using assms
  by (cases "chs ! i") (simp add: init_worker_def Let_def Spsc_Initialize_construct fresh_channel_def
      Monitor_Reset_construct)

lemma init_group:
  assumes "16 * cap \<le> qsize" and "n \<le> length chs" and "n \<le> length mons"
  shows "fold (init_worker cap buffer qsize) [0..<n] (chs, mons) =
    (map (fresh_channel buffer qsize) [0..<n] @ drop n chs,
     replicate n Monitor_construct @ drop n mons)"
  using assms(2,3)
proof (induction n)
  case 0
  then show ?case by simp
next
  case (Suc n)
  have "(drop n chs)[0 := c] = c # drop (Suc n) chs" for c
    using Suc.prems by (subst Cons_nth_drop_Suc [symmetric]) auto
  moreover have "(drop n mons)[0 := m] = m # drop (Suc n) mons" for m
    using Suc.prems by (subst Cons_nth_drop_Suc [symmetric]) auto
  ultimately show ?case
    using Suc
    by (simp add: init_worker_eq [OF assms(1)] list_update_append replicate_append_same [symmetric])
qed

subsection \<open>Selection\<close>

lemma best_worker_loop_least:
  assumes "\<forall>j \<in> set done. Channel_AvailableRequests (chs ! best) \<le> Channel_AvailableRequests (chs ! j)"
    and "\<forall>j \<in> set done. j < best \<longrightarrow>
      Channel_AvailableRequests (chs ! best) < Channel_AvailableRequests (chs ! j)"
    and "best \<in> set done" and "sorted (done @ is)" and "distinct (done @ is)"
    and "min_size = Channel_AvailableRequests (chs ! best)"
  shows "let r = best_worker_loop chs is best min_size
     in r \<in> set (done @ is) \<and>
        (\<forall>j \<in> set (done @ is). Channel_AvailableRequests (chs ! r) \<le> Channel_AvailableRequests (chs ! j)) \<and>
        (\<forall>j \<in> set (done @ is). j < r \<longrightarrow>
           Channel_AvailableRequests (chs ! r) < Channel_AvailableRequests (chs ! j))"
  using assms
proof (induction "is" arbitrary: "done" best min_size)
  case Nil
  then show ?case by simp
next
  case (Cons i "is")
  let ?A = "\<lambda>j. Channel_AvailableRequests (chs ! j)"
  have after: "\<forall>j \<in> set done. j < i"
    using Cons.prems(4,5) by (fastforce simp: sorted_append intro: le_neq_trans)
  show ?case
  proof (cases "?A i < min_size")
    case True
    have "let r = best_worker_loop chs is i (?A i)
     in r \<in> set ((done @ [i]) @ is) \<and>
        (\<forall>j \<in> set ((done @ [i]) @ is). ?A r \<le> ?A j) \<and>
        (\<forall>j \<in> set ((done @ [i]) @ is). j < r \<longrightarrow> ?A r < ?A j)"
      by (rule Cons.IH) (use Cons.prems True in auto)
    then show ?thesis using True by simp
  next
    case False
    have "let r = best_worker_loop chs is best min_size
     in r \<in> set ((done @ [i]) @ is) \<and>
        (\<forall>j \<in> set ((done @ [i]) @ is). ?A r \<le> ?A j) \<and>
        (\<forall>j \<in> set ((done @ [i]) @ is). j < r \<longrightarrow> ?A r < ?A j)"
      by (rule Cons.IH) (use Cons.prems False after in auto)
    then show ?thesis using False by simp
  qed
qed

lemma best_worker_upto:
  assumes "0 < n"
  shows "let r = best_worker_loop chs [1..<n] 0 (Channel_AvailableRequests (chs ! 0))
     in r < n \<and>
        (\<forall>j < n. Channel_AvailableRequests (chs ! r) \<le> Channel_AvailableRequests (chs ! j)) \<and>
        (\<forall>j < r. Channel_AvailableRequests (chs ! r) < Channel_AvailableRequests (chs ! j))"
proof -
  have all: "set ([0] @ [1..<n]) = {..<n}" using assms by auto
  show ?thesis
    using best_worker_loop_least [of "[0]" chs 0 "[1..<n]" "Channel_AvailableRequests (chs ! 0)"]
    unfolding all by (auto simp: Let_def)
qed

subsection \<open>Scan and recovery\<close>

lemma scan_loop_count:
  "scan_loop mons is count = count + length (filter (\<lambda>i. Monitor_IsProcessing (mons ! i)) is)"
  by (induction mons "is" count rule: scan_loop.induct) simp_all

definition skip_front :: "WorkerChannel \<Rightarrow> WorkerChannel" where
  "skip_front c = c\<lparr>request_queue := Spsc_ForceAdvanceReadIndex 1 (request_queue c)\<rparr>"

lemma recover_loop_upto:
  assumes "a \<le> b" and "b \<le> length chs" and "length mons = length chs"
  shows "recover_loop [a..<b] (chs, mons, skipped) =
    (map (\<lambda>i. if a \<le> i \<and> i < b \<and> Monitor_IsProcessing (mons ! i) then skip_front (chs ! i) else chs ! i)
       [0..<length chs],
     map (\<lambda>i. if a \<le> i \<and> i < b \<and> Monitor_IsProcessing (mons ! i)
         then Monitor_EndTransaction (mons ! i) else mons ! i) [0..<length chs],
     skipped + length (filter (\<lambda>i. Monitor_IsProcessing (mons ! i)) [a..<b]))"
  using assms
proof (induction "b - a" arbitrary: a chs mons skipped)
  case 0
  then have "[a..<b] = []" and eq: "a = b" by simp_all
  then show ?case using 0 by (auto intro!: nth_equalityI)
next
  case (Suc k)
  then have ab: "a < b" and k: "k = b - Suc a" by simp_all
  then have upt: "[a..<b] = a # [Suc a..<b]" by (simp add: upt_conv_Cons)
  show ?case
  proof (cases "Monitor_IsProcessing (mons ! a)")
    case True
    let ?chs = "chs[a := skip_front (chs ! a)]" and ?mons = "mons[a := Monitor_EndTransaction (mons ! a)]"
    have later: "filter (\<lambda>i. Monitor_IsProcessing (?mons ! i)) [Suc a..<b] =
        filter (\<lambda>i. Monitor_IsProcessing (mons ! i)) [Suc a..<b]"
      by (rule filter_cong) auto
    have "recover_loop [a..<b] (chs, mons, skipped) =
        recover_loop [Suc a..<b] (?chs, ?mons, Suc skipped)"
      using True by (simp add: upt skip_front_def)
    also note Suc.hyps(1) [OF k, of ?chs ?mons "Suc skipped"]
    finally show ?thesis
      using Suc.prems ab True later upt
      by (auto simp: nth_list_update intro!: nth_equalityI)
  next
    case False
    then have "recover_loop [a..<b] (chs, mons, skipped) = recover_loop [Suc a..<b] (chs, mons, skipped)"
      by (simp add: upt)
    also note Suc.hyps(1) [OF k, of chs mons skipped]
    finally show ?thesis
      using Suc.prems ab False upt by (auto intro!: nth_equalityI) (metis Suc_leI le_neq_implies_less)+
  qed
qed

section \<open>The twelve rings\<close>

datatype queue_id = NormalRequest nat | NormalResponse nat | VipRequest nat | VipResponse nat

definition queue_ids :: "queue_id list" where
  "queue_ids = [NormalRequest 0, NormalResponse 0, NormalRequest 1, NormalResponse 1,
     NormalRequest 2, NormalResponse 2, NormalRequest 3, NormalResponse 3,
     VipRequest 0, VipResponse 0, VipRequest 1, VipResponse 1]"

fun queue_of :: "PhoenixShmLayout \<Rightarrow> queue_id \<Rightarrow> SpscRingBuffer" where
  "queue_of L (NormalRequest i) = request_queue (normal_channels L ! i)"
| "queue_of L (NormalResponse i) = response_queue (normal_channels L ! i)"
| "queue_of L (VipRequest i) = request_queue (vip_channels L ! i)"
| "queue_of L (VipResponse i) = response_queue (vip_channels L ! i)"

fun cap_of :: "queue_id \<Rightarrow> u64" where
  "cap_of (NormalRequest i) = kNormalQueueCapacity"
| "cap_of (NormalResponse i) = kNormalQueueCapacity"
| "cap_of (VipRequest i) = kVipQueueCapacity"
| "cap_of (VipResponse i) = kVipQueueCapacity"

text \<open>The place of a ring among the buffers: the initialisation gives each 16384 bytes.\<close>

fun buffer_no :: "queue_id \<Rightarrow> nat" where
  "buffer_no (NormalRequest i) = 2 * i"
| "buffer_no (NormalResponse i) = 2 * i + 1"
| "buffer_no (VipRequest i) = 8 + 2 * i"
| "buffer_no (VipResponse i) = 8 + 2 * i + 1"

definition buffer_of :: "address \<Rightarrow> queue_id \<Rightarrow> address" where
  "buffer_of this i = this + sizeof_PhoenixShmLayout + buffer_no i * 16384"

definition layout_contents :: "PhoenixShmLayout \<times> memory \<Rightarrow> queue_id \<Rightarrow> MsgHeader list" where
  "layout_contents s i =
     (let (L, m) = s in Spsc_contents MsgHeader_type (cap_of i) (queue_of L i, m))"

definition Layout_inv :: "address \<Rightarrow> PhoenixShmLayout \<Rightarrow> bool" where
  "Layout_inv this L \<longleftrightarrow>
     wf_layout L \<and> Layout_IsValid L \<and>
     (\<forall>i \<in> set queue_ids. Spsc_inv MsgHeader_type (cap_of i) (queue_of L i) \<and>
        rb_buffer_start (queue_of L i) = buffer_of this i \<and> rb_buffer_size (queue_of L i) = 16384)"

lemma Layout_RequiredSize_value: "Layout_RequiredSize = 148992"
  by (simp add: Layout_RequiredSize_def sizeof_PhoenixShmLayout_value
      Layout_CalculateBufferSize_def Let_def layout_consts)

definition initialized_layout :: "address \<Rightarrow> u64 \<Rightarrow> PhoenixShmLayout \<Rightarrow> PhoenixShmLayout" where
  "initialized_layout this shm_size L =
     L\<lparr>pl_magic_number := kMagicNumber, pl_version := kVersion, pl_total_size := shm_size,
       pl_buffer_offset := of_nat sizeof_PhoenixShmLayout,
       normal_channels := map (fresh_channel (this + 1536) 16384) [0..<4],
       normal_monitors := replicate 4 Monitor_construct,
       vip_channels := map (fresh_channel (this + 1536 + 131072) 16384) [0..<2],
       vip_monitors := replicate 2 Monitor_construct\<rparr>"

lemma Layout_Initialize_eq:
  assumes "wf_layout L"
  shows "Layout_Initialize this shm_size L =
    (if shm_size < Layout_RequiredSize then (False, L)
     else (True, initialized_layout this shm_size L))"
proof -
  have "fold (init_worker 1024 (this + 1536) 16384) [0..<4] (normal_channels L, normal_monitors L) =
      (map (fresh_channel (this + 1536) 16384) [0..<4], replicate 4 Monitor_construct)"
    using init_group [of 1024 16384 4 "normal_channels L" "normal_monitors L" "this + 1536"] assms
    by (simp add: wf_layout_def layout_consts)
  moreover have "fold (init_worker 256 (this + 1536 + 131072) 16384) [0..<2] (vip_channels L, vip_monitors L) =
      (map (fresh_channel (this + 1536 + 131072) 16384) [0..<2], replicate 2 Monitor_construct)"
    using init_group [of 256 16384 2 "vip_channels L" "vip_monitors L" "this + 1536 + 131072"] assms
    by (simp add: wf_layout_def layout_consts)
  ultimately show ?thesis
    by (simp add: Layout_Initialize_def Let_def sizeof_PhoenixShmLayout_value layout_consts
        initialized_layout_def Layout_RequiredSize_def)
qed

lemma queue_of_initialized:
  assumes "i \<in> set queue_ids"
  shows "queue_of (initialized_layout this shm_size L) i = Spsc_construct (buffer_of this i) 16384"
  using assms unfolding queue_ids_def
  by (simp add: numeral_eq_Suc del: One_nat_def)
    (elim disjE; simp add: initialized_layout_def fresh_channel_def buffer_of_def
       sizeof_PhoenixShmLayout_value nth_Cons' upt_conv_Cons)

lemma cap_of_pow2: "is_pow2 (cap_of i)" "unat (cap_of i) * 16 \<le> 16384" "unat (cap_of i) < 2 ^ 63"
  by (cases i; simp add: is_pow2_def layout_consts)+

lemma Spsc_construct_inv:
  "Spsc_inv MsgHeader_type (cap_of i) (Spsc_construct start 16384)"
  by (cases i) (simp_all add: Spsc_inv_def Spsc_construct_def is_pow2_def layout_consts)

lemma initialized_wf: "wf_layout (initialized_layout this shm_size L)"
  by (simp add: wf_layout_def initialized_layout_def layout_consts)

lemma initialized_inv: "Layout_inv this (initialized_layout this shm_size L)"
  by (simp add: Layout_inv_def initialized_wf queue_of_initialized Spsc_construct_inv)
    (simp add: Layout_IsValid_def initialized_layout_def Spsc_construct_def)

lemma initialized_contents:
  "i \<in> set queue_ids \<Longrightarrow> layout_contents (initialized_layout this shm_size L, m) i = []"
  by (simp add: layout_contents_def queue_of_initialized Spsc_Empty_contents Spsc_Empty_def
      Spsc_construct_def)

lemma initialized_scan: "Layout_ScanCrashedWorkers (initialized_layout this shm_size L) = 0"
  by (simp add: Layout_ScanCrashedWorkers_def scan_loop_count initialized_layout_def layout_consts
      monitor_defs)

lemma initialized_best:
  "Layout_FindBestNormalWorker (initialized_layout this shm_size L) = 0"
  "Layout_FindBestVipWorker (initialized_layout this shm_size L) = 0"
  by (simp_all add: Layout_FindBestNormalWorker_def Layout_FindBestVipWorker_def layout_consts
      initialized_layout_def Channel_AvailableRequests_def fresh_channel_def Spsc_Size_def
      Spsc_construct_def upt_conv_Cons)

lemma initialized_total: "pl_total_size (initialized_layout this shm_size L) = shm_size"
  by (simp add: initialized_layout_def)

subsection \<open>Rings do not share memory\<close>

lemma buffer_no_inj:
  "i \<in> set queue_ids \<Longrightarrow> j \<in> set queue_ids \<Longrightarrow> i \<noteq> j \<Longrightarrow> buffer_no i \<noteq> buffer_no j"
  unfolding queue_ids_def by auto

lemma buffers_apart:
  assumes "i \<in> set queue_ids" and "j \<in> set queue_ids" and "i \<noteq> j"
  shows "apart (buffer_of this i) 16384 (buffer_of this j) 16384"
proof -
  have "buffer_no i < buffer_no j \<or> buffer_no j < buffer_no i"
    using buffer_no_inj [OF assms] by linarith
  then have "Suc (buffer_no i) \<le> buffer_no j \<or> Suc (buffer_no j) \<le> buffer_no i" by arith
  then show ?thesis by (auto simp: apart_def buffer_of_def)
qed

lemma layout_contents_frame:
  assumes inv: "Layout_inv this L" and j: "j \<in> set queue_ids"
    and same: "\<And>a. buffer_of this j \<le> a \<Longrightarrow> a < buffer_of this j + 16384 \<Longrightarrow> m' a = m a"
  shows "layout_contents (L, m') j = layout_contents (L, m) j"
proof -
  let ?q = "queue_of L j" and ?c = "cap_of j"
  have q: "Spsc_inv MsgHeader_type ?c ?q" "rb_buffer_start ?q = buffer_of this j"
      "rb_buffer_size ?q = 16384"
    using inv j by (simp_all add: Layout_inv_def)
  have "object_at MsgHeader_type m' (Spsc_GetElementPtr MsgHeader_type ?c ?q i) =
      object_at MsgHeader_type m (Spsc_GetElementPtr MsgHeader_type ?c ?q i)" for i
    unfolding object_at_def
    using msg.slot_in_buffer [OF q(1), of i] q(2,3)
    by (intro arg_cong [where f = "obj_value MsgHeader_type"] read_bytes_cong same) auto
  then show ?thesis
    unfolding layout_contents_def Spsc_contents_def by (simp, intro idx_contents_cong)
qed

section \<open>The effect of a recovery\<close>

definition recovered_layout :: "PhoenixShmLayout \<Rightarrow> PhoenixShmLayout" where
  "recovered_layout L =
     L\<lparr>normal_channels := map (\<lambda>i. if Monitor_IsProcessing (normal_monitors L ! i)
         then skip_front (normal_channels L ! i) else normal_channels L ! i) [0..<4],
       normal_monitors := map (\<lambda>i. if Monitor_IsProcessing (normal_monitors L ! i)
         then Monitor_EndTransaction (normal_monitors L ! i) else normal_monitors L ! i) [0..<4],
       vip_channels := map (\<lambda>i. if Monitor_IsProcessing (vip_monitors L ! i)
         then skip_front (vip_channels L ! i) else vip_channels L ! i) [0..<2],
       vip_monitors := map (\<lambda>i. if Monitor_IsProcessing (vip_monitors L ! i)
         then Monitor_EndTransaction (vip_monitors L ! i) else vip_monitors L ! i) [0..<2]\<rparr>"

lemma recover_loop_all:
  assumes "length chs = n" and "length mons = n"
  shows "recover_loop [0..<n] (chs, mons, skipped) =
    (map (\<lambda>i. if Monitor_IsProcessing (mons ! i) then skip_front (chs ! i) else chs ! i) [0..<n],
     map (\<lambda>i. if Monitor_IsProcessing (mons ! i) then Monitor_EndTransaction (mons ! i) else mons ! i) [0..<n],
     skipped + length (filter (\<lambda>i. Monitor_IsProcessing (mons ! i)) [0..<n]))"
  using recover_loop_upto [of 0 n chs mons skipped] assms by (simp cong: map_cong)

lemma Layout_Recover_eq:
  assumes "wf_layout L"
  shows "Layout_RecoverCrashedWorkers L = (Layout_ScanCrashedWorkers L, recovered_layout L)"
  using assms
  by (simp add: Layout_RecoverCrashedWorkers_def Layout_ScanCrashedWorkers_def scan_loop_count
      recover_loop_all recovered_layout_def wf_layout_def layout_consts Let_def)

lemma recovered_wf: "wf_layout (recovered_layout L)"
  by (simp add: wf_layout_def recovered_layout_def layout_consts)

lemma not_processing_after_end [simp]: "\<not> Monitor_IsProcessing (Monitor_EndTransaction m)"
  by (simp add: monitor_defs)

lemma recovered_scan: "Layout_ScanCrashedWorkers (recovered_layout L) = 0"
  by (simp add: Layout_ScanCrashedWorkers_def scan_loop_count recovered_layout_def layout_consts
      filter_empty_conv)

lemma recovered_again: "recovered_layout (recovered_layout L) = recovered_layout L"
  by (simp add: recovered_layout_def cong: map_cong)

text \<open>The worker that serves a request ring counts as crashed.\<close>

fun worker_crashed :: "PhoenixShmLayout \<Rightarrow> queue_id \<Rightarrow> bool" where
  "worker_crashed L (NormalRequest i) = Monitor_IsProcessing (normal_monitors L ! i)"
| "worker_crashed L (VipRequest i) = Monitor_IsProcessing (vip_monitors L ! i)"
| "worker_crashed L _ = False"

lemma queue_of_recovered:
  assumes "i \<in> set queue_ids"
  shows "queue_of (recovered_layout L) i =
    (if worker_crashed L i then Spsc_ForceAdvanceReadIndex 1 (queue_of L i) else queue_of L i)"
  using assms unfolding queue_ids_def
  by (simp add: numeral_eq_Suc del: One_nat_def)
    (elim disjE; simp add: recovered_layout_def skip_front_def nth_Cons' upt_conv_Cons)

lemma recovered_queue:
  assumes inv: "Layout_inv this L" and i: "i \<in> set queue_ids"
    and ne: "worker_crashed L i \<Longrightarrow> layout_contents (L, m) i \<noteq> []"
  shows "Spsc_inv MsgHeader_type (cap_of i) (queue_of (recovered_layout L) i)"
    and "layout_contents (recovered_layout L, m) i =
      (if worker_crashed L i then tl (layout_contents (L, m) i) else layout_contents (L, m) i)"
proof -
  have q: "Spsc_inv MsgHeader_type (cap_of i) (queue_of L i)"
    using inv i by (simp add: Layout_inv_def)
  have one: "unat (1 :: u64) \<le> unat (Spsc_Size (queue_of L i))" if "worker_crashed L i"
  proof -
    have "0 < length (layout_contents (L, m) i)" using ne [OF that] by simp
    then show ?thesis by (simp add: layout_contents_def)
  qed
  show "Spsc_inv MsgHeader_type (cap_of i) (queue_of (recovered_layout L) i)"
    using q msg.Advance_inv [OF q one] by (simp add: queue_of_recovered [OF i])
  show "layout_contents (recovered_layout L, m) i =
      (if worker_crashed L i then tl (layout_contents (L, m) i) else layout_contents (L, m) i)"
    using msg.Advance_contents [OF one]
    by (simp add: layout_contents_def queue_of_recovered [OF i] drop_Suc)
qed

lemma recovered_queue_buffer:
  "rb_buffer_start (Spsc_ForceAdvanceReadIndex c q) = rb_buffer_start q"
  "rb_buffer_size (Spsc_ForceAdvanceReadIndex c q) = rb_buffer_size q"
  by (simp_all add: Spsc_ForceAdvanceReadIndex_def)

text \<open>Recovery of workers that have their request at the front of their ring.\<close>

lemma recover_effect:
  assumes inv: "Layout_inv this L"
    and pills: "\<forall>i \<in> set queue_ids. worker_crashed L i \<longrightarrow> layout_contents (L, m) i \<noteq> []"
  shows "let (skipped, L') = Layout_RecoverCrashedWorkers L
     in skipped = Layout_ScanCrashedWorkers L \<and> Layout_ScanCrashedWorkers L' = 0 \<and>
        Layout_inv this L' \<and>
        (\<forall>i \<in> set queue_ids. layout_contents (L', m) i =
           (if worker_crashed L i then tl (layout_contents (L, m) i) else layout_contents (L, m) i))"
proof -
  have wf: "wf_layout L" using inv by (simp add: Layout_inv_def)
  have "Layout_inv this (recovered_layout L)"
    unfolding Layout_inv_def
  proof (intro conjI ballI)
    show "wf_layout (recovered_layout L)" by (rule recovered_wf)
    show "Layout_IsValid (recovered_layout L)"
      using inv by (simp add: Layout_inv_def Layout_IsValid_def recovered_layout_def)
    fix i assume i: "i \<in> set queue_ids"
    show "Spsc_inv MsgHeader_type (cap_of i) (queue_of (recovered_layout L) i)"
      using pills i by (intro recovered_queue(1) [OF inv, where m = m]) auto
    show "rb_buffer_start (queue_of (recovered_layout L) i) = buffer_of this i"
      "rb_buffer_size (queue_of (recovered_layout L) i) = 16384"
      using inv i by (simp_all add: Layout_inv_def queue_of_recovered recovered_queue_buffer)
  qed
  then show ?thesis
    using recovered_queue(2) [OF inv] pills
    by (simp add: Layout_Recover_eq [OF wf] recovered_scan)
qed

section \<open>Properties\<close>

text \<open>
  C17. \<open>Initialize\<close> succeeds exactly when the segment is at least \<open>RequiredSize()\<close> long and leaves
  the layout alone when it is not. After success the layout is valid, every ring meets its
  invariant and is empty, no worker counts as crashed and worker 0 is selected in both groups.
\<close>

theorem Layout_Initialize_correct:
  assumes "wf_layout L"
  shows "let (ok, L') = Layout_Initialize this shm_size L
     in (ok \<longleftrightarrow> Layout_RequiredSize \<le> shm_size) \<and> (\<not> ok \<longrightarrow> L' = L) \<and>
        (ok \<longrightarrow> Layout_inv this L' \<and> pl_total_size L' = shm_size \<and>
           (\<forall>i \<in> set queue_ids. layout_contents (L', m) i = []) \<and>
           Layout_ScanCrashedWorkers L' = 0 \<and>
           Layout_FindBestNormalWorker L' = 0 \<and> Layout_FindBestVipWorker L' = 0)"
  using initialized_inv [of this shm_size L]
  by (simp add: Layout_Initialize_eq [OF assms] initialized_contents initialized_scan initialized_best
      initialized_total word_less_nat_alt word_le_nat_alt)

theorem Layout_Initialize_correct_witness:
  "fst (Layout_Initialize 65536 148992 Layout_construct) \<and>
   \<not> fst (Layout_Initialize 65536 148991 Layout_construct)"
  using Layout_Initialize_correct [OF wf_Layout_construct, of 65536 148992 "\<lambda>_. 0"]
    Layout_Initialize_correct [OF wf_Layout_construct, of 65536 148991 "\<lambda>_. 0"]
  by (simp add: Layout_RequiredSize_value Let_def case_prod_beta)

text \<open>
  The twelve rings of a layout are isolated from each other: pushing to or popping from one
  of them changes the queued messages of no other one.
\<close>

theorem Layout_rings_isolated:
  assumes inv: "Layout_inv this L" and i: "i \<in> set queue_ids" and j: "j \<in> set queue_ids" and ij: "i \<noteq> j"
  shows "layout_contents (L, snd (snd (Spsc_Push MsgHeader_type (cap_of i) h (queue_of L i, m)))) j =
      layout_contents (L, m) j \<and>
    layout_contents (L, snd (snd (Spsc_Pop MsgHeader_type (cap_of i) (queue_of L i, m)))) j =
      layout_contents (L, m) j"
proof -
  have q: "Spsc_inv MsgHeader_type (cap_of i) (queue_of L i)"
      "rb_buffer_start (queue_of L i) = buffer_of this i" "rb_buffer_size (queue_of L i) = 16384"
    using inv i by (simp_all add: Layout_inv_def)
  have out: "a < rb_buffer_start (queue_of L i) \<or>
      rb_buffer_start (queue_of L i) + unat (rb_buffer_size (queue_of L i)) \<le> a"
    if "buffer_of this j \<le> a" "a < buffer_of this j + 16384" for a
    using buffers_apart [OF i j ij, of this] that q(2,3) by (auto simp: apart_def)
  show ?thesis
    using msg.Push_outside [OF q(1) _ out] msg.Pop_outside [OF q(1) _ out]
    by (intro conjI layout_contents_frame [OF inv j]; metis prod.collapse)
qed

theorem Layout_rings_isolated_witness:
  "layout_contents (initialized_layout 65536 148992 Layout_construct,
      snd (snd (Spsc_Push MsgHeader_type (cap_of (NormalRequest 0))
        \<lparr>seq_id = 9, func_id = 1, payload_len = 0\<rparr>
        (queue_of (initialized_layout 65536 148992 Layout_construct) (NormalRequest 0), \<lambda>_. 0))))
      (VipRequest 1) = []"
  using Layout_rings_isolated [OF initialized_inv, of "NormalRequest 0" "VipRequest 1"]
    initialized_contents [of "VipRequest 1"]
  by (simp add: queue_ids_def)

text \<open>
  C40. The VIP rings are laid out with the stride of the normal ones. In a segment of exactly
  \<open>RequiredSize()\<close> bytes, which is what the server creates, every slot of the normal rings and of
  the first VIP request ring lies inside the segment, but the buffers of the other three VIP rings
  begin at or behind its end, so every slot of theirs is out of bounds.
\<close>

theorem Layout_vip_buffers_out_of_bounds:
  assumes "Layout_Initialize this Layout_RequiredSize L = (True, L')" and "wf_layout L"
    and "i \<in> set queue_ids"
  shows "let p = Spsc_GetElementPtr MsgHeader_type (cap_of i) (queue_of L' i) n;
         segment_end = this + unat Layout_RequiredSize
     in if i \<in> {VipResponse 0, VipRequest 1, VipResponse 1} then segment_end \<le> p
        else this + sizeof_PhoenixShmLayout \<le> p \<and> p + 16 \<le> segment_end"
proof -
  have L': "L' = initialized_layout this Layout_RequiredSize L"
    using assms(1) Layout_Initialize_eq [OF assms(2)] by simp
  let ?k = "unat n mod unat (cap_of i)"
  have "unat (cap_of i) * 16 < 2 ^ 64" using cap_of_pow2(2) [of i] by simp
  then have p: "Spsc_GetElementPtr MsgHeader_type (cap_of i) (queue_of L' i) n = buffer_of this i + ?k * 16"
    using msg.element_ptr [OF cap_of_pow2(1), of i "queue_of L' i" n]
    by (simp add: L' queue_of_initialized [OF assms(3)] Spsc_construct_def mult.commute)
  have "?k < unat (cap_of i)" using is_pow2_pos [OF cap_of_pow2(1)] by simp
  then show ?thesis
    using assms(3) unfolding queue_ids_def p
    by (auto simp: Let_def buffer_of_def sizeof_PhoenixShmLayout_value Layout_RequiredSize_value
        layout_consts)
qed

theorem Layout_vip_buffers_out_of_bounds_witness:
  "65536 + 148992 \<le> Spsc_GetElementPtr MsgHeader_type (cap_of (VipRequest 1))
     (queue_of (snd (Layout_Initialize 65536 Layout_RequiredSize Layout_construct)) (VipRequest 1)) 0"
  using Layout_vip_buffers_out_of_bounds [of 65536 Layout_construct
      "snd (Layout_Initialize 65536 Layout_RequiredSize Layout_construct)" "VipRequest 1" 0]
    wf_Layout_construct
  by (simp add: Layout_Initialize_eq Layout_RequiredSize_value queue_ids_def Let_def)

text \<open>
  Worker selection returns an existing worker whose request ring holds the fewest messages of
  its group, and of several such workers the one with the smallest index.
\<close>

theorem Layout_FindBest_least_loaded:
  "(let r = Layout_FindBestNormalWorker L; load = (\<lambda>j. Channel_AvailableRequests (normal_channels L ! j))
    in r < kNormalWorkerCount \<and> (\<forall>j. j < kNormalWorkerCount \<longrightarrow> load r \<le> load j) \<and>
       (\<forall>j. j < r \<longrightarrow> load r < load j)) \<and>
   (let r = Layout_FindBestVipWorker L; load = (\<lambda>j. Channel_AvailableRequests (vip_channels L ! j))
    in r < kVipWorkerCount \<and> (\<forall>j. j < kVipWorkerCount \<longrightarrow> load r \<le> load j) \<and>
       (\<forall>j. j < r \<longrightarrow> load r < load j))"
  using best_worker_upto [of kNormalWorkerCount "normal_channels L"]
    best_worker_upto [of kVipWorkerCount "vip_channels L"]
  by (simp add: Layout_FindBestNormalWorker_def Layout_FindBestVipWorker_def layout_consts Let_def)

text \<open>Normal worker 0 has one request queued, the others none.\<close>

definition loaded_layout :: PhoenixShmLayout where
  "loaded_layout = Layout_construct\<lparr>normal_channels :=
     (replicate 4 Channel_construct)[0 := Channel_construct\<lparr>request_queue :=
        (Spsc_construct 0 0)\<lparr>rb_write_idx := 1\<rparr>\<rparr>]\<rparr>"

theorem Layout_FindBest_least_loaded_witness: "Layout_FindBestNormalWorker loaded_layout = 1"
proof -
  let ?r = "Layout_FindBestNormalWorker loaded_layout"
  have load: "Channel_AvailableRequests (normal_channels loaded_layout ! j) = (if j = 0 then 1 else 0)"
    if "j < 4" for j
    using that by (simp add: loaded_layout_def Channel_AvailableRequests_def Channel_construct_def Spsc_construct_def
        Spsc_Size_def nth_list_update)
  have r: "?r < 4"
    and least: "Channel_AvailableRequests (normal_channels loaded_layout ! ?r) \<le>
      Channel_AvailableRequests (normal_channels loaded_layout ! 1)"
    and first: "1 < ?r \<longrightarrow> Channel_AvailableRequests (normal_channels loaded_layout ! ?r) <
      Channel_AvailableRequests (normal_channels loaded_layout ! 1)"
    using Layout_FindBest_least_loaded [of loaded_layout]
    by (auto simp: Let_def kNormalWorkerCount_def)
  have "?r \<noteq> 0" using least load [of 0] load [of 1] by (metis one_neq_zero word_le_0_iff one_less_numeral_iff semiring_norm(76) zero_less_numeral)
  moreover have "\<not> 1 < ?r" using first load [OF r] load [of 1] by auto
  ultimately show ?thesis by simp
qed

text \<open>
  C10. Recovery skips exactly the poison pills: as long as every crashed worker still has the
  request it was processing at the front of its ring, recovery reports the number of crashed
  workers, drops that one request per crashed worker, keeps every other message of every ring,
  leaves no worker marked as processing and keeps the layout's invariant.
\<close>

theorem Layout_recovery_skips_poison_pills:
  assumes inv: "Layout_inv this L"
    and pills: "\<forall>i \<in> set queue_ids. worker_crashed L i \<longrightarrow> layout_contents (L, m) i \<noteq> []"
  shows "let (skipped, L') = Layout_RecoverCrashedWorkers L
     in skipped = Layout_ScanCrashedWorkers L \<and> Layout_ScanCrashedWorkers L' = 0 \<and>
        Layout_inv this L' \<and>
        (\<forall>i \<in> set queue_ids. layout_contents (L', m) i =
           (if worker_crashed L i then tl (layout_contents (L, m) i) else layout_contents (L, m) i))"
  using assms by (rule recover_effect)

text \<open>
  Recovery is idempotent: a second run finds nothing to skip and changes nothing.
\<close>

theorem Layout_recovery_idempotent:
  assumes "wf_layout L"
  shows "let L' = snd (Layout_RecoverCrashedWorkers L) in Layout_RecoverCrashedWorkers L' = (0, L')"
  using Layout_Recover_eq [OF assms] Layout_Recover_eq [OF recovered_wf, of L]
  by (simp add: recovered_scan recovered_again)

theorem Layout_recovery_idempotent_witness:
  "Layout_RecoverCrashedWorkers (snd (Layout_RecoverCrashedWorkers Layout_construct)) =
     (0, snd (Layout_RecoverCrashedWorkers Layout_construct))"
  using Layout_recovery_idempotent [OF wf_Layout_construct] by (simp add: Let_def)

text \<open>
  Recovery does not check that there is a message to skip. For a crashed worker whose request
  ring is empty the ring is broken afterwards: its size reads \<open>2 ^ 64 - 1\<close>, it counts as full and
  not as empty, and every further request for this worker is refused.
\<close>

theorem Layout_recovery_of_empty_ring:
  assumes inv: "Layout_inv this L" and i: "i \<in> set queue_ids" and crashed: "worker_crashed L i"
    and empty: "layout_contents (L, m) i = []"
  shows "let q = queue_of (snd (Layout_RecoverCrashedWorkers L)) i
     in unat (Spsc_Size q) = 2 ^ 64 - 1 \<and> Spsc_Full (cap_of i) q \<and> \<not> Spsc_Empty q \<and>
        Spsc_Push MsgHeader_type (cap_of i) h (q, m) = (False, q, m)"
proof -
  let ?q = "queue_of L i"
  have wf: "wf_layout L" using inv by (simp add: Layout_inv_def)
  have "length (layout_contents (L, m) i) = 0" using empty by simp
  then have size: "unat (Spsc_Size ?q) = 0" by (simp add: layout_contents_def)
  have lt: "unat (Spsc_Size ?q) < unat (1 :: u64)"
    and room: "unat (1 :: u64) - unat (Spsc_Size ?q) \<le> 2 ^ 64 - unat (cap_of i)"
    using size cap_of_pow2(3) [of i] by simp_all
  note wrap = advance_past_end [OF lt room]
  have q': "queue_of (snd (Layout_RecoverCrashedWorkers L)) i = Spsc_ForceAdvanceReadIndex 1 ?q"
    using crashed by (simp add: Layout_Recover_eq [OF wf] queue_of_recovered [OF i])
  have "unat (cap_of i) \<le> unat (Spsc_Size (Spsc_ForceAdvanceReadIndex 1 ?q))"
    using wrap(2) by (simp only: Spsc_Full_iff)
  then show ?thesis
    using wrap size msg.Push_full [of "cap_of i" "Spsc_ForceAdvanceReadIndex 1 ?q" m h]
    by (simp add: q' Let_def)
qed

text \<open>
  Recovery does not look at timestamps: a worker that began a transaction and has not timed
  out, whatever the threshold, is scanned as crashed, and recovery takes the request it is
  working on away from it and marks it idle.
\<close>

theorem Layout_recovery_ignores_timeout:
  assumes inv: "Layout_inv this L" and j: "j < kNormalWorkerCount"
    and front: "layout_contents (L, m) (NormalRequest j) = h # hs"
    and alive: "normal_monitors L ! j = Monitor_BeginTransaction now (seq_id h) 0 (of_nat j) mon"
  shows "\<not> Monitor_HasTimedOut now timeout_us (normal_monitors L ! j) \<and>
    0 < Layout_ScanCrashedWorkers L \<and>
    (let L' = snd (Layout_RecoverCrashedWorkers L)
     in layout_contents (L', m) (NormalRequest j) = hs \<and>
        \<not> Monitor_IsProcessing (normal_monitors L' ! j))"
proof -
  have wf: "wf_layout L" using inv by (simp add: Layout_inv_def)
  have proc: "Monitor_IsProcessing (normal_monitors L ! j)" using alive by (simp add: monitor_defs)
  have i: "NormalRequest j \<in> set queue_ids"
    using j by (auto simp: queue_ids_def kNormalWorkerCount_def numeral_eq_Suc less_Suc_eq)
  have "\<not> Monitor_HasTimedOut now timeout_us (normal_monitors L ! j)"
    using alive by (simp add: Monitor_HasTimedOut_def monitor_defs Let_def)
  moreover have "j \<in> set (filter (\<lambda>i. Monitor_IsProcessing (normal_monitors L ! i)) [0..<kNormalWorkerCount])"
    using proc j by simp
  then have "0 < Layout_ScanCrashedWorkers L"
    by (auto simp: Layout_ScanCrashedWorkers_def scan_loop_count filter_empty_conv)
  moreover have "layout_contents (recovered_layout L, m) (NormalRequest j) = hs"
    using recovered_queue(2) [OF inv i, of m] proc front by simp
  moreover have "\<not> Monitor_IsProcessing (normal_monitors (recovered_layout L) ! j)"
    using j proc by (simp add: recovered_layout_def kNormalWorkerCount_def)
  ultimately show ?thesis by (simp add: Layout_Recover_eq [OF wf])
qed

subsection \<open>Witnesses for the recovery\<close>

text \<open>An initialised layout in which normal worker 0 crashed with \<open>n\<close> requests in its ring.\<close>

definition crashed_layout :: "u64 \<Rightarrow> PhoenixShmLayout" where
  "crashed_layout n =
     (let L = initialized_layout 65536 148992 Layout_construct; c = normal_channels L ! 0
      in L\<lparr>normal_channels := (normal_channels L)[0 :=
             c\<lparr>request_queue := (request_queue c)\<lparr>rb_write_idx := n\<rparr>\<rparr>],
           normal_monitors := (normal_monitors L)[0 :=
             Monitor_BeginTransaction 1000 0 0 0 Monitor_construct]\<rparr>)"

lemma queue_of_crashed_layout:
  assumes "i \<in> set queue_ids"
  shows "queue_of (crashed_layout n) i =
    (if i = NormalRequest 0 then (Spsc_construct (buffer_of 65536 i) 16384)\<lparr>rb_write_idx := n\<rparr>
     else Spsc_construct (buffer_of 65536 i) 16384)"
proof -
  let ?L = "initialized_layout 65536 148992 Layout_construct"
  have len: "0 < length (normal_channels ?L)" by (simp add: initialized_layout_def)
  have "queue_of (crashed_layout n) i =
      (if i = NormalRequest 0 then (queue_of ?L i)\<lparr>rb_write_idx := n\<rparr> else queue_of ?L i)"
  proof (cases i)
    case (NormalRequest k)
    then show ?thesis using len by (cases k) (simp_all add: crashed_layout_def Let_def)
  next
    case (NormalResponse k)
    then show ?thesis using len by (cases k) (simp_all add: crashed_layout_def Let_def)
  qed (simp_all add: crashed_layout_def Let_def)
  then show ?thesis by (simp only: queue_of_initialized [OF assms])
qed

lemma crashed_layout_inv:
  assumes "n \<le> 1024"
  shows "Layout_inv 65536 (crashed_layout n)"
  unfolding Layout_inv_def
proof (intro conjI ballI)
  show "wf_layout (crashed_layout n)"
    by (simp add: wf_layout_def crashed_layout_def Let_def initialized_layout_def layout_consts)
  show "Layout_IsValid (crashed_layout n)"
    by (simp add: Layout_IsValid_def crashed_layout_def Let_def initialized_layout_def)
  fix i assume i: "i \<in> set queue_ids"
  show "Spsc_inv MsgHeader_type (cap_of i) (queue_of (crashed_layout n) i)"
    using Spsc_construct_inv [of i "buffer_of 65536 i"] assms
    by (auto simp: queue_of_crashed_layout [OF i] Spsc_inv_def Spsc_construct_def layout_consts)
  show "rb_buffer_start (queue_of (crashed_layout n) i) = buffer_of 65536 i"
    "rb_buffer_size (queue_of (crashed_layout n) i) = 16384"
    by (simp_all add: queue_of_crashed_layout [OF i] Spsc_construct_def)
qed

lemma worker_crashed_sample: "i \<in> set queue_ids \<Longrightarrow> worker_crashed (crashed_layout n) i \<longleftrightarrow> i = NormalRequest 0"
  unfolding queue_ids_def
  by (auto simp: crashed_layout_def Let_def initialized_layout_def monitor_defs nth_list_update)

lemma length_crashed_contents:
  "length (layout_contents (crashed_layout n, m) (NormalRequest 0)) = unat n"
  by (simp add: layout_contents_def queue_of_crashed_layout queue_ids_def Spsc_Size_def
      Spsc_construct_def del: queue_of.simps)

theorem Layout_recovery_skips_poison_pills_witness:
  "length (layout_contents (snd (Layout_RecoverCrashedWorkers (crashed_layout 3)), \<lambda>_. 0)
     (NormalRequest 0)) = 2"
proof -
  have "layout_contents (crashed_layout 3, \<lambda>_. 0) (NormalRequest 0) \<noteq> []"
    using length_crashed_contents [of 3 "\<lambda>_. 0"] by auto
  then have "\<forall>i \<in> set queue_ids. worker_crashed (crashed_layout 3) i \<longrightarrow>
      layout_contents (crashed_layout 3, \<lambda>_. 0) i \<noteq> []"
    by (simp add: worker_crashed_sample)
  from Layout_recovery_skips_poison_pills [OF crashed_layout_inv this] show ?thesis
    using length_crashed_contents [of 3 "\<lambda>_. 0"]
    by (simp add: Let_def case_prod_beta worker_crashed_sample queue_ids_def)
qed

theorem Layout_recovery_of_empty_ring_witness:
  "Spsc_Full 1024 (queue_of (snd (Layout_RecoverCrashedWorkers (crashed_layout 0))) (NormalRequest 0))"
proof -
  have empty: "layout_contents (crashed_layout 0, \<lambda>_. 0) (NormalRequest 0) = []"
    using length_crashed_contents [of 0 "\<lambda>_. 0"] by simp
  have i: "NormalRequest 0 \<in> set queue_ids" by (simp add: queue_ids_def)
  have crashed: "worker_crashed (crashed_layout 0) (NormalRequest 0)"
    by (simp only: worker_crashed_sample [OF i])
  have inv: "Layout_inv 65536 (crashed_layout 0)" by (rule crashed_layout_inv) simp
  show ?thesis
    using Layout_recovery_of_empty_ring [OF inv i crashed empty]
    by (simp add: Let_def layout_consts)
qed

text \<open>The request normal worker 0 is working on, in the first slot of its ring.\<close>

definition sample_request :: MsgHeader where
  "sample_request = \<lparr>seq_id = 0, func_id = 7, payload_len = 0\<rparr>"

definition sample_memory :: memory where
  "sample_memory =
     construct_at MsgHeader_type (\<lambda>_. 0) (buffer_of 65536 (NormalRequest 0)) sample_request"

lemma crashed_contents_one:
  "layout_contents (crashed_layout 1, sample_memory) (NormalRequest 0) = [sample_request]"
  by (simp add: layout_contents_def queue_of_crashed_layout queue_ids_def Spsc_contents_def idx_contents_def
      Spsc_Size_def Spsc_construct_def Spsc_GetElementPtr_def Spsc_BufferOffset_def
      sample_memory_def del: queue_of.simps)

theorem Layout_recovery_ignores_timeout_witness:
  "layout_contents (snd (Layout_RecoverCrashedWorkers (crashed_layout 1)), sample_memory)
     (NormalRequest 0) = []"
proof -
  have inv: "Layout_inv 65536 (crashed_layout 1)" by (rule crashed_layout_inv) simp
  have alive: "normal_monitors (crashed_layout 1) ! 0 =
      Monitor_BeginTransaction 1000 (seq_id sample_request) 0 (of_nat 0) Monitor_construct"
    by (simp add: crashed_layout_def Let_def initialized_layout_def sample_request_def)
  show ?thesis
    using Layout_recovery_ignores_timeout [OF inv _ crashed_contents_one alive]
    by (simp add: Let_def kNormalWorkerCount_def)
qed

end
