(* ===== verification/Ipc_Types.thy ===== *)
theory Ipc_Types
  imports Phoenix_Shm_Layout
begin

text \<open>
  The shared types of \<open>include/phoenix/ipc/ipc_types.hpp\<close>, and the step that server and client
  have in common: pushing a request to the least loaded worker of the group its priority
  selects. \<open>Ipc_Server\<close> and \<open>Ipc_Client\<close> build on it.
\<close>

datatype ConnectionState = kDisconnected | kConnecting | kConnected | kCrashed | kRecovering

primrec ConnectionState_code :: "ConnectionState \<Rightarrow> u8" where
  "ConnectionState_code kDisconnected = 0"
| "ConnectionState_code kConnecting = 1"
| "ConnectionState_code kConnected = 2"
| "ConnectionState_code kCrashed = 3"
| "ConnectionState_code kRecovering = 4"

record WorkerInfo =
  wi_group_id :: u8
  wi_index :: u16
  wi_is_alive :: bool
  wi_processed_count :: u64
  wi_failed_count :: u64

definition WorkerInfo_construct :: WorkerInfo where
  "WorkerInfo_construct =
     \<lparr>wi_group_id = 0, wi_index = 0, wi_is_alive = True, wi_processed_count = 0, wi_failed_count = 0\<rparr>"

record ServerConfig =
  cf_shm_name :: string
  cf_shm_size :: u64
  cf_worker_timeout_us :: u32
  cf_max_pending_requests :: u32
  cf_enable_cpu_affinity :: bool
  cf_vip_cpu_cores :: "u32 list"
  cf_normal_cpu_cores :: "u32 list"

text \<open>A promise and its future share one state, unset until the promise is fulfilled.\<close>

record CompletionToken =
  ct_shared :: "MsgHeader option"

definition CompletionToken_construct :: CompletionToken where
  "CompletionToken_construct = \<lparr>ct_shared = None\<rparr>"

text \<open>A handler turns the request header and payload into a response header and payload.\<close>

type_synonym RequestCallback = "MsgHeader \<Rightarrow> u8 list \<Rightarrow> MsgHeader \<times> u8 list"

section \<open>Pushing a request\<close>

text \<open>The two branches on the priority: a test whether the worker's request ring is full, then the
  push. \<open>s\<close> is the layout and the memory behind it.\<close>

definition push_request ::
  "Priority \<Rightarrow> nat \<Rightarrow> MsgHeader \<Rightarrow> PhoenixShmLayout \<times> memory \<Rightarrow> bool \<times> PhoenixShmLayout \<times> memory" where
  "push_request priority worker_index header s =
     (let (L, m) = s
      in if priority = kHigh then
           let c = Layout_GetVipChannel worker_index L
           in if Channel_RequestQueueFull kVipQueueCapacity c then (False, L, m)
              else let (ok, q, m') = Spsc_Push MsgHeader_type kVipQueueCapacity header (request_queue c, m)
                   in (ok, L\<lparr>vip_channels := (vip_channels L)[worker_index := c\<lparr>request_queue := q\<rparr>]\<rparr>, m')
         else
           let c = Layout_GetNormalChannel worker_index L
           in if Channel_RequestQueueFull kNormalQueueCapacity c then (False, L, m)
              else let (ok, q, m') = Spsc_Push MsgHeader_type kNormalQueueCapacity header (request_queue c, m)
                   in (ok, L\<lparr>normal_channels := (normal_channels L)[worker_index := c\<lparr>request_queue := q\<rparr>]\<rparr>, m'))"

definition best_worker :: "Priority \<Rightarrow> PhoenixShmLayout \<Rightarrow> nat" where
  "best_worker priority L =
     (if priority = kHigh then Layout_FindBestVipWorker L else Layout_FindBestNormalWorker L)"

subsection \<open>Its effect on the rings\<close>

fun request_id :: "Priority \<Rightarrow> nat \<Rightarrow> queue_id" where
  "request_id kHigh i = VipRequest i"
| "request_id kLow i = NormalRequest i"

definition request_ids :: "Priority \<Rightarrow> queue_id list" where
  "request_ids priority =
     map (request_id priority) [0..<(if priority = kHigh then kVipWorkerCount else kNormalWorkerCount)]"

lemma request_ids_values:
  "request_ids kLow = [NormalRequest 0, NormalRequest 1, NormalRequest 2, NormalRequest 3]"
  "request_ids kHigh = [VipRequest 0, VipRequest 1]"
  by (simp_all add: request_ids_def layout_consts upt_conv_Cons)

lemma request_ids_subset: "set (request_ids p) \<subseteq> set queue_ids"
  by (cases p) (auto simp: request_ids_def queue_ids_def layout_consts upt_conv_Cons)

lemma best_worker_bound: "best_worker p L < (if p = kHigh then kVipWorkerCount else kNormalWorkerCount)"
  using best_worker_upto [of kNormalWorkerCount "normal_channels L"]
    best_worker_upto [of kVipWorkerCount "vip_channels L"]
  by (simp add: best_worker_def Layout_FindBestNormalWorker_def Layout_FindBestVipWorker_def
      layout_consts Let_def)

lemma best_worker_least:
  assumes "i \<in> set (request_ids p)"
  shows "length (layout_contents (L, m) (request_id p (best_worker p L))) \<le> length (layout_contents (L, m) i)"
  using assms best_worker_upto [of kNormalWorkerCount "normal_channels L"]
    best_worker_upto [of kVipWorkerCount "vip_channels L"]
  by (cases p) (auto simp: request_ids_def best_worker_def Layout_FindBestNormalWorker_def
      Layout_FindBestVipWorker_def layout_consts Let_def layout_contents_def
      Channel_AvailableRequests_def word_le_nat_alt)

text \<open>Replacing one ring of the layout.\<close>

fun set_queue :: "queue_id \<Rightarrow> SpscRingBuffer \<Rightarrow> PhoenixShmLayout \<Rightarrow> PhoenixShmLayout" where
  "set_queue (NormalRequest i) q L =
     L\<lparr>normal_channels := (normal_channels L)[i := (normal_channels L ! i)\<lparr>request_queue := q\<rparr>]\<rparr>"
| "set_queue (NormalResponse i) q L =
     L\<lparr>normal_channels := (normal_channels L)[i := (normal_channels L ! i)\<lparr>response_queue := q\<rparr>]\<rparr>"
| "set_queue (VipRequest i) q L =
     L\<lparr>vip_channels := (vip_channels L)[i := (vip_channels L ! i)\<lparr>request_queue := q\<rparr>]\<rparr>"
| "set_queue (VipResponse i) q L =
     L\<lparr>vip_channels := (vip_channels L)[i := (vip_channels L ! i)\<lparr>response_queue := q\<rparr>]\<rparr>"

lemma queue_of_set_queue:
  assumes "wf_layout L" and "i \<in> set queue_ids" and "j \<in> set queue_ids"
  shows "queue_of (set_queue i q L) j = (if j = i then q else queue_of L j)"
  using assms
  by (cases i; cases j) (auto simp: wf_layout_def layout_consts queue_ids_def nth_list_update)

lemma wf_set_queue [simp]: "wf_layout (set_queue i q L) = wf_layout L"
  by (cases i) (simp_all add: wf_layout_def)

lemma IsValid_set_queue [simp]: "Layout_IsValid (set_queue i q L) = Layout_IsValid L"
  by (cases i) (simp_all add: Layout_IsValid_def)

lemma monitors_set_queue [simp]:
  "normal_monitors (set_queue i q L) = normal_monitors L"
  "vip_monitors (set_queue i q L) = vip_monitors L"
  by (cases i; simp)+

lemma Layout_inv_queue:
  assumes "Layout_inv this L" and "i \<in> set queue_ids"
  shows "Spsc_inv MsgHeader_type (cap_of i) (queue_of L i)"
    and "rb_buffer_start (queue_of L i) = buffer_of this i"
    and "rb_buffer_size (queue_of L i) = 16384"
  using assms by (simp_all add: Layout_inv_def)

text \<open>An operation on one ring that keeps its invariant and its buffer, and writes only there.\<close>

lemma set_queue_inv:
  assumes inv: "Layout_inv this L" and i: "i \<in> set queue_ids"
    and q: "Spsc_inv MsgHeader_type (cap_of i) q" "rb_buffer_start q = rb_buffer_start (queue_of L i)"
      "rb_buffer_size q = rb_buffer_size (queue_of L i)"
  shows "Layout_inv this (set_queue i q L)"
  using assms by (simp add: Layout_inv_def queue_of_set_queue)

lemma set_queue_contents:
  assumes inv: "Layout_inv this L" and i: "i \<in> set queue_ids" and j: "j \<in> set queue_ids"
    and frame: "\<And>a. a < buffer_of this i \<or> buffer_of this i + 16384 \<le> a \<Longrightarrow> m' a = m a"
  shows "layout_contents (set_queue i q L, m') j =
    (if j = i then Spsc_contents MsgHeader_type (cap_of i) (q, m') else layout_contents (L, m) j)"
proof (cases "j = i")
  case True
  then show ?thesis
    using inv i by (simp add: layout_contents_def queue_of_set_queue Layout_inv_def)
next
  case False
  have "layout_contents (set_queue i q L, m') j = layout_contents (L, m') j"
    using inv i j False by (simp add: layout_contents_def queue_of_set_queue Layout_inv_def)
  also have "\<dots> = layout_contents (L, m) j"
  proof (rule layout_contents_frame [OF inv j])
    fix a assume "buffer_of this j \<le> a" "a < buffer_of this j + 16384"
    then show "m' a = m a" using frame buffers_apart [OF i j, of this] False by (auto simp: apart_def)
  qed
  finally show ?thesis using False by simp
qed

lemma push_request_eq:
  assumes "wf_layout L"
  shows "push_request p w h (L, m) =
    (let i = request_id p w
     in if Spsc_Full (cap_of i) (queue_of L i) then (False, L, m)
        else let (ok, q, m') = Spsc_Push MsgHeader_type (cap_of i) h (queue_of L i, m)
             in (ok, set_queue i q L, m'))"
  by (cases p) (auto simp: push_request_def Layout_GetVipChannel_def Layout_GetNormalChannel_def
      Channel_RequestQueueFull_def Let_def split: prod.splits)

text \<open>A push to any ring of the layout.\<close>

lemma push_queue_effect:
  assumes inv: "Layout_inv this L" and i: "i \<in> set queue_ids"
    and room: "length (layout_contents (L, m) i) < unat (cap_of i)"
  obtains q m' where "Spsc_Push MsgHeader_type (cap_of i) h (queue_of L i, m) = (True, q, m')"
    and "Layout_inv this (set_queue i q L)"
    and "\<And>j. j \<in> set queue_ids \<Longrightarrow> layout_contents (set_queue i q L, m') j =
      layout_contents (L, m) j @ (if j = i then [h] else [])"
proof -
  let ?q = "queue_of L i" and ?c = "cap_of i"
  note q = Layout_inv_queue [OF inv i]
  have room': "unat (Spsc_Size ?q) < unat ?c" using room by (simp add: layout_contents_def)
  let ?q' = "?q\<lparr>rb_write_idx := rb_write_idx ?q + 1\<rparr>"
  let ?m' = "construct_at MsgHeader_type m (Spsc_GetElementPtr MsgHeader_type ?c ?q (rb_write_idx ?q)) h"
  have push: "Spsc_Push MsgHeader_type ?c h (?q, m) = (True, ?q', ?m')"
    using msg.Push_room [OF q(1), of m h] room' by simp
  moreover have "Layout_inv this (set_queue i ?q' L)"
    using msg.Push_inv [OF q(1) room'] by (intro set_queue_inv [OF inv i]) simp_all
  moreover have "layout_contents (set_queue i ?q' L, ?m') j =
      layout_contents (L, m) j @ (if j = i then [h] else [])" if j: "j \<in> set queue_ids" for j
  proof -
    have frame: "?m' a = m a" if "a < buffer_of this i \<or> buffer_of this i + 16384 \<le> a" for a
      using msg.Push_outside [OF q(1) push, of a] that q(2,3) by simp
    have "Spsc_contents MsgHeader_type ?c (?q', ?m') = layout_contents (L, m) i @ [h]"
      using msg.Push_contents [OF q(1) room', of m h] by (simp add: layout_contents_def)
    then show ?thesis using set_queue_contents [OF inv i j frame, where q = ?q'] by simp
  qed
  ultimately show thesis by (rule that)
qed

lemma push_request_effect:
  assumes inv: "Layout_inv this L" and i: "request_id p w \<in> set queue_ids"
  shows "case push_request p w h (L, m) of
      (ok, L', m') \<Rightarrow>
        (ok \<longleftrightarrow> length (layout_contents (L, m) (request_id p w)) < unat (cap_of (request_id p w))) \<and>
        (\<not> ok \<longrightarrow> L' = L \<and> m' = m) \<and> Layout_inv this L' \<and>
        (\<forall>j \<in> set queue_ids. layout_contents (L', m') j =
           layout_contents (L, m) j @ (if ok \<and> j = request_id p w then [h] else [])) \<and>
        normal_monitors L' = normal_monitors L \<and> vip_monitors L' = vip_monitors L"
proof -
  let ?i = "request_id p w"
  have wf: "wf_layout L" using inv by (simp add: Layout_inv_def)
  have full: "Spsc_Full (cap_of ?i) (queue_of L ?i) \<longleftrightarrow>
      \<not> length (layout_contents (L, m) ?i) < unat (cap_of ?i)"
    by (auto simp: Spsc_Full_iff layout_contents_def)
  show ?thesis
  proof (cases "Spsc_Full (cap_of ?i) (queue_of L ?i)")
    case True
    then show ?thesis using full inv by (simp add: push_request_eq [OF wf] Let_def)
  next
    case False
    then have room: "length (layout_contents (L, m) ?i) < unat (cap_of ?i)" using full by simp
    obtain q m' where "Spsc_Push MsgHeader_type (cap_of ?i) h (queue_of L ?i, m) = (True, q, m')"
      and "Layout_inv this (set_queue ?i q L)"
      and "\<And>j. j \<in> set queue_ids \<Longrightarrow> layout_contents (set_queue ?i q L, m') j =
        layout_contents (L, m) j @ (if j = ?i then [h] else [])"
      by (rule push_queue_effect [OF inv i room, of h]) blast
    then show ?thesis using False room by (simp add: push_request_eq [OF wf] Let_def)
  qed
qed

lemma push_request_best:
  assumes inv: "Layout_inv this L"
  shows "(length (layout_contents (L, m) (request_id p (best_worker p L))) <
      unat (cap_of (request_id p (best_worker p L)))) \<longleftrightarrow>
    list_ex (\<lambda>i. length (layout_contents (L, m) i) < unat (cap_of i)) (request_ids p)"
    and "request_id p (best_worker p L) \<in> set (request_ids p)"
proof -
  let ?b = "request_id p (best_worker p L)"
  show b: "?b \<in> set (request_ids p)" using best_worker_bound [of p L] by (auto simp: request_ids_def)
  have "cap_of i = cap_of ?b" if "i \<in> set (request_ids p)" for i
    using that by (cases p) (auto simp: request_ids_def)
  then have same: "unat (cap_of i) = unat (cap_of ?b)" if "i \<in> set (request_ids p)" for i
    using that by simp
  let ?len = "\<lambda>i. length (layout_contents (L, m) i)"
  have "?len ?b < unat (cap_of ?b)" if i: "i \<in> set (request_ids p)" and lt: "?len i < unat (cap_of i)" for i
    using best_worker_least [OF i, of L m] lt same [OF i] by linarith
  then show "(?len ?b < unat (cap_of ?b)) \<longleftrightarrow> list_ex (\<lambda>i. ?len i < unat (cap_of i)) (request_ids p)"
    unfolding list_ex_iff using b by blast
qed

lemma push_best_effect:
  assumes inv: "Layout_inv this L"
  shows "case push_request p (best_worker p L) h (L, m) of
      (ok, L', m') \<Rightarrow>
        (ok \<longleftrightarrow> list_ex (\<lambda>i. length (layout_contents (L, m) i) < unat (cap_of i)) (request_ids p)) \<and>
        (\<not> ok \<longrightarrow> L' = L \<and> m' = m) \<and> Layout_inv this L' \<and>
        (\<forall>j \<in> set queue_ids. layout_contents (L', m') j =
           layout_contents (L, m) j @ (if ok \<and> j = request_id p (best_worker p L) then [h] else [])) \<and>
        normal_monitors L' = normal_monitors L \<and> vip_monitors L' = vip_monitors L"
proof -
  have i: "request_id p (best_worker p L) \<in> set queue_ids"
    using push_request_best(2) [OF inv, of p] request_ids_subset by blast
  show ?thesis
    using push_request_effect [OF inv i, where h = h and m = m] push_request_best(1) [OF inv, of m p]
    by (auto split: prod.splits)
qed

text \<open>The layout the server creates, at the start of a page.\<close>

definition fresh_layout :: PhoenixShmLayout where
  "fresh_layout = initialized_layout 65536 Layout_RequiredSize Layout_construct"

lemma fresh_layout_inv: "Layout_inv 65536 fresh_layout"
  unfolding fresh_layout_def by (rule initialized_inv)

lemma fresh_layout_empty: "i \<in> set queue_ids \<Longrightarrow> layout_contents (fresh_layout, m) i = []"
  unfolding fresh_layout_def by (rule initialized_contents)

lemma fresh_layout_best: "best_worker p fresh_layout = 0"
  by (simp add: fresh_layout_def best_worker_def initialized_best)

end
