(* ===== verification/Ipc_Server.thy ===== *)
theory Ipc_Server
  imports Ipc_Types Linux_Eventfd
begin

text \<open>
  The server of \<open>include/phoenix/ipc/ipc_server.hpp\<close> and \<open>src/ipc/ipc_server.cpp\<close>. \<open>IpcServer\<close>
  holds the fields of the class; \<open>server_world\<close> the names of the shared memory objects and the
  server's segment, which lives at the address \<open>se_this\<close>. Outcomes of system calls are
  arguments. A call that does not come back has the result None. One iteration of a thread's
  loop is a function; the interleaving of the threads is a sequence of such steps. Output to
  the console is left out.
\<close>

record IpcServer =
  sv_config :: ServerConfig
  sv_shm_name :: string
  sv_shm_addr :: mapping_ptr
  sv_shm_size :: u64
  sv_shm_fd :: "nat option"
  sv_layout :: mapping_ptr
  sv_response_signal :: LinuxEventFdSignal
  sv_worker_pid :: pid
  sv_running :: bool
  sv_state :: ConnectionState
  sv_requests_sent :: u64
  sv_responses_received :: u64
  sv_crashes_detected :: u64
  sv_poison_pills_skipped :: u64
  sv_next_seq_id :: u64
  sv_handlers :: "RequestCallback option list"

definition kMaxHandlers :: nat where "kMaxHandlers = 256"

text \<open>\<open>unset\<close> is the uninitialised struct, whose core lists are never assigned.\<close>

definition Server_GetDefaultConfig :: "ServerConfig \<Rightarrow> string \<Rightarrow> ServerConfig" where
  "Server_GetDefaultConfig unset shm_name =
     unset\<lparr>cf_shm_name := shm_name, cf_shm_size := Layout_RequiredSize,
           cf_worker_timeout_us := 5000000, cf_max_pending_requests := 10000,
           cf_enable_cpu_affinity := False\<rparr>"

definition Server_construct :: "ServerConfig \<Rightarrow> IpcServer" where
  "Server_construct config =
     \<lparr>sv_config = config, sv_shm_name = ''/'' @ cf_shm_name config, sv_shm_addr = Null, sv_shm_size = 0,
      sv_shm_fd = None, sv_layout = Null, sv_response_signal = Signal_construct, sv_worker_pid = - 1,
      sv_running = False, sv_state = kDisconnected, sv_requests_sent = 0, sv_responses_received = 0,
      sv_crashes_detected = 0, sv_poison_pills_skipped = 0, sv_next_seq_id = 1, sv_handlers = []\<rparr>"

definition CreateIpcServer :: "ServerConfig \<Rightarrow> string \<Rightarrow> IpcServer" where
  "CreateIpcServer unset shm_name = Server_construct (Server_GetDefaultConfig unset shm_name)"

record server_world =
  sw_names :: "string \<Rightarrow> bool"
  sw_layout :: PhoenixShmLayout
  sw_memory :: memory

section \<open>The supervisor\<close>

definition Server_RecoverFromCrash :: "IpcServer \<times> server_world \<Rightarrow> IpcServer \<times> server_world" where
  "Server_RecoverFromCrash s =
     (let (sv, w) = s;
          (skipped, L) = Layout_RecoverCrashedWorkers (sw_layout w)
      in (sv\<lparr>sv_poison_pills_skipped := sv_poison_pills_skipped sv + of_nat skipped\<rparr>,
          w\<lparr>sw_layout := L\<rparr>))"

text \<open>What \<open>waitpid\<close> and \<open>fork\<close> return in one iteration of the supervisor. The restarted child
  exits at once; the function continues in the parent.\<close>

record supervisor_env =
  su_waitpid :: pid
  su_fork :: pid

definition supervisor_iteration ::
  "supervisor_env \<Rightarrow> IpcServer \<times> server_world \<Rightarrow> IpcServer \<times> server_world" where
  "supervisor_iteration env s =
     (let (sv, w) = s
      in if su_waitpid env = sv_worker_pid sv then
           let sv = sv\<lparr>sv_crashes_detected := sv_crashes_detected sv + 1, sv_state := kCrashed\<rparr>;
               (sv, w) = Server_RecoverFromCrash (sv, w);
               sv = sv\<lparr>sv_worker_pid := su_fork env\<rparr>
           in if sint (su_fork env) < 0 then (sv\<lparr>sv_running := False\<rparr>, w)
              else (sv\<lparr>sv_state := kConnected\<rparr>, w)
         else (sv, w))"

text \<open>The loop over the iterations the thread makes until the server stops running.\<close>

fun Server_SupervisorMain ::
  "supervisor_env list \<Rightarrow> IpcServer \<times> server_world \<Rightarrow> IpcServer \<times> server_world" where
  "Server_SupervisorMain [] s = s"
| "Server_SupervisorMain (env # envs) s =
     (if sv_running (fst s) then Server_SupervisorMain envs (supervisor_iteration env s) else s)"

section \<open>Starting and stopping\<close>

text \<open>Killing and reaping the worker and joining the threads come to an end; \<open>Reset\<close> of the
  signal may not, and then nothing after it happens.\<close>

definition Server_Stop :: "IpcServer \<times> server_world \<Rightarrow> unit option \<times> IpcServer \<times> server_world" where
  "Server_Stop s =
     (let (sv, w) = s
      in if \<not> sv_running sv then (Some (), sv, w)
         else
           let sv = sv\<lparr>sv_running := False\<rparr>;
               sv = (if sint (sv_worker_pid sv) > 0 then sv\<lparr>sv_worker_pid := - 1\<rparr> else sv);
               (reset, signal) = Signal_Reset (sv_response_signal sv);
               sv = sv\<lparr>sv_response_signal := signal\<rparr>
           in case reset of
                None \<Rightarrow> (None, sv, w)
              | Some _ \<Rightarrow>
                  let sv = (if sv_shm_addr sv \<noteq> Null \<and> sv_shm_addr sv \<noteq> Map_failed
                            then sv\<lparr>sv_shm_addr := Null\<rparr> else sv);
                      sv = (if sv_shm_fd sv \<noteq> None then sv\<lparr>sv_shm_fd := None\<rparr> else sv)
                  in (Some (), sv\<lparr>sv_state := kDisconnected\<rparr>,
                      w\<lparr>sw_names := (sw_names w)(sv_shm_name sv := False)\<rparr>))"

definition Server_destroy :: "IpcServer \<times> server_world \<Rightarrow> unit option \<times> IpcServer \<times> server_world" where
  "Server_destroy s = Server_Stop s"

record server_env =
  se_this :: address
  se_shm_open_ok :: bool
  se_ftruncate_ok :: bool
  se_mmap_ok :: bool
  se_eventfd_error :: "string option"
  se_fork :: pid
  se_before_fork :: "supervisor_env list"
  se_after_fork :: "supervisor_env list"

text \<open>The rest of \<open>Start\<close> once the segment is mapped. The supervisor thread runs from then on: it makes
  the iterations \<open>se_before_fork\<close> before the fork and \<open>se_after_fork\<close> between the fork and the test of
  the worker's process id, which it may have changed by then. The child process has no
  supervisor and never returns from here: it becomes the worker or exits. The collector
  thread only waits on the signal.\<close>

definition Server_Start_mapped ::
  "server_env \<Rightarrow> IpcServer \<times> server_world \<Rightarrow> bool option \<times> IpcServer \<times> server_world" where
  "Server_Start_mapped env s =
     (let (sv, w) = s;
          (ok, L) = Layout_Initialize (se_this env) (sv_shm_size sv) Layout_construct;
          w = w\<lparr>sw_layout := L\<rparr>;
          sv = sv\<lparr>sv_layout := Mapped (se_this env)\<rparr>
      in if \<not> ok then (Some False, sv, w\<lparr>sw_names := (sw_names w)(sv_shm_name sv := False)\<rparr>)
         else
           let (created, signal) = Signal_Create (se_eventfd_error env) 0 False False (sv_response_signal sv);
               sv = sv\<lparr>sv_response_signal := signal\<rparr>
           in if \<not> created then (Some False, sv, w)
              else
                let sv = sv\<lparr>sv_handlers := take kMaxHandlers (sv_handlers sv)
                              @ replicate (kMaxHandlers - length (sv_handlers sv)) None,
                            sv_running := True, sv_state := kConnecting\<rparr>;
                    (sv, w) = Server_SupervisorMain (se_before_fork env) (sv, w);
                    sv = sv\<lparr>sv_worker_pid := se_fork env\<rparr>
                in if se_fork env = 0 then (None, sv, w)
                   else
                     let (sv, w) = Server_SupervisorMain (se_after_fork env) (sv, w)
                     in if sint (sv_worker_pid sv) < 0 then
                          (case Server_Stop (sv, w) of (r, sv, w) \<Rightarrow> (map_option (\<lambda>_. False) r, sv, w))
                        else (Some True, sv\<lparr>sv_state := kConnected\<rparr>, w))"

definition Server_Start ::
  "server_env \<Rightarrow> IpcServer \<times> server_world \<Rightarrow> bool option \<times> IpcServer \<times> server_world" where
  "Server_Start env s =
     (let (sv, w) = s
      in if sv_running sv then (Some True, sv, w)
         else
           let sv = sv\<lparr>sv_shm_size := Layout_RequiredSize\<rparr>
           in if \<not> se_shm_open_ok env then (Some False, sv\<lparr>sv_shm_fd := None\<rparr>, w)
              else
                let sv = sv\<lparr>sv_shm_fd := Some 0\<rparr>;
                    unlinked = w\<lparr>sw_names := (sw_names w)(sv_shm_name sv := False)\<rparr>;
                    w = w\<lparr>sw_names := (sw_names w)(sv_shm_name sv := True)\<rparr>
                in if \<not> se_ftruncate_ok env then (Some False, sv, unlinked)
                   else if \<not> se_mmap_ok env then (Some False, sv\<lparr>sv_shm_addr := Map_failed\<rparr>, unlinked)
                   else Server_Start_mapped env (sv\<lparr>sv_shm_addr := Mapped (se_this env)\<rparr>, w))"

definition Server_IsRunning :: "IpcServer \<Rightarrow> bool" where
  "Server_IsRunning sv \<longleftrightarrow> sv_running sv \<and> sv_state sv = kConnected"

section \<open>Requests\<close>

definition Server_SelectBestWorker :: "Priority \<Rightarrow> PhoenixShmLayout \<Rightarrow> nat" where
  "Server_SelectBestWorker priority L = best_worker priority L"

definition Server_DispatchMessage ::
  "MsgHeader \<Rightarrow> Priority \<Rightarrow> PhoenixShmLayout \<times> memory \<Rightarrow> bool \<times> PhoenixShmLayout \<times> memory" where
  "Server_DispatchMessage header priority s =
     (let worker_index = Server_SelectBestWorker priority (fst s)
      in push_request priority worker_index header s)"

text \<open>
  The future is already fulfilled when it is returned: the result is its value. \<open>unset\<close> gives
  the members of the local headers the code does not assign. Without a layout the call is
  undefined behaviour, and the result None.
\<close>

definition Server_SendAsync ::
  "MsgHeader \<Rightarrow> u32 \<Rightarrow> u64 \<Rightarrow> Priority \<Rightarrow> IpcServer \<times> server_world \<Rightarrow>
   MsgHeader option \<times> IpcServer \<times> server_world" where
  "Server_SendAsync unset fid payload_size priority s =
     (let (sv, w) = s;
          header = \<lparr>seq_id = sv_next_seq_id sv, func_id = fid, payload_len = ucast payload_size\<rparr>;
          sv = sv\<lparr>sv_next_seq_id := sv_next_seq_id sv + 1\<rparr>
      in case sv_layout sv of
           Mapped _ \<Rightarrow>
             (let (ok, L, m) = Server_DispatchMessage header priority (sw_layout w, sw_memory w);
                  w = w\<lparr>sw_layout := L, sw_memory := m\<rparr>
              in if \<not> ok then (Some (unset\<lparr>seq_id := 0\<rparr>), sv, w)
                 else (Some (unset\<lparr>seq_id := seq_id header\<rparr>),
                       sv\<lparr>sv_requests_sent := sv_requests_sent sv + 1\<rparr>, w))
         | _ \<Rightarrow> (None, sv, w))"

definition Server_SendAsync_normal ::
  "MsgHeader \<Rightarrow> u32 \<Rightarrow> u64 \<Rightarrow> IpcServer \<times> server_world \<Rightarrow> MsgHeader option \<times> IpcServer \<times> server_world" where
  "Server_SendAsync_normal unset fid payload_size s = Server_SendAsync unset fid payload_size kLow s"

text \<open>The future of \<open>SendAsync\<close> is ready, so the wait ends at once whatever the timeout.\<close>

definition Server_Send ::
  "MsgHeader \<Rightarrow> u32 \<Rightarrow> u64 \<Rightarrow> u32 \<Rightarrow> IpcServer \<times> server_world \<Rightarrow> MsgHeader option \<times> IpcServer \<times> server_world" where
  "Server_Send unset fid payload_size timeout_ms s = Server_SendAsync_normal unset fid payload_size s"

text \<open>Assigning past the end of the vector is undefined behaviour: None.\<close>

definition Server_RegisterHandler :: "u32 \<Rightarrow> RequestCallback \<Rightarrow> IpcServer \<Rightarrow> IpcServer option" where
  "Server_RegisterHandler fid callback sv =
     (if unat fid < kMaxHandlers
      then if unat fid < length (sv_handlers sv)
           then Some (sv\<lparr>sv_handlers := (sv_handlers sv)[unat fid := Some callback]\<rparr>)
           else None
      else Some sv)"

record ServerStats =
  ss_requests_sent :: u64
  ss_responses_received :: u64
  ss_crashes_detected :: u64
  ss_poison_pills_skipped :: u64
  ss_normal_queue_load :: nat
  ss_vip_queue_load :: nat

definition Server_GetStats :: "IpcServer \<times> server_world \<Rightarrow> ServerStats option" where
  "Server_GetStats s =
     (let (sv, w) = s
      in case sv_layout sv of
           Mapped _ \<Rightarrow> Some
             \<lparr>ss_requests_sent = sv_requests_sent sv, ss_responses_received = sv_responses_received sv,
              ss_crashes_detected = sv_crashes_detected sv,
              ss_poison_pills_skipped = sv_poison_pills_skipped sv,
              ss_normal_queue_load = Layout_FindBestNormalWorker (sw_layout w),
              ss_vip_queue_load = Layout_FindBestVipWorker (sw_layout w)\<rparr>
         | _ \<Rightarrow> None)"

section \<open>The threads\<close>

definition Server_HandleCrash :: "IpcServer \<times> server_world \<Rightarrow> IpcServer \<times> server_world" where
  "Server_HandleCrash s = s"

text \<open>\<open>arrivals\<close> notifications reach the signal during each wait.\<close>

fun Server_ResponseCollectorMain :: "nat list \<Rightarrow> IpcServer \<Rightarrow> IpcServer" where
  "Server_ResponseCollectorMain [] sv = sv"
| "Server_ResponseCollectorMain (arrivals # rest) sv =
     (if sv_running sv
      then let (signalled, signal) = Signal_Wait 100 arrivals (sv_response_signal sv);
               sv = sv\<lparr>sv_response_signal := signal\<rparr>
           in Server_ResponseCollectorMain rest
                (if signalled = Some True \<and> Server_IsRunning sv
                 then sv\<lparr>sv_responses_received := sv_responses_received sv + 1\<rparr> else sv)
      else sv)"

section \<open>Facts\<close>

lemma Start_effect:
  assumes ok: "\<not> sv_running sv" "se_shm_open_ok env" "se_ftruncate_ok env" "se_mmap_ok env"
      "se_eventfd_error env = None"
    and fork: "0 < sint (se_fork env)" and quiet: "se_before_fork env = []" "se_after_fork env = []"
  shows "\<exists>sv'. Server_Start env (sv, w) = (Some True, sv',
      w\<lparr>sw_names := (sw_names w)(sv_shm_name sv := True),
        sw_layout := initialized_layout (se_this env) Layout_RequiredSize Layout_construct\<rparr>) \<and>
    sv_running sv' \<and> sv_state sv' = kConnected \<and> sv_layout sv' = Mapped (se_this env) \<and>
    sv_worker_pid sv' = se_fork env \<and> length (sv_handlers sv') = kMaxHandlers \<and>
    sv_next_seq_id sv' = sv_next_seq_id sv \<and> sv_requests_sent sv' = sv_requests_sent sv \<and>
    sv_response_signal sv' = snd (Signal_Create None 0 False False (sv_response_signal sv))"
proof -
  have "Layout_Initialize (se_this env) Layout_RequiredSize Layout_construct =
      (True, initialized_layout (se_this env) Layout_RequiredSize Layout_construct)"
    by (simp add: Layout_Initialize_eq [OF wf_Layout_construct] Layout_RequiredSize_value)
  moreover have "se_fork env \<noteq> 0" using fork by auto
  ultimately show ?thesis
    using ok fork quiet by (simp add: Server_Start_def Server_Start_mapped_def Let_def split_beta Signal_Create_def)
qed

subsection \<open>The supervisor thread\<close>

text \<open>No restart of the supervisor fails.\<close>

definition restarts_ok :: "supervisor_env list \<Rightarrow> bool" where
  "restarts_ok envs \<longleftrightarrow> list_all (\<lambda>e. 0 \<le> sint (su_fork e)) envs"

text \<open>What the thread never touches, and what it does to the two flags.\<close>

lemma supervisor_keeps:
  assumes "Server_SupervisorMain envs (sv, w) = (sv', w')"
  shows "sv_shm_name sv' = sv_shm_name sv \<and> sv_response_signal sv' = sv_response_signal sv \<and>
    sw_names w' = sw_names w \<and>
    (sv_state sv \<noteq> kDisconnected \<longrightarrow> sv_state sv' \<noteq> kDisconnected) \<and>
    (sv_running sv \<and> restarts_ok envs \<longrightarrow> sv_running sv')"
  using assms
proof (induction envs arbitrary: sv w)
  case (Cons e envs)
  show ?case
  proof (cases "sv_running sv")
    case True
    obtain sv1 w1 where it: "supervisor_iteration e (sv, w) = (sv1, w1)" by (cases "supervisor_iteration e (sv, w)")
    then have "sv_shm_name sv1 = sv_shm_name sv \<and> sv_response_signal sv1 = sv_response_signal sv \<and>
        sw_names w1 = sw_names w \<and> (sv_state sv \<noteq> kDisconnected \<longrightarrow> sv_state sv1 \<noteq> kDisconnected) \<and>
        (0 \<le> sint (su_fork e) \<longrightarrow> sv_running sv1)"
      using True by (auto simp: supervisor_iteration_def Server_RecoverFromCrash_def Let_def split: prod.splits if_splits)
    then show ?thesis using Cons.IH [of sv1 w1] Cons.prems True it by (auto simp: restarts_ok_def)
  qed (use Cons.prems in simp)
qed simp

text \<open>\<open>Start\<close> up to the test of the process id.\<close>

definition created_signal :: "LinuxEventFdSignal \<Rightarrow> LinuxEventFdSignal" where
  "created_signal signal = snd (Signal_Create None 0 False False signal)"

lemma Start_runs:
  assumes ok: "\<not> sv_running sv" "se_shm_open_ok env" "se_ftruncate_ok env" "se_mmap_ok env"
      "se_eventfd_error env = None"
  shows "\<exists>sv1 w1. sv_shm_name sv1 = sv_shm_name sv \<and>
    sv_response_signal sv1 = created_signal (sv_response_signal sv) \<and>
    sw_names w1 (sv_shm_name sv) \<and> sv_state sv1 \<noteq> kDisconnected \<and>
    (restarts_ok (se_before_fork env @ se_after_fork env) \<longrightarrow> sv_running sv1) \<and>
    (se_after_fork env = [] \<longrightarrow> sv_worker_pid sv1 = se_fork env) \<and>
    Server_Start env (sv, w) =
      (if se_fork env = 0 then (None, sv1, w1)
       else if sint (sv_worker_pid sv1) < 0
       then (case Server_Stop (sv1, w1) of (r, sv, w) \<Rightarrow> (map_option (\<lambda>_. False) r, sv, w))
       else (Some True, sv1\<lparr>sv_state := kConnected\<rparr>, w1))"
proof -
  let ?L = "initialized_layout (se_this env) Layout_RequiredSize Layout_construct"
  have layout: "Layout_Initialize (se_this env) Layout_RequiredSize Layout_construct = (True, ?L)"
    by (simp add: Layout_Initialize_eq [OF wf_Layout_construct] Layout_RequiredSize_value)
  have created: "Signal_Create None 0 False False (sv_response_signal sv) = (True, created_signal (sv_response_signal sv))"
    by (simp add: created_signal_def Signal_Create_def)
  let ?sv = "sv\<lparr>sv_shm_size := Layout_RequiredSize, sv_shm_fd := Some 0, sv_shm_addr := Mapped (se_this env),
    sv_layout := Mapped (se_this env), sv_response_signal := created_signal (sv_response_signal sv),
    sv_handlers := take kMaxHandlers (sv_handlers sv) @ replicate (kMaxHandlers - length (sv_handlers sv)) None,
    sv_running := True, sv_state := kConnecting\<rparr>"
  let ?w = "w\<lparr>sw_names := (sw_names w)(sv_shm_name sv := True), sw_layout := ?L\<rparr>"
  obtain sva wa where before: "Server_SupervisorMain (se_before_fork env) (?sv, ?w) = (sva, wa)"
    by (cases "Server_SupervisorMain (se_before_fork env) (?sv, ?w)")
  let ?sva = "sva\<lparr>sv_worker_pid := se_fork env\<rparr>"
  obtain svb wb where after: "Server_SupervisorMain (se_after_fork env) (?sva, wa) = (svb, wb)"
    by (cases "Server_SupervisorMain (se_after_fork env) (?sva, wa)")
  note a = supervisor_keeps [OF before] and b = supervisor_keeps [OF after]
  have start: "Server_Start env (sv, w) =
      (if se_fork env = 0 then (None, ?sva, wa)
       else if sint (sv_worker_pid svb) < 0
       then (case Server_Stop (svb, wb) of (r, sv, w) \<Rightarrow> (map_option (\<lambda>_. False) r, sv, w))
       else (Some True, svb\<lparr>sv_state := kConnected\<rparr>, wb))"
    using ok layout before after
    by (simp add: Server_Start_def Server_Start_mapped_def created Let_def)
  show ?thesis
  proof (cases "se_fork env = 0")
    case True
    then show ?thesis using start a
      by (intro exI [of _ ?sva] exI [of _ wa]) (simp add: restarts_ok_def)
  next
    case False
    then show ?thesis using start a b after
      by (intro exI [of _ svb] exI [of _ wb]) (auto simp: restarts_ok_def)
  qed
qed

text \<open>\<open>Stop\<close> with the signal \<open>Start\<close> creates.\<close>

lemma Stop_blocks:
  assumes "sv_response_signal sv = notify_times k (created_signal signal)"
    and "Server_Stop (sv, w) = (r, sv', w')"
  shows "r = (if sv_running sv then None else Some ()) \<and> w' = w \<and> sv_state sv' = sv_state sv \<and>
    \<not> sv_running sv'"
proof -
  have "fst (Signal_Reset (sv_response_signal sv)) = None"
    unfolding assms(1) created_signal_def by (rule Signal_Reset_created) simp
  then show ?thesis
    using assms(2) by (auto simp: Server_Stop_def Let_def split_beta split: if_splits prod.splits)
qed

lemma iteration_crash:
  assumes "su_waitpid env = sv_worker_pid sv" and "0 \<le> sint (su_fork env)" and "wf_layout (sw_layout w)"
  shows "supervisor_iteration env (sv, w) =
    (sv\<lparr>sv_crashes_detected := sv_crashes_detected sv + 1, sv_state := kConnected,
        sv_poison_pills_skipped := sv_poison_pills_skipped sv + of_nat (Layout_ScanCrashedWorkers (sw_layout w)),
        sv_worker_pid := su_fork env\<rparr>,
     w\<lparr>sw_layout := recovered_layout (sw_layout w)\<rparr>)"
  using assms by (simp add: supervisor_iteration_def Server_RecoverFromCrash_def Layout_Recover_eq Let_def)

text \<open>What happens when every restarted child exits at once, as the code makes it do, and
  \<open>waitpid\<close> reports it in the next iteration.\<close>

fun exits_at_once :: "pid \<Rightarrow> pid list \<Rightarrow> supervisor_env list" where
  "exits_at_once worker [] = []"
| "exits_at_once worker (child # children) =
     \<lparr>su_waitpid = worker, su_fork = child\<rparr> # exits_at_once child children"

lemma crash_loop:
  assumes "sv_running sv" and "wf_layout (sw_layout w)" and "\<forall>c \<in> set children. 0 < sint c" and "children \<noteq> []"
  shows "Server_SupervisorMain (exits_at_once (sv_worker_pid sv) children) (sv, w) =
    (sv\<lparr>sv_crashes_detected := sv_crashes_detected sv + of_nat (length children), sv_state := kConnected,
        sv_poison_pills_skipped := sv_poison_pills_skipped sv + of_nat (Layout_ScanCrashedWorkers (sw_layout w)),
        sv_worker_pid := last children\<rparr>,
     w\<lparr>sw_layout := recovered_layout (sw_layout w)\<rparr>)"
  using assms
proof (induction children arbitrary: sv w)
  case Nil
  then show ?case by simp
next
  case (Cons c children)
  have step: "supervisor_iteration \<lparr>su_waitpid = sv_worker_pid sv, su_fork = c\<rparr> (sv, w) =
    (sv\<lparr>sv_crashes_detected := sv_crashes_detected sv + 1, sv_state := kConnected,
        sv_poison_pills_skipped := sv_poison_pills_skipped sv + of_nat (Layout_ScanCrashedWorkers (sw_layout w)),
        sv_worker_pid := c\<rparr>,
     w\<lparr>sw_layout := recovered_layout (sw_layout w)\<rparr>)"
    using iteration_crash [of "\<lparr>su_waitpid = sv_worker_pid sv, su_fork = c\<rparr>" sv w] Cons.prems by simp
  show ?case
  proof (cases children)
    case Nil
    then show ?thesis using step Cons.prems(1) by simp
  next
    case (Cons d ds)
    let ?sv = "fst (supervisor_iteration \<lparr>su_waitpid = sv_worker_pid sv, su_fork = c\<rparr> (sv, w))"
    let ?w = "snd (supervisor_iteration \<lparr>su_waitpid = sv_worker_pid sv, su_fork = c\<rparr> (sv, w))"
    have "Server_SupervisorMain (exits_at_once (sv_worker_pid ?sv) children) (?sv, ?w) =
      (?sv\<lparr>sv_crashes_detected := sv_crashes_detected ?sv + of_nat (length children), sv_state := kConnected,
          sv_poison_pills_skipped := sv_poison_pills_skipped ?sv + of_nat (Layout_ScanCrashedWorkers (sw_layout ?w)),
          sv_worker_pid := last children\<rparr>,
       ?w\<lparr>sw_layout := recovered_layout (sw_layout ?w)\<rparr>)"
      using Cons.prems step Cons recovered_wf [of "sw_layout w"]
      by (intro Cons.IH) simp_all
    then show ?thesis
      using step Cons.prems(1,2) Cons
      by (simp add: recovered_scan recovered_again add.assoc)
  qed
qed

section \<open>Properties\<close>

text \<open>
  C16. Dispatching a request. It is refused, and nothing changes, exactly when every request ring
  of the group its priority selects is full. Otherwise it goes to the end of the request ring
  of a worker with the fewest requests in that group; no other ring and no monitor changes, and
  the layout keeps its invariant.
\<close>

theorem Server_dispatch_exact:
  assumes inv: "Layout_inv this L"
  shows "let worker = Server_SelectBestWorker p L
     in case Server_DispatchMessage h p (L, m) of
          (ok, L', m') \<Rightarrow>
            (ok \<longleftrightarrow> list_ex (\<lambda>i. length (layout_contents (L, m) i) < unat (cap_of i)) (request_ids p)) \<and>
            (\<not> ok \<longrightarrow> L' = L \<and> m' = m) \<and> Layout_inv this L' \<and>
            (\<forall>i \<in> set (request_ids p).
               length (layout_contents (L, m) (request_id p worker)) \<le> length (layout_contents (L, m) i)) \<and>
            (\<forall>j \<in> set queue_ids. layout_contents (L', m') j =
               layout_contents (L, m) j @ (if ok \<and> j = request_id p worker then [h] else [])) \<and>
            normal_monitors L' = normal_monitors L \<and> vip_monitors L' = vip_monitors L"
  using push_best_effect [OF inv, where h = h and p = p and m = m] best_worker_least [of _ p L m]
  by (auto simp: Let_def Server_SelectBestWorker_def Server_DispatchMessage_def split: prod.splits)

theorem Server_dispatch_exact_witness:
  "fst (Server_DispatchMessage \<lparr>seq_id = 1, func_id = 2, payload_len = 0\<rparr> kHigh (fresh_layout, \<lambda>_. 0))"
  using Server_dispatch_exact [OF fresh_layout_inv, where p = kHigh and m = "\<lambda>_. 0"
      and h = "\<lparr>seq_id = 1, func_id = 2, payload_len = 0\<rparr>"]
  by (auto simp: request_ids_values fresh_layout_empty queue_ids_def layout_consts Let_def
      split: prod.splits)

text \<open>
  What \<open>SendAsync\<close> of a started server does. The sequence number advances by one whatever
  happens. When the group has room, the request is queued under the number that was next and
  counted; otherwise the future holds the error header with number 0. Either way the future is
  fulfilled before any worker has seen the request: its header repeats the request's own number
  and is no response, no response ring having changed.
\<close>

theorem Server_SendAsync_exact:
  assumes started: "sv_layout sv = Mapped this" and inv: "Layout_inv this (sw_layout w)"
  shows "let room = list_ex (\<lambda>i. length (layout_contents (sw_layout w, sw_memory w) i) < unat (cap_of i)) (request_ids p);
         h = \<lparr>seq_id = sv_next_seq_id sv, func_id = fid, payload_len = ucast n\<rparr>;
         dest = request_id p (Server_SelectBestWorker p (sw_layout w))
     in case Server_SendAsync unset fid n p (sv, w) of
          (future, sv', w') \<Rightarrow>
            sv_next_seq_id sv' = sv_next_seq_id sv + 1 \<and>
            map_option seq_id future = Some (if room then seq_id h else 0) \<and>
            sv_requests_sent sv' = sv_requests_sent sv + (if room then 1 else 0) \<and>
            Layout_inv this (sw_layout w') \<and>
            (\<forall>j \<in> set queue_ids. layout_contents (sw_layout w', sw_memory w') j =
               layout_contents (sw_layout w, sw_memory w) j @ (if room \<and> j = dest then [h] else []))"
proof -
  let ?h = "\<lparr>seq_id = sv_next_seq_id sv, func_id = fid, payload_len = ucast n\<rparr>"
  obtain ok L' m' where d: "Server_DispatchMessage ?h p (sw_layout w, sw_memory w) = (ok, L', m')"
    using prod_cases3 by blast
  then show ?thesis
    using push_best_effect [OF inv, where h = ?h and p = p and m = "sw_memory w"] started
    by (auto simp: Server_SendAsync_def Server_DispatchMessage_def Server_SelectBestWorker_def Let_def)
qed

definition started_server :: IpcServer where
  "started_server = (Server_construct (Server_GetDefaultConfig
     \<lparr>cf_shm_name = [], cf_shm_size = 0, cf_worker_timeout_us = 0, cf_max_pending_requests = 0,
      cf_enable_cpu_affinity = False, cf_vip_cpu_cores = [], cf_normal_cpu_cores = []\<rparr> ''ipc''))
     \<lparr>sv_layout := Mapped 65536, sv_running := True, sv_worker_pid := 77\<rparr>"

definition fresh_server_world :: server_world where
  "fresh_server_world = \<lparr>sw_names = (\<lambda>_. False), sw_layout = fresh_layout, sw_memory = (\<lambda>_. 0)\<rparr>"

lemma started_server_simps [simp]:
  "sv_layout started_server = Mapped 65536" "sv_running started_server"
  "sv_worker_pid started_server = 77" "sv_next_seq_id started_server = 1"
  "sv_crashes_detected started_server = 0"
  "sw_layout fresh_server_world = fresh_layout" "sw_memory fresh_server_world = (\<lambda>_. 0)"
  by (simp_all add: started_server_def Server_construct_def fresh_server_world_def)

theorem Server_SendAsync_exact_witness:
  "map_option seq_id (fst (Server_SendAsync \<lparr>seq_id = 9, func_id = 9, payload_len = 9\<rparr> 5 0 kLow
     (started_server, fresh_server_world))) = Some 1"
  using Server_SendAsync_exact [of started_server 65536 fresh_server_world,
      where p = kLow and fid = 5 and n = 0 and unset = "\<lparr>seq_id = 9, func_id = 9, payload_len = 9\<rparr>"]
    fresh_layout_inv
  by (auto simp: request_ids_values fresh_layout_empty queue_ids_def layout_consts Let_def
      split: prod.splits)

text \<open>
  \<open>Start\<close> of a server that is not running, when no system call fails and the supervisor's first
  iteration comes after it: it returns true, the
  server is running and its worker is the forked process, the segment's name exists, and the
  layout in it is valid with twelve empty rings and no worker marked as crashed.
\<close>

theorem Server_Start_correct:
  assumes "\<not> sv_running sv" "se_shm_open_ok env" "se_ftruncate_ok env" "se_mmap_ok env"
    and "se_eventfd_error env = None" and "0 < sint (se_fork env)"
    and "se_before_fork env = []" and "se_after_fork env = []"
  shows "case Server_Start env (sv, w) of
      (r, sv', w') \<Rightarrow> r = Some True \<and> Server_IsRunning sv' \<and> sv_worker_pid sv' = se_fork env \<and>
        sw_names w' (sv_shm_name sv) \<and> Layout_inv (se_this env) (sw_layout w') \<and>
        (\<forall>i \<in> set queue_ids. layout_contents (sw_layout w', m) i = []) \<and>
        Layout_ScanCrashedWorkers (sw_layout w') = 0 \<and> Server_GetStats (sv', w') \<noteq> None \<and>
        (\<forall>fid callback. Server_RegisterHandler fid callback sv' \<noteq> None)"
proof -
  from Start_effect [OF assms, of w] obtain sv' where
    start: "Server_Start env (sv, w) = (Some True, sv',
      w\<lparr>sw_names := (sw_names w)(sv_shm_name sv := True),
        sw_layout := initialized_layout (se_this env) Layout_RequiredSize Layout_construct\<rparr>)"
    and sv': "sv_running sv'" "sv_state sv' = kConnected" "sv_layout sv' = Mapped (se_this env)"
      "sv_worker_pid sv' = se_fork env" "length (sv_handlers sv') = kMaxHandlers"
    by blast
  show ?thesis
    using initialized_inv [of "se_this env" Layout_RequiredSize Layout_construct]
    by (simp add: start sv' Server_IsRunning_def initialized_contents initialized_scan
        Server_GetStats_def Server_RegisterHandler_def)
qed

definition sample_server_env :: server_env where
  "sample_server_env = \<lparr>se_this = 65536, se_shm_open_ok = True, se_ftruncate_ok = True, se_mmap_ok = True,
     se_eventfd_error = None, se_fork = 77, se_before_fork = [], se_after_fork = []\<rparr>"

theorem Server_Start_correct_witness:
  "fst (Server_Start sample_server_env (started_server\<lparr>sv_running := False\<rparr>, fresh_server_world)) = Some True"
  using Server_Start_correct [where sv = "started_server\<lparr>sv_running := False\<rparr>" and env = sample_server_env
      and w = fresh_server_world and m = "\<lambda>_. 0"]
  by (auto simp: sample_server_env_def split: prod.splits)

text \<open>
  C39. A server that is still running cannot be stopped. The supervisor runs from before the fork in
  \<open>Start\<close> on, in any number of iterations, with any results of its own calls. When \<open>Start\<close> has
  returned true, \<open>Stop\<close> at any later time, however often the signal was notified, never returns
  if the server is running by then (\<open>Reset\<close> of the blocking eventfd waits for ever), and returns at once
  and does nothing if the supervisor has cleared \<open>running_\<close> after a failed restart. The same holds
  for the \<open>Stop\<close> inside \<open>Start\<close>: when the worker's process id is negative after the fork, \<open>Start\<close> does not
  return, or returns false because the supervisor's restart has failed. In no case is the segment
  unlinked or the state set to disconnected. As long as no restart fails, \<open>running_\<close> stays set.
\<close>

theorem Server_Stop_never_returns:
  assumes "\<not> sv_running sv" "se_shm_open_ok env" "se_ftruncate_ok env" "se_mmap_ok env"
    and "se_eventfd_error env = None"
  shows "case Server_Start env (sv, w) of
      (r, sv1, w1) \<Rightarrow>
        sw_names w1 (sv_shm_name sv) \<and> sv_state sv1 \<noteq> kDisconnected \<and>
        (r = Some True \<longrightarrow>
          (case Server_SupervisorMain later (sv1, w1) of
             (sv2, w2) \<Rightarrow>
               (case Server_Stop (sv2\<lparr>sv_response_signal := notify_times k (sv_response_signal sv2)\<rparr>, w2) of
                  (stopped, sv3, w3) \<Rightarrow>
                    (if sv_running sv2 then stopped = None else stopped = Some () \<and> w3 = w2) \<and>
                    sw_names w3 (sv_shm_name sv) \<and> sv_state sv3 \<noteq> kDisconnected \<and> \<not> sv_running sv3 \<and>
                    (restarts_ok (se_before_fork env @ se_after_fork env @ later) \<longrightarrow> stopped = None)))) \<and>
        (r = Some False \<longrightarrow> \<not> restarts_ok (se_before_fork env @ se_after_fork env)) \<and>
        (sint (se_fork env) < 0 \<and> se_after_fork env = [] \<and> restarts_ok (se_before_fork env) \<longrightarrow> r = None)"
proof -
  from Start_runs [OF assms, of w] obtain sv1 w1 where
    kept: "sv_shm_name sv1 = sv_shm_name sv" "sv_response_signal sv1 = notify_times 0 (created_signal (sv_response_signal sv))"
      "sw_names w1 (sv_shm_name sv)" "sv_state sv1 \<noteq> kDisconnected"
    and run: "restarts_ok (se_before_fork env @ se_after_fork env) \<longrightarrow> sv_running sv1"
    and pid: "se_after_fork env = [] \<longrightarrow> sv_worker_pid sv1 = se_fork env"
    and start: "Server_Start env (sv, w) =
      (if se_fork env = 0 then (None, sv1, w1)
       else if sint (sv_worker_pid sv1) < 0
       then (case Server_Stop (sv1, w1) of (r, sv, w) \<Rightarrow> (map_option (\<lambda>_. False) r, sv, w))
       else (Some True, sv1\<lparr>sv_state := kConnected\<rparr>, w1))" by auto
  show ?thesis
  proof (cases "se_fork env \<noteq> 0 \<and> 0 \<le> sint (sv_worker_pid sv1)")
    case True
    let ?sv1 = "sv1\<lparr>sv_state := kConnected\<rparr>"
    obtain sv2 w2 where later: "Server_SupervisorMain later (?sv1, w1) = (sv2, w2)"
      by (cases "Server_SupervisorMain later (?sv1, w1)")
    let ?sv2 = "sv2\<lparr>sv_response_signal := notify_times k (sv_response_signal sv2)\<rparr>"
    obtain stopped sv3 w3 where stop: "Server_Stop (?sv2, w2) = (stopped, sv3, w3)"
      by (cases "Server_Stop (?sv2, w2)")
    note l = supervisor_keeps [OF later]
    have "sv_response_signal ?sv2 = notify_times k (created_signal (sv_response_signal sv))"
      using l kept by simp
    from Stop_blocks [OF this stop] show ?thesis
      using True start l kept run pid later stop by (auto simp: restarts_ok_def)
  next
    case False
    obtain stopped sv3 w3 where stop: "Server_Stop (sv1, w1) = (stopped, sv3, w3)"
      by (cases "Server_Stop (sv1, w1)")
    from Stop_blocks [OF kept(2) this] show ?thesis
      using False start kept run pid stop by (auto simp: restarts_ok_def)
  qed
qed

text \<open>The fork fails before the supervisor's first iteration.\<close>

theorem Server_Stop_never_returns_witness:
  "fst (Server_Start (sample_server_env\<lparr>se_fork := - 1\<rparr>)
     (started_server\<lparr>sv_running := False\<rparr>, fresh_server_world)) = None"
  using Server_Stop_never_returns [where sv = "started_server\<lparr>sv_running := False\<rparr>"
      and env = "sample_server_env\<lparr>se_fork := - 1\<rparr>" and w = fresh_server_world and later = "[]" and k = 0]
  by (auto simp: sample_server_env_def restarts_ok_def split: prod.splits)

text \<open>
  The supervisor restarts the worker only in name. The restarted child exits at once, and
  when that is what the next \<open>waitpid\<close> reports, every iteration counts a crash and forks again,
  without end: after \<open>n\<close> iterations \<open>n\<close> crashes are counted and the server still calls itself
  connected. The poison pills are recovered in the first iteration and counted once.
\<close>

theorem Server_crash_loop:
  assumes "sv_running sv" and "wf_layout (sw_layout w)" and "\<forall>c \<in> set children. 0 < sint c" and "children \<noteq> []"
  shows "case Server_SupervisorMain (exits_at_once (sv_worker_pid sv) children) (sv, w) of
      (sv', w') \<Rightarrow>
        sv_crashes_detected sv' = sv_crashes_detected sv + of_nat (length children) \<and>
        Server_IsRunning sv' \<and> sv_worker_pid sv' = last children \<and>
        sv_poison_pills_skipped sv' =
          sv_poison_pills_skipped sv + of_nat (Layout_ScanCrashedWorkers (sw_layout w)) \<and>
        Layout_ScanCrashedWorkers (sw_layout w') = 0"
  using crash_loop [OF assms] assms(1) by (simp add: Server_IsRunning_def recovered_scan)

theorem Server_crash_loop_witness:
  "sv_crashes_detected (fst (Server_SupervisorMain (exits_at_once 77 [78, 79, 80])
     (started_server, fresh_server_world))) = 3"
  using Server_crash_loop [of started_server fresh_server_world "[78, 79, 80]"] fresh_layout_inv
  by (auto simp: Layout_inv_def split: prod.splits)

text \<open>
  The supervisor thread is started before the first fork, while the worker's process id is
  still -1. \<open>waitpid(-1)\<close> then fails with -1, which the supervisor takes for the worker's exit:
  it counts a crash that never happened and skips the request of every worker that is
  processing.
\<close>

theorem Server_supervisor_before_fork:
  assumes "sv_worker_pid sv = - 1" and "su_waitpid env = - 1" and "0 \<le> sint (su_fork env)"
    and "wf_layout (sw_layout w)"
  shows "case supervisor_iteration env (sv, w) of
      (sv', w') \<Rightarrow> sv_crashes_detected sv' = sv_crashes_detected sv + 1 \<and>
        sv_state sv' = kConnected \<and> sw_layout w' = snd (Layout_RecoverCrashedWorkers (sw_layout w))"
  using iteration_crash [of env sv w] assms by (simp add: Layout_Recover_eq)

theorem Server_supervisor_before_fork_witness:
  "sv_crashes_detected (fst (supervisor_iteration \<lparr>su_waitpid = - 1, su_fork = 80\<rparr>
     (Server_construct (sv_config started_server), fresh_server_world))) = 1"
  using Server_supervisor_before_fork [of "Server_construct (sv_config started_server)"
      "\<lparr>su_waitpid = - 1, su_fork = 80\<rparr>" fresh_server_world] fresh_layout_inv
  by (auto simp: Layout_inv_def Server_construct_def split: prod.splits)

text \<open>
  Handlers. On a server that has not been started the handler vector is empty, so registering
  any handler the limit admits writes past its end; an identifier of 256 or more is dropped
  without notice. After \<open>Start\<close> a registered handler is found at its identifier.
\<close>

theorem Server_RegisterHandler_exact:
  "Server_RegisterHandler fid callback (Server_construct config) =
     (if unat fid < 256 then None else Some (Server_construct config)) \<and>
   (case Server_RegisterHandler fid callback (sv\<lparr>sv_handlers := replicate kMaxHandlers None\<rparr>) of
      None \<Rightarrow> False
    | Some sv' \<Rightarrow> sv_handlers sv' =
        (if unat fid < 256 then (replicate 256 None)[unat fid := Some callback] else replicate 256 None))"
  by (simp add: Server_RegisterHandler_def Server_construct_def kMaxHandlers_def)

end
