(* ===== verification/Ipc_Client.thy ===== *)
theory Ipc_Client
  imports Ipc_Types Linux_Eventfd
begin

text \<open>
  The client of \<open>include/phoenix/ipc/ipc_client.hpp\<close> and \<open>src/ipc/ipc_client.cpp\<close>. The pending
  requests are objects shared by the map and the callers that wait on their promises: the map
  holds their numbers, the world the objects, next to the layout and memory of the mapped
  segment. The poller thread and the other processes act between the steps of a call; a call
  takes what they do as functions on the state.
\<close>

record PendingRequest =
  pr_response :: MsgHeader
  pr_ready :: bool
  pr_promise :: "MsgHeader option"

type_synonym pending_map = "u64 \<Rightarrow> nat option"

record IpcClient =
  cl_shm_name :: string
  cl_shm_addr :: mapping_ptr
  cl_shm_size :: u64
  cl_shm_fd :: "nat option"
  cl_layout :: mapping_ptr
  cl_response_signal :: LinuxEventFdSignal
  cl_connected :: bool
  cl_running :: bool
  cl_next_seq_id :: u64
  cl_pending :: pending_map
  cl_requests_sent :: u64
  cl_responses_received :: u64
  cl_timeouts :: u64
  cl_errors :: u64

definition Client_construct :: "string \<Rightarrow> IpcClient" where
  "Client_construct shm_name =
     \<lparr>cl_shm_name = ''/'' @ shm_name, cl_shm_addr = Null, cl_shm_size = 0, cl_shm_fd = None,
      cl_layout = Null, cl_response_signal = Signal_construct, cl_connected = False,
      cl_running = False, cl_next_seq_id = 1, cl_pending = Map.empty, cl_requests_sent = 0,
      cl_responses_received = 0, cl_timeouts = 0, cl_errors = 0\<rparr>"

definition CreateIpcClient :: "string \<Rightarrow> IpcClient" where
  "CreateIpcClient shm_name = Client_construct shm_name"

record client_world =
  cw_layout :: PhoenixShmLayout
  cw_memory :: memory
  cw_requests :: "nat \<Rightarrow> PendingRequest"
  cw_next :: nat

section \<open>Connecting\<close>

record connect_env =
  ct_this :: address
  ct_shm_open_ok :: bool
  ct_fstat_size :: "u64 option"
  ct_mmap_ok :: bool
  ct_eventfd_error :: "string option"

definition Client_Connect :: "connect_env \<Rightarrow> IpcClient \<times> client_world \<Rightarrow> bool \<times> IpcClient \<times> client_world" where
  "Client_Connect env s =
     (let (c, w) = s
      in if cl_connected c then (True, c, w)
         else if \<not> ct_shm_open_ok env then (False, c\<lparr>cl_shm_fd := None\<rparr>, w)
         else
           let c = c\<lparr>cl_shm_fd := Some 0\<rparr>
           in case ct_fstat_size env of
                None \<Rightarrow> (False, c, w)
              | Some bytes \<Rightarrow>
                  let c = c\<lparr>cl_shm_size := bytes\<rparr>
                  in if \<not> ct_mmap_ok env then (False, c\<lparr>cl_shm_addr := Map_failed\<rparr>, w)
                     else
                       let c = c\<lparr>cl_shm_addr := Mapped (ct_this env)\<rparr>
                       in case ShmLayoutFactory_Get (cw_layout w) of
                            None \<Rightarrow> (False, c\<lparr>cl_layout := Null\<rparr>, w)
                          | Some _ \<Rightarrow>
                              let c = c\<lparr>cl_layout := Mapped (ct_this env)\<rparr>;
                                  (created, signal) = Signal_Create (ct_eventfd_error env) 0 False False
                                    (cl_response_signal c);
                                  c = c\<lparr>cl_response_signal := signal\<rparr>
                              in if \<not> created then (False, c, w)
                                 else (True, c\<lparr>cl_running := True, cl_connected := True\<rparr>, w))"

text \<open>The poller thread ends when \<open>running_\<close> is false; \<open>Reset\<close> may not come back.\<close>

definition Client_Disconnect :: "IpcClient \<times> client_world \<Rightarrow> unit option \<times> IpcClient \<times> client_world" where
  "Client_Disconnect s =
     (let (c, w) = s
      in if \<not> cl_connected c then (Some (), c, w)
         else
           let c = c\<lparr>cl_running := False\<rparr>;
               (reset, signal) = Signal_Reset (cl_response_signal c);
               c = c\<lparr>cl_response_signal := signal\<rparr>
           in case reset of
                None \<Rightarrow> (None, c, w)
              | Some _ \<Rightarrow>
                  let c = (if cl_shm_addr c \<noteq> Null \<and> cl_shm_addr c \<noteq> Map_failed
                           then c\<lparr>cl_shm_addr := Null\<rparr> else c);
                      c = (if cl_shm_fd c \<noteq> None then c\<lparr>cl_shm_fd := None\<rparr> else c)
                  in (Some (), c\<lparr>cl_layout := Null, cl_connected := False, cl_pending := Map.empty\<rparr>, w))"

definition Client_destroy :: "IpcClient \<times> client_world \<Rightarrow> unit option \<times> IpcClient \<times> client_world" where
  "Client_destroy s = Client_Disconnect s"

definition Client_IsConnected :: "IpcClient \<Rightarrow> bool" where
  "Client_IsConnected c \<longleftrightarrow> cl_connected c"

section \<open>Requests\<close>

definition Client_SendRequest ::
  "MsgHeader \<Rightarrow> Priority \<Rightarrow> PhoenixShmLayout \<times> memory \<Rightarrow> bool \<times> PhoenixShmLayout \<times> memory" where
  "Client_SendRequest header priority s = push_request priority (best_worker priority (fst s)) header s"

text \<open>A new pending request: the response is uninitialised, the promise not fulfilled.\<close>

definition new_request :: "MsgHeader \<Rightarrow> PendingRequest" where
  "new_request unset = \<lparr>pr_response = unset, pr_ready = False, pr_promise = None\<rparr>"

definition register_request ::
  "MsgHeader \<Rightarrow> u64 \<Rightarrow> IpcClient \<times> client_world \<Rightarrow> IpcClient \<times> client_world" where
  "register_request unset seq s =
     (let (c, w) = s
      in (c\<lparr>cl_pending := (cl_pending c)(seq \<mapsto> cw_next w)\<rparr>,
          w\<lparr>cw_requests := (cw_requests w)(cw_next w := new_request unset), cw_next := Suc (cw_next w)\<rparr>))"

text \<open>A future is fulfilled with a value or belongs to the promise of a pending request.\<close>

datatype response_future = Fulfilled MsgHeader | Awaiting nat

definition Client_CallAsync ::
  "MsgHeader \<Rightarrow> u32 \<Rightarrow> u64 \<Rightarrow> Priority \<Rightarrow> IpcClient \<times> client_world \<Rightarrow>
   response_future \<times> IpcClient \<times> client_world" where
  "Client_CallAsync unset fid payload_size priority s =
     (let (c, w) = s
      in if \<not> cl_connected c then (Fulfilled (unset\<lparr>seq_id := 0\<rparr>), c, w)
         else
           let seq = cl_next_seq_id c;
               c = c\<lparr>cl_next_seq_id := seq + 1\<rparr>;
               header = \<lparr>seq_id = seq, func_id = fid, payload_len = ucast payload_size\<rparr>;
               pending = cw_next w;
               (c, w) = register_request unset seq (c, w);
               (ok, L, m) = Client_SendRequest header priority (cw_layout w, cw_memory w);
               w = w\<lparr>cw_layout := L, cw_memory := m\<rparr>
           in if \<not> ok then
                (Fulfilled (unset\<lparr>seq_id := 0\<rparr>),
                 c\<lparr>cl_pending := (cl_pending c)(seq := None), cl_errors := cl_errors c + 1\<rparr>, w)
              else (Awaiting pending, c\<lparr>cl_requests_sent := cl_requests_sent c + 1\<rparr>, w))"

text \<open>\<open>during\<close> is what the other threads and processes do until the wait ends. With a timeout of 0
  the first test ends it at once.\<close>

definition Client_WaitForResponse ::
  "MsgHeader \<Rightarrow> u64 \<Rightarrow> u32 \<Rightarrow> (IpcClient \<times> client_world \<Rightarrow> IpcClient \<times> client_world) \<Rightarrow>
   IpcClient \<times> client_world \<Rightarrow> MsgHeader \<times> IpcClient \<times> client_world" where
  "Client_WaitForResponse unset seq timeout_ms during s =
     (let pending = cw_next (snd s);
          (c, w) = register_request unset seq s;
          (c, w) = (if timeout_ms = 0 then (c, w) else during (c, w))
      in case (if timeout_ms = 0 then None else pr_promise (cw_requests w pending)) of
           Some response \<Rightarrow> (response, c, w)
         | None \<Rightarrow> (unset\<lparr>seq_id := 0\<rparr>, c\<lparr>cl_pending := (cl_pending c)(seq := None)\<rparr>, w))"

text \<open>\<open>before\<close> is what they do between the push of the request and its registration.\<close>

definition Client_Call ::
  "MsgHeader \<Rightarrow> u32 \<Rightarrow> u64 \<Rightarrow> Priority \<Rightarrow> u32 \<Rightarrow>
   (IpcClient \<times> client_world \<Rightarrow> IpcClient \<times> client_world) \<Rightarrow>
   (IpcClient \<times> client_world \<Rightarrow> IpcClient \<times> client_world) \<Rightarrow>
   IpcClient \<times> client_world \<Rightarrow> MsgHeader \<times> IpcClient \<times> client_world" where
  "Client_Call unset fid payload_size priority timeout_ms before during s =
     (let (c, w) = s
      in if \<not> cl_connected c then (unset\<lparr>seq_id := 0\<rparr>, c\<lparr>cl_errors := cl_errors c + 1\<rparr>, w)
         else
           let seq = cl_next_seq_id c;
               c = c\<lparr>cl_next_seq_id := seq + 1\<rparr>;
               header = \<lparr>seq_id = seq, func_id = fid, payload_len = ucast payload_size\<rparr>;
               (ok, L, m) = Client_SendRequest header priority (cw_layout w, cw_memory w);
               w = w\<lparr>cw_layout := L, cw_memory := m\<rparr>
           in if \<not> ok then (unset\<lparr>seq_id := 0\<rparr>, c\<lparr>cl_errors := cl_errors c + 1\<rparr>, w)
              else
                let c = c\<lparr>cl_requests_sent := cl_requests_sent c + 1\<rparr>;
                    (response, c, w) = Client_WaitForResponse unset seq timeout_ms during (before (c, w))
                in (response,
                    if seq_id response = 0 then c\<lparr>cl_timeouts := cl_timeouts c + 1\<rparr> else c, w))"

definition Client_CallAsync_normal ::
  "MsgHeader \<Rightarrow> u32 \<Rightarrow> u64 \<Rightarrow> IpcClient \<times> client_world \<Rightarrow> response_future \<times> IpcClient \<times> client_world" where
  "Client_CallAsync_normal unset fid payload_size s = Client_CallAsync unset fid payload_size kLow s"

definition Client_Call_normal ::
  "MsgHeader \<Rightarrow> u32 \<Rightarrow> u64 \<Rightarrow> u32 \<Rightarrow>
   (IpcClient \<times> client_world \<Rightarrow> IpcClient \<times> client_world) \<Rightarrow>
   (IpcClient \<times> client_world \<Rightarrow> IpcClient \<times> client_world) \<Rightarrow>
   IpcClient \<times> client_world \<Rightarrow> MsgHeader \<times> IpcClient \<times> client_world" where
  "Client_Call_normal unset fid payload_size timeout_ms before during s =
     Client_Call unset fid payload_size kLow timeout_ms before during s"

record ClientStats =
  cs_requests_sent :: u64
  cs_responses_received :: u64
  cs_timeouts :: u64
  cs_errors :: u64

definition Client_GetStats :: "IpcClient \<Rightarrow> ClientStats" where
  "Client_GetStats c =
     \<lparr>cs_requests_sent = cl_requests_sent c, cs_responses_received = cl_responses_received c,
      cs_timeouts = cl_timeouts c, cs_errors = cl_errors c\<rparr>"

section \<open>The poller\<close>

type_synonym request_table = "pending_map \<times> (nat \<Rightarrow> PendingRequest)"

text \<open>A response goes to the pending request with its number, which is then pending no more.\<close>

definition deliver :: "MsgHeader \<Rightarrow> request_table \<Rightarrow> request_table" where
  "deliver header t =
     (let (pending, requests) = t
      in case pending (seq_id header) of
           None \<Rightarrow> (pending, requests)
         | Some r \<Rightarrow>
             (pending(seq_id header := None),
              requests(r := \<lparr>pr_response = header, pr_ready = True, pr_promise = Some header\<rparr>)))"

lemma pop_shrinks:
  "\<not> Spsc_Empty q \<Longrightarrow> unat (Spsc_Size (fst (snd (Spsc_Pop T cap (q, m))))) < unat (Spsc_Size q)"
proof -
  assume "\<not> Spsc_Empty q"
  then have "1 \<le> unat (Spsc_Size q)" by (simp add: Spsc_Empty_iff Suc_le_eq)
  moreover have "fst (snd (Spsc_Pop T cap (q, m))) = q\<lparr>rb_read_idx := rb_read_idx q + 1\<rparr>"
    using \<open>\<not> Spsc_Empty q\<close> by (simp add: Spsc_Pop_def Spsc_Empty_def Let_def)
  ultimately show ?thesis
    using unat_diff_advance_u64 [of 1 "rb_write_idx q" "rb_read_idx q"] by (simp add: Spsc_Size_def)
qed

text \<open>The loop over one response ring.\<close>

function poll_ring ::
  "u64 \<Rightarrow> SpscRingBuffer \<times> memory \<Rightarrow> request_table \<Rightarrow> (SpscRingBuffer \<times> memory) \<times> request_table" where
  "poll_ring cap (q, m) t =
     (if Spsc_Empty q then ((q, m), t)
      else
        let t = (case Spsc_Peek MsgHeader_type cap q of
                   None \<Rightarrow> t
                 | Some header \<Rightarrow> deliver (object_at MsgHeader_type m header) t);
            (ok, q', m') = Spsc_Pop MsgHeader_type cap (q, m)
        in poll_ring cap (q', m') t)"
  by pat_completeness auto
termination
proof (relation "measure (\<lambda>(cap, (q, m), t). unat (Spsc_Size q))", goal_cases)
  case 1
  then show ?case by simp
next
  case (2 cap q m t t' pop ok r q' m')
  from 2(3-5) have "fst (snd (Spsc_Pop MsgHeader_type cap (q, m))) = q'"
    by (metis fst_conv snd_conv)
  then show ?case using pop_shrinks [of q MsgHeader_type cap m] 2(1) by simp
qed

declare poll_ring.simps [simp del]

text \<open>The response rings of the normal workers, then those of the VIP workers.\<close>

definition response_ids :: "queue_id list" where
  "response_ids = map NormalResponse [0..<kNormalWorkerCount] @ map VipResponse [0..<kVipWorkerCount]"

definition poll_worker ::
  "queue_id \<Rightarrow> (PhoenixShmLayout \<times> memory) \<times> request_table \<Rightarrow> (PhoenixShmLayout \<times> memory) \<times> request_table" where
  "poll_worker i s =
     (let ((L, m), t) = s;
          ((q, m), t) = poll_ring (cap_of i) (queue_of L i, m) t
      in ((set_queue i q L, m), t))"

text \<open>One iteration of the poller; \<open>arrivals\<close> notifications reach its signal during the wait.\<close>

definition poller_iteration :: "nat \<Rightarrow> IpcClient \<times> client_world \<Rightarrow> IpcClient \<times> client_world" where
  "poller_iteration arrivals s =
     (let (c, w) = s;
          (signalled, signal) = Signal_Wait 100 arrivals (cl_response_signal c);
          c = c\<lparr>cl_response_signal := signal\<rparr>
      in if signalled = Some True \<and> cl_connected c then
           let c = c\<lparr>cl_responses_received := cl_responses_received c + 1\<rparr>;
               ((L, m), pending, requests) =
                 fold poll_worker response_ids ((cw_layout w, cw_memory w), cl_pending c, cw_requests w)
           in (c\<lparr>cl_pending := pending\<rparr>, w\<lparr>cw_layout := L, cw_memory := m, cw_requests := requests\<rparr>)
         else (c, w))"

fun Client_ResponsePollerMain :: "nat list \<Rightarrow> IpcClient \<times> client_world \<Rightarrow> IpcClient \<times> client_world" where
  "Client_ResponsePollerMain [] s = s"
| "Client_ResponsePollerMain (arrivals # rest) s =
     (if cl_running (fst s) then Client_ResponsePollerMain rest (poller_iteration arrivals s) else s)"

section \<open>What the poller does to the rings\<close>

lemma poll_ring_empty: "Spsc_Empty q \<Longrightarrow> poll_ring cap (q, m) t = ((q, m), t)"
  by (simp add: poll_ring.simps)

lemma poll_ring_step:
  assumes "\<not> Spsc_Empty q"
  shows "poll_ring cap (q, m) t =
    poll_ring cap
      (Spsc_ForceAdvanceReadIndex 1 q,
       destroy_at MsgHeader_type m (Spsc_GetElementPtr MsgHeader_type cap q (rb_read_idx q)))
      (deliver (hd (Spsc_contents MsgHeader_type cap (q, m))) t)"
proof -
  have ne: "0 < unat (Spsc_Size q)" using assms by (simp add: Spsc_Empty_iff)
  then show ?thesis
    using assms
    by (subst poll_ring.simps) (simp add: msg.Pop_nonempty [OF ne] msg.Peek_nonempty [OF ne] Let_def)
qed

lemma poll_ring_result:
  assumes "Spsc_inv MsgHeader_type cap q"
  shows "\<exists>q' m'. poll_ring cap (q, m) t =
      ((q', m'), fold deliver (Spsc_contents MsgHeader_type cap (q, m)) t) \<and>
    Spsc_inv MsgHeader_type cap q' \<and> Spsc_Empty q' \<and> rb_buffer_start q' = rb_buffer_start q \<and>
    rb_buffer_size q' = rb_buffer_size q \<and>
    (\<forall>a. a < rb_buffer_start q \<or> rb_buffer_start q + unat (rb_buffer_size q) \<le> a \<longrightarrow> m' a = m a)"
  using assms
proof (induction "unat (Spsc_Size q)" arbitrary: q m t)
  case 0
  then have "Spsc_Empty q" by (simp add: Spsc_Empty_iff)
  then show ?case using 0 by (simp add: poll_ring_empty Spsc_Empty_contents)
next
  case (Suc n)
  then have ne: "0 < unat (Spsc_Size q)" by simp
  then have nonempty: "\<not> Spsc_Empty q" by (simp add: Spsc_Empty_iff)
  let ?q = "Spsc_ForceAdvanceReadIndex 1 q"
  let ?m = "destroy_at MsgHeader_type m (Spsc_GetElementPtr MsgHeader_type cap q (rb_read_idx q))"
  let ?xs = "Spsc_contents MsgHeader_type cap (q, m)"
  have le: "unat (1 :: u64) \<le> unat (Spsc_Size q)" using ne by simp
  have same: "rb_buffer_start ?q = rb_buffer_start q" "rb_buffer_size ?q = rb_buffer_size q"
    by (simp_all add: Spsc_ForceAdvanceReadIndex_def)
  have frame: "?m a = m a" if "a < rb_buffer_start q \<or> rb_buffer_start q + unat (rb_buffer_size q) \<le> a" for a
    using msg.Pop_outside [OF Suc.prems msg.Pop_nonempty [OF ne] that] .
  have "n = unat (Spsc_Size ?q)" using msg.Size_after_advance [OF le] Suc(2) by simp
  from Suc.hyps(1) [OF this msg.Advance_inv [OF Suc.prems le], of ?m "deliver (hd ?xs) t"]
  obtain q' m' where *: "poll_ring cap (?q, ?m) (deliver (hd ?xs) t) =
      ((q', m'), fold deliver (Spsc_contents MsgHeader_type cap (?q, ?m)) (deliver (hd ?xs) t))"
    "Spsc_inv MsgHeader_type cap q'" "Spsc_Empty q'" "rb_buffer_start q' = rb_buffer_start q"
    "rb_buffer_size q' = rb_buffer_size q"
    "\<forall>a. a < rb_buffer_start q \<or> rb_buffer_start q + unat (rb_buffer_size q) \<le> a \<longrightarrow> m' a = ?m a"
    unfolding same by blast
  have "?xs \<noteq> []" using ne by (simp flip: length_greater_0_conv)
  then have "fold deliver (tl ?xs) (deliver (hd ?xs) t) = fold deliver ?xs t" by (cases ?xs) simp_all
  then have "poll_ring cap (q, m) t = ((q', m'), fold deliver ?xs t)"
    using * msg.Pop_contents [OF Suc.prems ne, of m] by (simp add: poll_ring_step [OF nonempty])
  then show ?case using * frame by (intro exI [of _ q'] exI [of _ m']) auto
qed

lemma poll_worker_effect:
  assumes inv: "Layout_inv this L" and i: "i \<in> set queue_ids"
  shows "case poll_worker i ((L, m), t) of ((L', m'), t') \<Rightarrow>
    t' = fold deliver (layout_contents (L, m) i) t \<and> Layout_inv this L' \<and>
    (\<forall>j \<in> set queue_ids. layout_contents (L', m') j = (if j = i then [] else layout_contents (L, m) j)) \<and>
    normal_monitors L' = normal_monitors L \<and> vip_monitors L' = vip_monitors L"
proof -
  let ?q = "queue_of L i"
  have q: "Spsc_inv MsgHeader_type (cap_of i) ?q" "rb_buffer_start ?q = buffer_of this i" "rb_buffer_size ?q = 16384"
    using inv i by (simp_all add: Layout_inv_def)
  from poll_ring_result [OF q(1), of m t] obtain q' m' where
    poll: "poll_ring (cap_of i) (?q, m) t = ((q', m'), fold deliver (layout_contents (L, m) i) t)"
    and q': "Spsc_inv MsgHeader_type (cap_of i) q'" "Spsc_Empty q'"
      "rb_buffer_start q' = rb_buffer_start ?q" "rb_buffer_size q' = rb_buffer_size ?q"
    and frame: "\<And>a. a < buffer_of this i \<or> buffer_of this i + 16384 \<le> a \<Longrightarrow> m' a = m a"
    unfolding q(2,3) by (auto simp: layout_contents_def)
  have "Layout_inv this (set_queue i q' L)" using set_queue_inv [OF inv i q'(1,3,4)] .
  moreover have "layout_contents (set_queue i q' L, m') j = (if j = i then [] else layout_contents (L, m) j)"
    if j: "j \<in> set queue_ids" for j
    using set_queue_contents [OF inv i j, of m' m q'] frame
      Spsc_Empty_contents [OF q'(2), of MsgHeader_type "cap_of i" m'] by simp
  ultimately show ?thesis by (simp add: poll_worker_def poll)
qed

lemma poll_workers_effect:
  assumes "Layout_inv this L" and "set is \<subseteq> set queue_ids" and "distinct is"
  shows "case fold poll_worker is ((L, m), t) of ((L', m'), t') \<Rightarrow>
    t' = fold deliver (concat (map (layout_contents (L, m)) is)) t \<and> Layout_inv this L' \<and>
    (\<forall>j \<in> set queue_ids. layout_contents (L', m') j = (if j \<in> set is then [] else layout_contents (L, m) j)) \<and>
    normal_monitors L' = normal_monitors L \<and> vip_monitors L' = vip_monitors L"
  using assms
proof (induction "is" arbitrary: L m t)
  case Nil
  then show ?case by simp
next
  case (Cons i "is")
  obtain L1 m1 t1 where p: "poll_worker i ((L, m), t) = ((L1, m1), t1)" by (metis prod.collapse)
  have e: "t1 = fold deliver (layout_contents (L, m) i) t" "Layout_inv this L1"
    "\<forall>j \<in> set queue_ids. layout_contents (L1, m1) j = (if j = i then [] else layout_contents (L, m) j)"
    "normal_monitors L1 = normal_monitors L" "vip_monitors L1 = vip_monitors L"
    using poll_worker_effect [OF Cons.prems(1), of i m t] Cons.prems(2) p by simp_all
  have same: "map (layout_contents (L1, m1)) is = map (layout_contents (L, m)) is"
    using e(3) Cons.prems(2,3) by auto
  obtain L2 m2 t2 where f: "fold poll_worker is ((L1, m1), t1) = ((L2, m2), t2)" by (metis prod.collapse)
  have "t2 = fold deliver (concat (map (layout_contents (L, m)) is)) t1" "Layout_inv this L2"
    "\<forall>j \<in> set queue_ids. layout_contents (L2, m2) j = (if j \<in> set is then [] else layout_contents (L1, m1) j)"
    "normal_monitors L2 = normal_monitors L1" "vip_monitors L2 = vip_monitors L1"
    using Cons.IH [OF e(2), of m1 t1] Cons.prems(2,3) f same by simp_all
  then show ?case using e p f by simp
qed

section \<open>What the poller does to the pending requests\<close>

text \<open>Two numbers never lead to the same pending request, every one was created, and none has its
  promise fulfilled: fulfilling a promise twice throws.\<close>

definition Client_inv :: "IpcClient \<times> client_world \<Rightarrow> bool" where
  "Client_inv s =
     (let (c, w) = s
      in inj_on (cl_pending c) (dom (cl_pending c)) \<and>
         (\<forall>r \<in> ran (cl_pending c). r < cw_next w \<and> pr_promise (cw_requests w r) = None))"

text \<open>The response a request with number \<open>seq\<close> is answered with: the first in polling order.\<close>

definition answer_to :: "u64 \<Rightarrow> MsgHeader list \<Rightarrow> MsgHeader option" where
  "answer_to seq responses = find (\<lambda>h. seq_id h = seq) responses"

lemma answer_to_simps [simp]:
  "answer_to seq [] = None"
  "answer_to seq (h # hs) = (if seq_id h = seq then Some h else answer_to seq hs)"
  by (simp_all add: answer_to_def)

lemma answer_to_seq: "answer_to seq hs = Some h \<Longrightarrow> seq_id h = seq"
  by (auto simp: answer_to_def find_Some_iff)

definition answered :: "MsgHeader \<Rightarrow> PendingRequest" where
  "answered h = \<lparr>pr_response = h, pr_ready = True, pr_promise = Some h\<rparr>"

lemma inj_on_remove:
  assumes "inj_on p (dom p)"
  shows "inj_on (p(k := None)) (dom (p(k := None)))"
  using assms by (auto simp: inj_on_def)

lemma deliver_all:
  assumes "inj_on pending (dom pending)"
  shows "case fold deliver hs (pending, requests) of (pending', requests') \<Rightarrow>
    pending' = (\<lambda>seq. if answer_to seq hs = None then pending seq else None) \<and>
    (\<forall>seq r. pending seq = Some r \<longrightarrow>
      requests' r = (case answer_to seq hs of None \<Rightarrow> requests r | Some h \<Rightarrow> answered h)) \<and>
    (\<forall>r. r \<notin> ran pending \<longrightarrow> requests' r = requests r)"
  using assms
proof (induction hs arbitrary: pending requests)
  case Nil
  then show ?case by simp
next
  case (Cons h hs)
  show ?case
  proof (cases "pending (seq_id h)")
    case None
    then have d: "deliver h (pending, requests) = (pending, requests)" by (simp add: deliver_def)
    obtain p' q' where f: "fold deliver hs (pending, requests) = (p', q')" by (cases "fold deliver hs (pending, requests)")
    show ?thesis using Cons.IH [OF Cons.prems, of requests] None by (auto simp: d f fun_eq_iff)
  next
    case (Some r0)
    let ?p = "pending(seq_id h := None)" and ?q = "requests(r0 := answered h)"
    have d: "deliver h (pending, requests) = (?p, ?q)" using Some by (simp add: deliver_def answered_def)
    obtain p' q' where f: "fold deliver hs (?p, ?q) = (p', q')" by (cases "fold deliver hs (?p, ?q)")
    have IH: "p' = (\<lambda>seq. if answer_to seq hs = None then ?p seq else None)"
      "\<And>seq r. ?p seq = Some r \<Longrightarrow> q' r = (case answer_to seq hs of None \<Rightarrow> ?q r | Some h \<Rightarrow> answered h)"
      "\<And>r. r \<notin> ran ?p \<Longrightarrow> q' r = ?q r"
      using Cons.IH [OF inj_on_remove [OF Cons.prems], of "seq_id h" ?q] unfolding f by blast+
    have other: "r \<noteq> r0" if "pending seq = Some r" "seq \<noteq> seq_id h" for seq r
      using that Some Cons.prems by (auto simp: inj_on_def dom_def)
    have "r0 \<notin> ran ?p" using other by (auto simp: ran_def)
    then have r0: "q' r0 = answered h" using IH(3) by simp
    have "q' r = (case answer_to seq (h # hs) of None \<Rightarrow> requests r | Some h \<Rightarrow> answered h)"
      if "pending seq = Some r" for seq r
      using that r0 Some IH(2) [of seq r] other [of seq r] by (cases "seq = seq_id h") (auto split: option.splits)
    moreover have "q' r = requests r" if "r \<notin> ran pending" for r
    proof -
      have "r \<notin> ran ?p" "r \<noteq> r0" using that Some by (auto simp: ran_def split: if_splits)
      then show ?thesis using IH(3) by simp
    qed
    ultimately show ?thesis using IH(1) by (auto simp: d f fun_eq_iff)
  qed
qed

lemma response_ids_in: "set response_ids \<subseteq> set queue_ids" "distinct response_ids"
  by (auto simp: response_ids_def queue_ids_def layout_consts upt_conv_Cons)

text \<open>The responses waiting in the rings, in the order the poller takes them.\<close>

definition waiting_responses :: "PhoenixShmLayout \<times> memory \<Rightarrow> MsgHeader list" where
  "waiting_responses s = concat (map (layout_contents s) response_ids)"

lemma Signal_Wait_notified:
  assumes "Signal_IsValid s" and "0 < arrivals"
  shows "fst (Signal_Wait t arrivals s) = Some True" and "Signal_IsValid (snd (Signal_Wait t arrivals s))"
  using assms by (auto simp: Signal_IsValid_def Signal_Wait_def Let_def)

lemma iteration_effect:
  assumes "Layout_inv this (cw_layout w)" and "inj_on (cl_pending c) (dom (cl_pending c))"
    and "Signal_IsValid (cl_response_signal c)" and "0 < arrivals" and "cl_connected c"
  shows "case poller_iteration arrivals (c, w) of (c', w') \<Rightarrow>
    Layout_inv this (cw_layout w') \<and>
    (\<forall>j \<in> set queue_ids. layout_contents (cw_layout w', cw_memory w') j =
       (if j \<in> set response_ids then [] else layout_contents (cw_layout w, cw_memory w) j)) \<and>
    normal_monitors (cw_layout w') = normal_monitors (cw_layout w) \<and>
    vip_monitors (cw_layout w') = vip_monitors (cw_layout w) \<and>
    cl_pending c' = (\<lambda>seq. if answer_to seq (waiting_responses (cw_layout w, cw_memory w)) = None then cl_pending c seq else None) \<and>
    (\<forall>seq r. cl_pending c seq = Some r \<longrightarrow> cw_requests w' r =
       (case answer_to seq (waiting_responses (cw_layout w, cw_memory w)) of None \<Rightarrow> cw_requests w r | Some h \<Rightarrow> answered h)) \<and>
    (\<forall>r. r \<notin> ran (cl_pending c) \<longrightarrow> cw_requests w' r = cw_requests w r) \<and>
    Signal_IsValid (cl_response_signal c') \<and>
    cw_next w' = cw_next w \<and> cl_responses_received c' = cl_responses_received c + 1 \<and> cl_connected c'"
proof -
  obtain L m t where f: "fold poll_worker response_ids ((cw_layout w, cw_memory w), cl_pending c, cw_requests w) =
      ((L, m), t)" by (metis prod.collapse)
  obtain p q where t: "t = (p, q)" by (cases t)
  have "Signal_Wait 100 arrivals (cl_response_signal c) =
      (Some True, snd (Signal_Wait 100 arrivals (cl_response_signal c)))"
    using Signal_Wait_notified(1) [OF assms(3,4)] by (metis prod.collapse)
  then have it: "poller_iteration arrivals (c, w) =
      (c\<lparr>cl_response_signal := snd (Signal_Wait 100 arrivals (cl_response_signal c)),
         cl_responses_received := cl_responses_received c + 1, cl_pending := p\<rparr>,
       w\<lparr>cw_layout := L, cw_memory := m, cw_requests := q\<rparr>)"
    using Signal_Wait_notified(1) [OF assms(3,4)] assms(5) f t by (simp add: poller_iteration_def Let_def split_beta)
  have e: "(p, q) = fold deliver (waiting_responses (cw_layout w, cw_memory w)) (cl_pending c, cw_requests w)" "Layout_inv this L"
    "\<forall>j \<in> set queue_ids. layout_contents (L, m) j =
       (if j \<in> set response_ids then [] else layout_contents (cw_layout w, cw_memory w) j)"
    "normal_monitors L = normal_monitors (cw_layout w)" "vip_monitors L = vip_monitors (cw_layout w)"
    using poll_workers_effect [OF assms(1) response_ids_in, of "cw_memory w" "(cl_pending c, cw_requests w)"] f t
    by (simp_all add: waiting_responses_def)
  show ?thesis
    using deliver_all [OF assms(2), of "waiting_responses (cw_layout w, cw_memory w)" "cw_requests w", folded e(1)] e(2-) assms(5)
      Signal_Wait_notified(2) [OF assms(3,4)]
    by (simp add: it)
qed

lemma iteration_answers:
  assumes "poller_iteration arrivals (c, w) = (c', w')" and "cl_pending c seq = Some r"
    and "Layout_inv this (cw_layout w)" and "inj_on (cl_pending c) (dom (cl_pending c))"
    and "Signal_IsValid (cl_response_signal c)" and "0 < arrivals" and "cl_connected c"
  shows "cw_requests w' r =
      (case answer_to seq (waiting_responses (cw_layout w, cw_memory w)) of None \<Rightarrow> cw_requests w r | Some h \<Rightarrow> answered h)"
    and "cl_pending c' seq = (if answer_to seq (waiting_responses (cw_layout w, cw_memory w)) = None then Some r else None)"
  using iteration_effect [OF assms(3-7), unfolded assms(1) prod.case] assms(2) by simp_all

lemma iteration_keeps:
  assumes "poller_iteration arrivals (c, w) = (c', w')" and "Client_inv (c, w)"
    and "Layout_inv this (cw_layout w)"
    and "Signal_IsValid (cl_response_signal c)" and "0 < arrivals" and "cl_connected c"
  shows "Client_inv (c', w')" and "Layout_inv this (cw_layout w')"
    and "Signal_IsValid (cl_response_signal c')" and "cl_connected c'"
    and "cl_timeouts c' = cl_timeouts c" and "cl_next_seq_id c' = cl_next_seq_id c"
proof -
  have inj: "inj_on (cl_pending c) (dom (cl_pending c))" using assms(2) by (simp add: Client_inv_def)
  note e = iteration_effect [OF assms(3) inj assms(4-6), unfolded assms(1) prod.case]
  show "Layout_inv this (cw_layout w')" "Signal_IsValid (cl_response_signal c')" "cl_connected c'"
    using e by simp_all
  show "Client_inv (c', w')"
    using e assms(2) by (auto simp: Client_inv_def inj_on_def ran_def dom_def split: if_splits)
  show "cl_timeouts c' = cl_timeouts c" "cl_next_seq_id c' = cl_next_seq_id c"
    using assms(1) by (auto simp: poller_iteration_def Let_def split: prod.splits if_splits)
qed

section \<open>Calls\<close>

text \<open>The rings of the group with the least load take the request, or none has room.\<close>

definition has_room :: "Priority \<Rightarrow> client_world \<Rightarrow> bool" where
  "has_room p w \<longleftrightarrow>
     list_ex (\<lambda>i. length (layout_contents (cw_layout w, cw_memory w) i) < unat (cap_of i)) (request_ids p)"

lemma SendRequest_cases:
  assumes "Layout_inv this (cw_layout w)"
  obtains L m where "Client_SendRequest h p (cw_layout w, cw_memory w) = (has_room p w, L, m)"
    and "Layout_inv this L" and "\<not> has_room p w \<Longrightarrow> L = cw_layout w \<and> m = cw_memory w"
    and "\<And>j. j \<in> set queue_ids \<Longrightarrow> layout_contents (L, m) j =
      layout_contents (cw_layout w, cw_memory w) j @
        (if has_room p w \<and> j = request_id p (best_worker p (cw_layout w)) then [h] else [])"
proof -
  obtain ok L m where s: "Client_SendRequest h p (cw_layout w, cw_memory w) = (ok, L, m)"
    using prod_cases3 by blast
  note e = push_best_effect [OF assms, where p = p and h = h and m = "cw_memory w"]
  have ok: "ok = has_room p w" using e s by (simp add: Client_SendRequest_def has_room_def)
  show thesis
    by (rule that [of L m]) (use e s ok in \<open>simp_all add: Client_SendRequest_def has_room_def\<close>)
qed

lemma Client_inv_register:
  assumes "Client_inv (c, w)"
  shows "Client_inv (register_request unset seq (c, w))"
    and "cl_pending (fst (register_request unset seq (c, w))) = (cl_pending c)(seq \<mapsto> cw_next w)"
    and "inj_on ((cl_pending c)(seq \<mapsto> cw_next w)) (dom ((cl_pending c)(seq \<mapsto> cw_next w)))"
proof -
  have inj: "inj_on (cl_pending c) (dom (cl_pending c))" and old: "\<And>s r. cl_pending c s = Some r \<Longrightarrow> r < cw_next w"
    using assms by (auto simp: Client_inv_def ran_def)
  show i: "inj_on ((cl_pending c)(seq \<mapsto> cw_next w)) (dom ((cl_pending c)(seq \<mapsto> cw_next w)))"
    using inj old by (auto simp: inj_on_def dom_def split: if_splits dest: old)
  show "Client_inv (register_request unset seq (c, w))"
    using i assms
    by (auto simp: Client_inv_def register_request_def new_request_def ran_def less_Suc_eq split: if_splits)
  show "cl_pending (fst (register_request unset seq (c, w))) = (cl_pending c)(seq \<mapsto> cw_next w)"
    by (simp add: register_request_def)
qed

text \<open>What the server and its workers do to the segment.\<close>

definition workers_act :: "PhoenixShmLayout \<Rightarrow> memory \<Rightarrow> IpcClient \<times> client_world \<Rightarrow> IpcClient \<times> client_world" where
  "workers_act L m s = (fst s, (snd s)\<lparr>cw_layout := L, cw_memory := m\<rparr>)"

text \<open>Without notifications the poller sleeps.\<close>

lemma poller_sleeps:
  assumes "map_option ev_counter (es_fd (cl_response_signal c)) = Some 0 \<or> es_fd (cl_response_signal c) = None"
  shows "Client_ResponsePollerMain (replicate n 0) (c, w) = (c, w)"
proof (induction n)
  case 0
  then show ?case by simp
next
  case (Suc n)
  have "fst (Signal_Wait 100 0 (cl_response_signal c)) \<noteq> Some True"
      "snd (Signal_Wait 100 0 (cl_response_signal c)) = cl_response_signal c"
    using assms by (auto simp: Signal_Wait_def poll_ends_without_input_def Let_def split: option.splits)
  then have "poller_iteration 0 (c, w) = (c, w)"
    by (simp add: poller_iteration_def split_beta)
  then show ?case using Suc by simp
qed

lemma Connect_success:
  assumes "Client_Connect env (c, w) = (True, c', w')" and "\<not> cl_connected c"
  shows "w' = w \<and> c' = c\<lparr>cl_shm_fd := Some 0, cl_shm_size := the (ct_fstat_size env),
    cl_shm_addr := Mapped (ct_this env), cl_layout := Mapped (ct_this env),
    cl_response_signal := snd (Signal_Create None 0 False False (cl_response_signal c)),
    cl_running := True, cl_connected := True\<rparr>"
  using assms by (auto simp: Client_Connect_def Let_def Signal_Create_def split: if_splits option.splits)

lemma Client_inv_ran: "Client_inv (c, w) \<Longrightarrow> cl_pending c seq = Some r \<Longrightarrow> r < cw_next w"
  by (auto simp: Client_inv_def ran_def)

lemma Client_inv_inj: "Client_inv (c, w) \<Longrightarrow> inj_on (cl_pending c) (dom (cl_pending c))"
  by (simp add: Client_inv_def)

lemma CallAsync_effect:
  assumes "cl_connected c" and "Layout_inv this (cw_layout w)" and "Client_inv (c, w)" and "has_room p w"
  obtains L m where "Client_CallAsync unset fid n p (c, w) =
      (Awaiting (cw_next w),
       c\<lparr>cl_next_seq_id := cl_next_seq_id c + 1,
         cl_pending := (cl_pending c)(cl_next_seq_id c \<mapsto> cw_next w),
         cl_requests_sent := cl_requests_sent c + 1\<rparr>,
       w\<lparr>cw_requests := (cw_requests w)(cw_next w := new_request unset), cw_next := Suc (cw_next w),
         cw_layout := L, cw_memory := m\<rparr>)"
    and "Layout_inv this L"
    and "\<And>j. j \<in> set queue_ids \<Longrightarrow> layout_contents (L, m) j =
      layout_contents (cw_layout w, cw_memory w) j @
        (if j = request_id p (best_worker p (cw_layout w))
         then [\<lparr>seq_id = cl_next_seq_id c, func_id = fid, payload_len = ucast n\<rparr>] else [])"
proof -
  obtain L m where s: "Client_SendRequest \<lparr>seq_id = cl_next_seq_id c, func_id = fid, payload_len = ucast n\<rparr> p
      (cw_layout w, cw_memory w) = (has_room p w, L, m)"
    and L: "Layout_inv this L" "\<And>j. j \<in> set queue_ids \<Longrightarrow> layout_contents (L, m) j =
      layout_contents (cw_layout w, cw_memory w) j @
        (if has_room p w \<and> j = request_id p (best_worker p (cw_layout w))
         then [\<lparr>seq_id = cl_next_seq_id c, func_id = fid, payload_len = ucast n\<rparr>] else [])"
    using SendRequest_cases [OF assms(2)] by blast
  show thesis
    by (rule that [of m L])
      (use s L assms(1,4) in \<open>simp_all add: Client_CallAsync_def register_request_def Let_def\<close>)
qed

lemma register_inv:
  assumes "Client_inv (c, w)"
  shows "Client_inv (c\<lparr>cl_next_seq_id := x, cl_pending := (cl_pending c)(seq \<mapsto> cw_next w), cl_requests_sent := y\<rparr>,
    w\<lparr>cw_requests := (cw_requests w)(cw_next w := new_request unset), cw_next := Suc (cw_next w),
      cw_layout := L, cw_memory := m\<rparr>)"
  using Client_inv_register(1) [OF assms, of unset seq]
  by (simp add: Client_inv_def register_request_def)

text \<open>A call once its request is in the ring.\<close>

lemma Call_after_push:
  assumes "cl_connected c" and "Layout_inv this (cw_layout w)" and "has_room p w"
  obtains L m where "Client_Call unset fid n p t before during (c, w) =
      (let (response, c', w') = Client_WaitForResponse unset (cl_next_seq_id c) t during
             (before (c\<lparr>cl_next_seq_id := cl_next_seq_id c + 1, cl_requests_sent := cl_requests_sent c + 1\<rparr>,
                      w\<lparr>cw_layout := L, cw_memory := m\<rparr>))
       in (response, if seq_id response = 0 then c'\<lparr>cl_timeouts := cl_timeouts c' + 1\<rparr> else c', w'))"
    and "Layout_inv this L"
proof -
  obtain L m where s: "Client_SendRequest \<lparr>seq_id = cl_next_seq_id c, func_id = fid, payload_len = ucast n\<rparr> p
      (cw_layout w, cw_memory w) = (has_room p w, L, m)" and L: "Layout_inv this L"
    using SendRequest_cases [OF assms(2)] by blast
  show thesis by (rule that [of m L]) (use s L assms(1,3) in \<open>simp_all add: Client_Call_def Let_def\<close>)
qed

text \<open>A wait during which the poller wakes up once.\<close>

lemma Wait_polled:
  assumes "Client_inv (c, w)" and "cl_connected c" and "Signal_IsValid (cl_response_signal c)"
    and "0 < arrivals" and "Layout_inv this L" and "t \<noteq> 0"
  obtains c' w' where "Client_WaitForResponse unset seq t
      (\<lambda>s. poller_iteration arrivals (workers_act L m s)) (c, w) =
      (case answer_to seq (waiting_responses (L, m)) of None \<Rightarrow> unset\<lparr>seq_id := 0\<rparr> | Some h \<Rightarrow> h, c', w')"
    and "cl_pending c' seq = None" and "cl_timeouts c' = cl_timeouts c"
proof -
  let ?c = "c\<lparr>cl_pending := (cl_pending c)(seq \<mapsto> cw_next w)\<rparr>"
  let ?w = "w\<lparr>cw_requests := (cw_requests w)(cw_next w := new_request unset), cw_next := Suc (cw_next w),
      cw_layout := L, cw_memory := m\<rparr>"
  obtain c1 w1 where it: "poller_iteration arrivals (?c, ?w) = (c1, w1)" by (cases "poller_iteration arrivals (?c, ?w)")
  have inj: "inj_on (cl_pending ?c) (dom (cl_pending ?c))"
    using Client_inv_register(3) [OF assms(1), of seq] by simp
  have now: "cl_pending ?c seq = Some (cw_next w)" "Layout_inv this (cw_layout ?w)"
    "Signal_IsValid (cl_response_signal ?c)" "cl_connected ?c"
    using assms by simp_all
  note answers = iteration_answers [OF it now(1,2) inj now(3) assms(4) now(4)]
  have "Client_inv (?c, ?w)"
    using Client_inv_register(1) [OF assms(1), of unset seq] by (simp add: Client_inv_def register_request_def)
  then have timeouts: "cl_timeouts c1 = cl_timeouts c"
    using iteration_keeps(5) [OF it _ now(2,3) assms(4) now(4)] by simp
  show thesis
    by (rule that [of "if answer_to seq (waiting_responses (L, m)) = None
          then c1\<lparr>cl_pending := (cl_pending c1)(seq := None)\<rparr> else c1" w1])
      (use assms(6) it answers timeouts in
        \<open>auto simp: Client_WaitForResponse_def register_request_def workers_act_def Let_def new_request_def
           answered_def split: option.splits\<close>)
qed

section \<open>Properties\<close>

text \<open>
  C19. One wake-up of the poller. It empties every response ring, in polling order, and touches no
  request ring and no monitor. Every pending request for which a response with its sequence
  number was waiting is answered with the first such response and is pending no more; the
  others, and their promises, stay as they are.
\<close>

theorem Client_poll_exact:
  assumes "Layout_inv this (cw_layout w)" and "Client_inv (c, w)"
    and "Signal_IsValid (cl_response_signal c)" and "0 < arrivals" and "cl_connected c"
  shows "case poller_iteration arrivals (c, w) of (c', w') \<Rightarrow>
    (\<forall>j \<in> set queue_ids. layout_contents (cw_layout w', cw_memory w') j =
       (if j \<in> set response_ids then [] else layout_contents (cw_layout w, cw_memory w) j)) \<and>
    normal_monitors (cw_layout w') = normal_monitors (cw_layout w) \<and>
    vip_monitors (cw_layout w') = vip_monitors (cw_layout w) \<and>
    (\<forall>seq r. cl_pending c seq = Some r \<longrightarrow>
       (case answer_to seq (waiting_responses (cw_layout w, cw_memory w)) of
          None \<Rightarrow> cl_pending c' seq = Some r \<and> cw_requests w' r = cw_requests w r
        | Some h \<Rightarrow> seq_id h = seq \<and> cl_pending c' seq = None \<and> pr_promise (cw_requests w' r) = Some h)) \<and>
    (\<forall>seq. cl_pending c seq = None \<longrightarrow> cl_pending c' seq = None) \<and>
    Layout_inv this (cw_layout w') \<and> Client_inv (c', w')"
proof -
  obtain c' w' where it: "poller_iteration arrivals (c, w) = (c', w')" by (cases "poller_iteration arrivals (c, w)")
  note e = iteration_effect [OF assms(1) Client_inv_inj [OF assms(2)] assms(3-5), unfolded it prod.case]
  have "Client_inv (c', w')" by (rule iteration_keeps(1) [OF it assms(2,1,3-5)])
  moreover have "case answer_to seq (waiting_responses (cw_layout w, cw_memory w)) of
        None \<Rightarrow> cl_pending c' seq = Some r \<and> cw_requests w' r = cw_requests w r
      | Some h \<Rightarrow> seq_id h = seq \<and> cl_pending c' seq = None \<and> pr_promise (cw_requests w' r) = Some h"
    if "cl_pending c seq = Some r" for seq r
    using e that answer_to_seq [of seq "waiting_responses (cw_layout w, cw_memory w)"] by (auto simp: answered_def split: option.splits)
  ultimately show ?thesis using e by (auto simp: it)
qed

definition sample_client :: IpcClient where
  "sample_client = (Client_construct ''ipc'')\<lparr>cl_connected := True, cl_running := True,
     cl_response_signal := snd (Signal_Create None 0 False False Signal_construct)\<rparr>"

definition sample_header :: MsgHeader where
  "sample_header = \<lparr>seq_id = 9, func_id = 9, payload_len = 9\<rparr>"

definition sample_client_world :: client_world where
  "sample_client_world = \<lparr>cw_layout = fresh_layout, cw_memory = (\<lambda>_. 0),
     cw_requests = (\<lambda>_. new_request sample_header), cw_next = 0\<rparr>"

lemma sample_client_simps [simp]:
  "cl_connected sample_client" "cl_pending sample_client = Map.empty" "cl_next_seq_id sample_client = 1"
  "cl_running sample_client" "cl_timeouts sample_client = 0" "cl_requests_sent sample_client = 0"
  "es_valid (cl_response_signal sample_client)"
  "es_fd (cl_response_signal sample_client) = Some \<lparr>ev_counter = 0, ev_nonblock = False, ev_semaphore = False\<rparr>"
  "cw_layout sample_client_world = fresh_layout" "cw_memory sample_client_world = (\<lambda>_. 0)"
  "cw_next sample_client_world = 0"
  by (simp_all add: sample_client_def Client_construct_def sample_client_world_def Signal_Create_def)

lemma sample_client_inv: "Client_inv (sample_client, sample_client_world)"
  by (simp add: Client_inv_def)

lemma sample_room: "has_room p sample_client_world"
  by (cases p) (simp_all add: has_room_def request_ids_values fresh_layout_empty queue_ids_def layout_consts upt_conv_Cons)

theorem Client_poll_exact_witness:
  "layout_contents (cw_layout (snd (poller_iteration 1 (sample_client, sample_client_world))),
     cw_memory (snd (poller_iteration 1 (sample_client, sample_client_world)))) (NormalResponse 0) = []"
proof -
  have "NormalResponse 0 \<in> set queue_ids" "NormalResponse 0 \<in> set response_ids"
    by (simp_all add: queue_ids_def response_ids_def layout_consts upt_conv_Cons)
  then show ?thesis
    using Client_poll_exact [of 65536 sample_client_world sample_client 1] fresh_layout_inv sample_client_inv
    by (auto simp: Signal_IsValid_def split: prod.splits)
qed

text \<open>
  C15. An asynchronous call, end to end. When the group has room the request is queued at the end
  of the chosen request ring under the client's next sequence number, and the future belongs to
  a pending request. Whatever the server and its workers then do to the segment, at the next
  wake-up of the poller the future holds the first waiting response with that sequence number;
  without one it stays unfulfilled and the request pending.
\<close>

theorem Client_async_roundtrip:
  assumes "cl_connected c" and "Layout_inv this (cw_layout w)" and "Client_inv (c, w)" and "has_room p w"
    and "Layout_inv this L'" and "Signal_IsValid (cl_response_signal c)" and "0 < arrivals"
  shows "case Client_CallAsync unset fid n p (c, w) of (future, c1, w1) \<Rightarrow>
    layout_contents (cw_layout w1, cw_memory w1) (request_id p (best_worker p (cw_layout w))) =
      layout_contents (cw_layout w, cw_memory w) (request_id p (best_worker p (cw_layout w)))
        @ [\<lparr>seq_id = cl_next_seq_id c, func_id = fid, payload_len = ucast n\<rparr>] \<and>
    (case poller_iteration arrivals (workers_act L' m' (c1, w1)) of (c2, w2) \<Rightarrow>
       (case future of
          Fulfilled h \<Rightarrow> False
        | Awaiting r \<Rightarrow>
            pr_promise (cw_requests w2 r) =
              answer_to (cl_next_seq_id c) (waiting_responses (L', m')) \<and>
            (cl_pending c2 (cl_next_seq_id c) = Some r \<longleftrightarrow> pr_promise (cw_requests w2 r) = None)))"
proof -
  let ?d = "request_id p (best_worker p (cw_layout w))"
  obtain L m where a: "Client_CallAsync unset fid n p (c, w) =
      (Awaiting (cw_next w),
       c\<lparr>cl_next_seq_id := cl_next_seq_id c + 1,
         cl_pending := (cl_pending c)(cl_next_seq_id c \<mapsto> cw_next w),
         cl_requests_sent := cl_requests_sent c + 1\<rparr>,
       w\<lparr>cw_requests := (cw_requests w)(cw_next w := new_request unset), cw_next := Suc (cw_next w),
         cw_layout := L, cw_memory := m\<rparr>)" (is "_ = (_, ?c, ?w)")
    and q: "\<And>j. j \<in> set queue_ids \<Longrightarrow> layout_contents (L, m) j =
      layout_contents (cw_layout w, cw_memory w) j @
        (if j = ?d then [\<lparr>seq_id = cl_next_seq_id c, func_id = fid, payload_len = ucast n\<rparr>] else [])"
    using CallAsync_effect [OF assms(1-4)] by blast
  have d: "?d \<in> set queue_ids" using push_request_best(2) [OF assms(2), of p] request_ids_subset by blast
  let ?w2 = "?w\<lparr>cw_layout := L', cw_memory := m'\<rparr>"
  have inj: "inj_on (cl_pending ?c) (dom (cl_pending ?c))" by (rule Client_inv_inj [OF register_inv [OF assms(3)]])
  obtain c2 w2 where it: "poller_iteration arrivals (?c, ?w2) = (c2, w2)" by (cases "poller_iteration arrivals (?c, ?w2)")
  have "cl_pending ?c (cl_next_seq_id c) = Some (cw_next w)" "Layout_inv this (cw_layout ?w2)"
    "Signal_IsValid (cl_response_signal ?c)" "cl_connected ?c"
    using assms(1,5,6) by simp_all
  note answers = iteration_answers [OF it this(1,2) inj this(3) assms(7) this(4)]
  have "cw_requests ?w2 (cw_next w) = new_request unset" by simp
  then show ?thesis
    using q [OF d] it answers by (simp add: a workers_act_def new_request_def answered_def split: option.splits)
qed

text \<open>A layout in which normal worker 0 has answered with one header.\<close>

definition responded :: "MsgHeader \<Rightarrow> PhoenixShmLayout \<times> memory" where
  "responded h =
     (let (ok, q, m) = Spsc_Push MsgHeader_type kNormalQueueCapacity h
            (queue_of fresh_layout (NormalResponse 0), \<lambda>_. 0)
      in (set_queue (NormalResponse 0) q fresh_layout, m))"

lemma responded:
  obtains L m where "responded h = (L, m)" and "Layout_inv 65536 L" and "waiting_responses (L, m) = [h]"
proof -
  let ?i = "NormalResponse 0"
  have i: "?i \<in> set queue_ids" by (simp add: queue_ids_def layout_consts upt_conv_Cons)
  have room: "length (layout_contents (fresh_layout, \<lambda>_. 0) ?i) < unat (cap_of ?i)"
    by (simp add: fresh_layout_empty [OF i] layout_consts)
  obtain q m where push: "Spsc_Push MsgHeader_type (cap_of ?i) h (queue_of fresh_layout ?i, \<lambda>_. 0) = (True, q, m)"
    and inv: "Layout_inv 65536 (set_queue ?i q fresh_layout)"
    and contents: "\<And>j. j \<in> set queue_ids \<Longrightarrow> layout_contents (set_queue ?i q fresh_layout, m) j =
      layout_contents (fresh_layout, \<lambda>_. 0) j @ (if j = ?i then [h] else [])"
    by (rule push_queue_effect [OF fresh_layout_inv i room, of h]) blast
  have "layout_contents (set_queue ?i q fresh_layout, m) j = (if j = ?i then [h] else [])"
    if "j \<in> set queue_ids" for j
    using contents [OF that] fresh_layout_empty [OF that] by simp
  then have "waiting_responses (set_queue ?i q fresh_layout, m) = [h]"
    by (simp add: waiting_responses_def response_ids_def queue_ids_def layout_consts upt_conv_Cons)
  moreover have "responded h = (set_queue ?i q fresh_layout, m)" using push by (simp add: responded_def)
  ultimately show thesis using inv by (intro that)
qed

theorem Client_async_roundtrip_witness:
  "case Client_CallAsync sample_header 5 0 kLow (sample_client, sample_client_world) of (future, s) \<Rightarrow>
     (case responded \<lparr>seq_id = 1, func_id = 5, payload_len = 3\<rparr> of (L, m) \<Rightarrow>
        (case future of
           Fulfilled h \<Rightarrow> False
         | Awaiting r \<Rightarrow> pr_promise (cw_requests (snd (poller_iteration 1 (workers_act L m s))) r) =
             Some \<lparr>seq_id = 1, func_id = 5, payload_len = 3\<rparr>))"
proof -
  obtain L m where r: "responded \<lparr>seq_id = 1, func_id = 5, payload_len = 3\<rparr> = (L, m)" "Layout_inv 65536 L"
    "waiting_responses (L, m) = [\<lparr>seq_id = 1, func_id = 5, payload_len = 3\<rparr>]" by (rule responded)
  have "Signal_IsValid (cl_response_signal sample_client)" by (simp add: Signal_IsValid_def)
  then show ?thesis
    using Client_async_roundtrip [of sample_client 65536 sample_client_world kLow L 1 5 0 m sample_header]
      fresh_layout_inv sample_client_inv sample_room r
    by (auto split: prod.splits response_future.splits)
qed

text \<open>
  C26. A blocking call that the group has room for, with a timeout above zero. When the poller
  first wakes up after the call has registered its request, the call returns the first waiting
  response with the call's sequence number; when there is none, it returns the error header with
  number 0 and counts a timeout. Either way the request is pending no more.
\<close>

theorem Client_Call_exact:
  assumes "cl_connected c" and "Layout_inv this (cw_layout w)" and "Client_inv (c, w)" and "has_room p w"
    and "Signal_IsValid (cl_response_signal c)" and "0 < arrivals" and "t \<noteq> 0" and "Layout_inv this Lb"
    and "cl_next_seq_id c \<noteq> 0"
  shows "case Client_Call unset fid n p t (workers_act La ma)
      (\<lambda>s. poller_iteration arrivals (workers_act Lb mb s)) (c, w) of (response, c', w') \<Rightarrow>
    (case answer_to (cl_next_seq_id c) (waiting_responses (Lb, mb)) of
       None \<Rightarrow> seq_id response = 0 \<and> cl_timeouts c' = cl_timeouts c + 1
     | Some h \<Rightarrow> response = h \<and> seq_id response = cl_next_seq_id c \<and> cl_timeouts c' = cl_timeouts c) \<and>
    cl_pending c' (cl_next_seq_id c) = None"
proof -
  obtain L m where call: "Client_Call unset fid n p t (workers_act La ma)
        (\<lambda>s. poller_iteration arrivals (workers_act Lb mb s)) (c, w) =
      (let (response, c', w') = Client_WaitForResponse unset (cl_next_seq_id c) t
             (\<lambda>s. poller_iteration arrivals (workers_act Lb mb s))
             (workers_act La ma (c\<lparr>cl_next_seq_id := cl_next_seq_id c + 1, cl_requests_sent := cl_requests_sent c + 1\<rparr>,
                      w\<lparr>cw_layout := L, cw_memory := m\<rparr>))
       in (response, if seq_id response = 0 then c'\<lparr>cl_timeouts := cl_timeouts c' + 1\<rparr> else c', w'))"
    using Call_after_push [OF assms(1,2,4)] by blast
  let ?c = "c\<lparr>cl_next_seq_id := cl_next_seq_id c + 1, cl_requests_sent := cl_requests_sent c + 1\<rparr>"
  have acted: "workers_act La ma (?c, w\<lparr>cw_layout := L, cw_memory := m\<rparr>) =
      (?c, w\<lparr>cw_layout := La, cw_memory := ma\<rparr>)" by (simp add: workers_act_def)
  have "Client_inv (?c, w\<lparr>cw_layout := La, cw_memory := ma\<rparr>)" using assms(3) by (simp add: Client_inv_def)
  moreover have "cl_connected ?c" "Signal_IsValid (cl_response_signal ?c)" using assms by simp_all
  ultimately obtain c' w' where wait: "Client_WaitForResponse unset (cl_next_seq_id c) t
      (\<lambda>s. poller_iteration arrivals (workers_act Lb mb s)) (?c, w\<lparr>cw_layout := La, cw_memory := ma\<rparr>) =
      (case answer_to (cl_next_seq_id c) (waiting_responses (Lb, mb)) of None \<Rightarrow> unset\<lparr>seq_id := 0\<rparr> | Some h \<Rightarrow> h, c', w')"
    and c': "cl_pending c' (cl_next_seq_id c) = None" "cl_timeouts c' = cl_timeouts ?c"
    using Wait_polled [where this = this and L = Lb, OF _ _ _ assms(6,8,7)] by blast
  show ?thesis
    using c' assms(9) answer_to_seq [of "cl_next_seq_id c" "waiting_responses (Lb, mb)"]
    by (auto simp: call wait acted split: option.splits)
qed

theorem Client_Call_exact_witness:
  "case responded \<lparr>seq_id = 1, func_id = 5, payload_len = 3\<rparr> of (L, m) \<Rightarrow>
     fst (Client_Call sample_header 5 0 kLow 1000 (workers_act fresh_layout (\<lambda>_. 0))
        (\<lambda>s. poller_iteration 1 (workers_act L m s)) (sample_client, sample_client_world)) =
     \<lparr>seq_id = 1, func_id = 5, payload_len = 3\<rparr>"
proof -
  obtain L m where r: "responded \<lparr>seq_id = 1, func_id = 5, payload_len = 3\<rparr> = (L, m)" "Layout_inv 65536 L"
    "waiting_responses (L, m) = [\<lparr>seq_id = 1, func_id = 5, payload_len = 3\<rparr>]" by (rule responded)
  have "Signal_IsValid (cl_response_signal sample_client)" by (simp add: Signal_IsValid_def)
  then show ?thesis
    using Client_Call_exact [where c = sample_client and this = 65536 and w = sample_client_world and p = kLow
        and arrivals = 1 and t = 1000 and Lb = L and mb = m and fid = 5 and n = 0 and unset = sample_header
        and La = fresh_layout and ma = "\<lambda>_. 0"]
      fresh_layout_inv sample_client_inv sample_room r
    by (auto split: prod.splits)
qed

text \<open>
  C34. The race of a blocking call. \<open>Call\<close> pushes the request first and registers it only in
  \<open>WaitForResponse\<close>. When the worker answers and the poller wakes up in between, the poller
  takes the response off the ring and finds nobody to give it to: unless the worker answers a
  second time, the call times out although its response had arrived.
\<close>

theorem Client_Call_early_response_lost:
  assumes "cl_connected c" and "Layout_inv this (cw_layout w)" and "Client_inv (c, w)" and "has_room p w"
    and "Signal_IsValid (cl_response_signal c)" and "0 < arrivals" and "0 < later" and "t \<noteq> 0"
    and "Layout_inv this La" and "answer_to (cl_next_seq_id c) (waiting_responses (La, ma)) = Some h"
    and "Layout_inv this Lb" and "answer_to (cl_next_seq_id c) (waiting_responses (Lb, mb)) = None"
  shows "case Client_Call unset fid n p t (\<lambda>s. poller_iteration arrivals (workers_act La ma s))
      (\<lambda>s. poller_iteration later (workers_act Lb mb s)) (c, w) of (response, c', w') \<Rightarrow>
    seq_id response = 0 \<and> cl_timeouts c' = cl_timeouts c + 1"
proof -
  let ?c = "c\<lparr>cl_next_seq_id := cl_next_seq_id c + 1, cl_requests_sent := cl_requests_sent c + 1\<rparr>"
  let ?w = "w\<lparr>cw_layout := La, cw_memory := ma\<rparr>"
  obtain L m where call: "Client_Call unset fid n p t (\<lambda>s. poller_iteration arrivals (workers_act La ma s))
        (\<lambda>s. poller_iteration later (workers_act Lb mb s)) (c, w) =
      (let (response, c', w') = Client_WaitForResponse unset (cl_next_seq_id c) t
             (\<lambda>s. poller_iteration later (workers_act Lb mb s))
             (poller_iteration arrivals (workers_act La ma (?c, w\<lparr>cw_layout := L, cw_memory := m\<rparr>)))
       in (response, if seq_id response = 0 then c'\<lparr>cl_timeouts := cl_timeouts c' + 1\<rparr> else c', w'))"
    using Call_after_push [OF assms(1,2,4)] by blast
  obtain c1 w1 where it: "poller_iteration arrivals (?c, ?w) = (c1, w1)" by (cases "poller_iteration arrivals (?c, ?w)")
  have acted: "poller_iteration arrivals (workers_act La ma (?c, w\<lparr>cw_layout := L, cw_memory := m\<rparr>)) = (c1, w1)"
    using it by (simp add: workers_act_def)
  have "Client_inv (?c, ?w)" "Layout_inv this (cw_layout ?w)" "Signal_IsValid (cl_response_signal ?c)" "cl_connected ?c"
    using assms by (simp_all add: Client_inv_def)
  note keeps = iteration_keeps [OF it this(1-3) assms(6) this(4)]
  obtain c' w' where wait: "Client_WaitForResponse unset (cl_next_seq_id c) t
      (\<lambda>s. poller_iteration later (workers_act Lb mb s)) (c1, w1) = (unset\<lparr>seq_id := 0\<rparr>, c', w')"
    and c': "cl_timeouts c' = cl_timeouts c1"
    using Wait_polled [OF keeps(1,4,3) assms(7,11,8), where seq = "cl_next_seq_id c" and m = mb and unset = unset]
    unfolding assms(12) option.case by blast
  show ?thesis using keeps(5) c' by (simp add: call acted wait)
qed

theorem Client_Call_early_response_lost_witness:
  "case responded \<lparr>seq_id = 1, func_id = 5, payload_len = 3\<rparr> of (L, m) \<Rightarrow>
     seq_id (fst (Client_Call sample_header 5 0 kLow 1000 (\<lambda>s. poller_iteration 1 (workers_act L m s))
        (\<lambda>s. poller_iteration 1 (workers_act fresh_layout (\<lambda>_. 0) s)) (sample_client, sample_client_world))) = 0"
proof -
  obtain L m where r: "responded \<lparr>seq_id = 1, func_id = 5, payload_len = 3\<rparr> = (L, m)" "Layout_inv 65536 L"
    "waiting_responses (L, m) = [\<lparr>seq_id = 1, func_id = 5, payload_len = 3\<rparr>]" by (rule responded)
  have "Signal_IsValid (cl_response_signal sample_client)" by (simp add: Signal_IsValid_def)
  moreover have "waiting_responses (fresh_layout, \<lambda>_. 0) = []"
    by (simp add: waiting_responses_def response_ids_def fresh_layout_empty queue_ids_def layout_consts upt_conv_Cons)
  ultimately show ?thesis
    using Client_Call_early_response_lost [where c = sample_client and this = 65536 and w = sample_client_world
        and p = kLow and arrivals = 1 and later = 1 and t = 1000 and La = L and ma = m and Lb = fresh_layout
        and mb = "\<lambda>_. 0" and fid = 5 and n = 0 and unset = sample_header]
      fresh_layout_inv sample_client_inv sample_room r
    by (auto split: prod.splits)
qed

text \<open>
  C35. The poller of a connected client never wakes up by itself. The response signal is created
  by \<open>Connect\<close>, is private to the client, and no code notifies it, so every wait of the poller
  ends without a signal. Whatever the server and its workers write into the segment, every
  blocking call returns the error header with number 0, and no asynchronous call is ever
  answered.
\<close>

theorem Client_poller_never_wakes:
  assumes "Client_Connect env (c0, w0) = (True, c, w)" and "\<not> cl_connected c0"
  shows "seq_id (fst (Client_Call unset fid n p t (workers_act La ma)
           (\<lambda>s. Client_ResponsePollerMain (replicate k 0) (workers_act Lb mb s)) (c, w'))) = 0 \<and>
    (case Client_CallAsync unset fid n p (c, w') of (future, s) \<Rightarrow>
       (case future of
          Fulfilled h \<Rightarrow> seq_id h = 0
        | Awaiting r \<Rightarrow> pr_promise (cw_requests (snd
            (Client_ResponsePollerMain (replicate k 0) (workers_act Lb mb s))) r) = None))"
proof -
  have sleeping: "map_option ev_counter (es_fd (cl_response_signal c)) = Some 0" and conn: "cl_connected c"
    using Connect_success [OF assms] by (simp_all add: Signal_Create_def)
  have sleeps: "Client_ResponsePollerMain (replicate k 0) (c', w) = (c', w)"
    if "cl_response_signal c' = cl_response_signal c" for c' w
    using poller_sleeps [of c' k w] sleeping that by simp
  show ?thesis
    using conn by (auto simp: Client_Call_def Client_CallAsync_def Client_WaitForResponse_def
        register_request_def workers_act_def Let_def sleeps new_request_def split: prod.splits)
qed

definition sample_connect_env :: connect_env where
  "sample_connect_env = \<lparr>ct_this = 65536, ct_shm_open_ok = True, ct_fstat_size = Some Layout_RequiredSize,
     ct_mmap_ok = True, ct_eventfd_error = None\<rparr>"

lemma sample_connects:
  "\<exists>c w. Client_Connect sample_connect_env (Client_construct ''ipc'', sample_client_world) = (True, c, w)"
proof -
  have "Layout_IsValid fresh_layout" using fresh_layout_inv by (simp add: Layout_inv_def)
  then show ?thesis
    by (simp add: Client_Connect_def sample_connect_env_def Client_construct_def ShmLayoutFactory_Get_def
        Signal_Create_def Let_def)
qed

theorem Client_poller_never_wakes_witness:
  "\<exists>c w. Client_Connect sample_connect_env (Client_construct ''ipc'', sample_client_world) = (True, c, w) \<and>
     seq_id (fst (Client_Call sample_header 5 0 kLow 1000 (workers_act fresh_layout (\<lambda>_. 0))
           (\<lambda>s. Client_ResponsePollerMain (replicate 10 0) (workers_act fresh_layout (\<lambda>_. 0) s)) (c, w))) = 0"
proof -
  obtain c w where connect: "Client_Connect sample_connect_env (Client_construct ''ipc'', sample_client_world) = (True, c, w)"
    using sample_connects by blast
  then show ?thesis
    using Client_poller_never_wakes [OF connect, where w' = w and k = 10] by (auto simp: Client_construct_def)
qed

text \<open>
  \<open>Connect\<close> and \<open>Disconnect\<close>. \<open>Connect\<close> returns true exactly when the client is connected
  already or the segment opens, has a size, maps, holds a valid layout, and the eventfd is
  created; the client is connected afterwards exactly when it returned true, and the segment is
  as before. \<open>Disconnect\<close> of a client that is not connected does nothing; after a successful
  \<open>Connect\<close> it never returns, however often the signal was notified.
\<close>

theorem Client_Connect_exact:
  "case Client_Connect env (c, w) of (ok, c', w') \<Rightarrow>
     (ok = (cl_connected c \<or> (ct_shm_open_ok env \<and> ct_fstat_size env \<noteq> None \<and> ct_mmap_ok env \<and>
        Layout_IsValid (cw_layout w) \<and> ct_eventfd_error env = None))) \<and>
     cl_connected c' = ok \<and> w' = w \<and>
     (if cl_connected c then c' = c
      else if ok then fst (Client_Disconnect
          (c'\<lparr>cl_response_signal := notify_times k (cl_response_signal c')\<rparr>, w)) = None
      else Client_Disconnect (c', w) = (Some (), c', w))"
proof (cases "Client_Connect env (c, w)")
  case (fields ok c' w')
  show ?thesis
  proof (cases "ok \<and> \<not> cl_connected c")
    case True
    have c: "c' = c\<lparr>cl_shm_fd := Some 0, cl_shm_size := the (ct_fstat_size env),
      cl_shm_addr := Mapped (ct_this env), cl_layout := Mapped (ct_this env),
      cl_response_signal := snd (Signal_Create None 0 False False (cl_response_signal c)),
      cl_running := True, cl_connected := True\<rparr>"
      using Connect_success [of env c w c' w'] fields True by simp
    then have "fst (Signal_Reset (notify_times k (cl_response_signal c'))) = None"
      by (intro Signal_Reset_created [of _ 0 False "cl_response_signal c"]) simp
    then have "fst (Client_Disconnect (c'\<lparr>cl_response_signal := notify_times k (cl_response_signal c')\<rparr>, w)) = None"
      using c by (simp add: Client_Disconnect_def Let_def split_beta)
    then show ?thesis
      using True fields
      by (auto simp: Client_Connect_def Let_def Signal_Create_def ShmLayoutFactory_Get_def
          split: if_splits option.splits)
  next
    case False
    then show ?thesis
      using fields
      by (auto simp: Client_Connect_def Let_def Signal_Create_def ShmLayoutFactory_Get_def
          Client_Disconnect_def split: if_splits option.splits)
  qed
qed

end
