(* ===== verification/Ipc_Session.thy ===== *)
theory Ipc_Session
  imports Ipc_Server Ipc_Client
begin

text \<open>
  Server and client together. \<open>client_step\<close> interleaves the steps of any number of calls with the
  poller and with whatever server and workers do to the segment; its reachable states carry the
  invariant of the pending requests. The last sections put a client next to a started server,
  on the same segment.
\<close>

section \<open>Interleaved calls\<close>

text \<open>
  The steps calls are made of: taking a number, registering a pending request, pushing a header,
  erasing a pending request, counting. The promises of erased requests stay in the world. Any
  order of them is a run, with any header and any number.
\<close>

inductive client_step :: "address \<Rightarrow> IpcClient \<times> client_world \<Rightarrow> IpcClient \<times> client_world \<Rightarrow> bool"
  for this :: address where
  take_number:
    "client_step this (c, w) (c\<lparr>cl_next_seq_id := cl_next_seq_id c + 1\<rparr>, w)"
| register:
    "client_step this s (register_request unset seq s)"
| send:
    "Client_SendRequest h p (cw_layout w, cw_memory w) = (ok, L, m) \<Longrightarrow>
     client_step this (c, w) (c, w\<lparr>cw_layout := L, cw_memory := m\<rparr>)"
| erase:
    "client_step this (c, w) (c\<lparr>cl_pending := (cl_pending c)(seq := None)\<rparr>, w)"
| count:
    "client_step this (c, w)
       (c\<lparr>cl_requests_sent := sent, cl_timeouts := timeouts, cl_errors := errors\<rparr>, w)"
| poller:
    "0 < arrivals \<Longrightarrow> client_step this s (poller_iteration arrivals s)"
| others:
    "Layout_inv this L \<Longrightarrow> client_step this s (workers_act L m s)"

inductive client_reachable :: "address \<Rightarrow> IpcClient \<times> client_world \<Rightarrow> IpcClient \<times> client_world \<Rightarrow> bool"
  for this :: address and s0 :: "IpcClient \<times> client_world" where
  start: "client_reachable this s0 s0"
| step: "client_reachable this s0 s \<Longrightarrow> client_step this s t \<Longrightarrow> client_reachable this s0 t"

lemma client_reachable_trans:
  "client_reachable this t u \<Longrightarrow> client_reachable this s t \<Longrightarrow> client_reachable this s u"
  by (induction rule: client_reachable.induct) (auto intro: client_reachable.step)

lemma client_reachable_step:
  "client_step this s t \<Longrightarrow> client_reachable this t u \<Longrightarrow> client_reachable this s u"
  by (blast intro: client_reachable_trans client_reachable.intros)

text \<open>Calls are runs of these steps.\<close>

lemma count_errors: "client_step this (c, w) (c\<lparr>cl_errors := x\<rparr>, w)"
  using count [where c = c and sent = "cl_requests_sent c" and timeouts = "cl_timeouts c" and errors = x] by simp

lemma count_sent: "client_step this (c, w) (c\<lparr>cl_requests_sent := x\<rparr>, w)"
  using count [where c = c and sent = x and timeouts = "cl_timeouts c" and errors = "cl_errors c"] by simp

lemma count_timeouts: "client_step this (c, w) (c\<lparr>cl_timeouts := x\<rparr>, w)"
  using count [where c = c and sent = "cl_requests_sent c" and timeouts = x and errors = "cl_errors c"] by simp

lemma CallAsync_steps:
  assumes "Client_CallAsync unset fid n p (c, w) = (future, t)"
  shows "client_reachable this (c, w) t"
proof (cases "cl_connected c")
  case False
  then show ?thesis using assms by (simp add: Client_CallAsync_def client_reachable.start)
next
  case True
  let ?seq = "cl_next_seq_id c"
  let ?c1 = "c\<lparr>cl_next_seq_id := ?seq + 1\<rparr>"
  obtain c2 w2 where reg: "register_request unset ?seq (?c1, w) = (c2, w2)"
    by (cases "register_request unset ?seq (?c1, w)")
  obtain ok L m where send: "Client_SendRequest \<lparr>seq_id = ?seq, func_id = fid, payload_len = ucast n\<rparr> p
      (cw_layout w2, cw_memory w2) = (ok, L, m)" using prod_cases3 by blast
  let ?w3 = "w2\<lparr>cw_layout := L, cw_memory := m\<rparr>"
  have "client_reachable this (c, w) (c2, ?w3)"
    using client_step.take_number [of this c w] client_step.register [of this "(?c1, w)" unset ?seq]
      client_step.send [OF send, of this c2] by (simp add: reg client_reachable.start client_reachable_step)
  moreover have "client_reachable this (c2, ?w3) t"
  proof (cases ok)
    case True
    then show ?thesis
      using assms reg send \<open>cl_connected c\<close> client_reachable.step [OF client_reachable.start count_sent]
      by (auto simp: Client_CallAsync_def Let_def)
  next
    case False
    then show ?thesis
      using assms reg send \<open>cl_connected c\<close>
        client_reachable.step [OF client_reachable.step [OF client_reachable.start client_step.erase] count_errors,
          of this c2 ?w3 "cl_errors c2 + 1" ?seq]
      by (auto simp: Client_CallAsync_def Let_def)
  qed
  ultimately show ?thesis by (blast intro: client_reachable_trans)
qed

lemma WaitForResponse_steps:
  assumes "Client_WaitForResponse unset seq t during s = (response, s')"
    and during: "\<And>s. client_reachable this s (during s)"
  shows "client_reachable this s s'"
proof -
  obtain c w where reg: "register_request unset seq s = (c, w)" by (cases "register_request unset seq s")
  obtain c1 w1 where d: "(if t = 0 then (c, w) else during (c, w)) = (c1, w1)" by (metis surj_pair)
  have "client_reachable this s (c, w)"
    using client_reachable.step [OF client_reachable.start client_step.register [of this s unset seq]] by (simp add: reg)
  moreover have "client_reachable this (c, w) (c1, w1)"
    using during [of "(c, w)"] d client_reachable.start [of this "(c, w)"] by (auto split: if_splits)
  moreover have "client_reachable this (c1, w1) s'"
    using assms(1) reg d client_reachable.start client_reachable.step [OF client_reachable.start client_step.erase]
    by (auto simp: Client_WaitForResponse_def Let_def split: option.splits if_splits)
  ultimately show ?thesis by (blast intro: client_reachable_trans)
qed

lemma Call_steps:
  assumes call: "Client_Call unset fid n p t before during (c, w) = (response, s')"
    and others: "\<And>s. client_reachable this s (before s)" "\<And>s. client_reachable this s (during s)"
  shows "client_reachable this (c, w) s'"
proof (cases "cl_connected c")
  case False
  then show ?thesis
    using call client_reachable.step [OF client_reachable.start count_errors] by (auto simp: Client_Call_def)
next
  case True
  let ?seq = "cl_next_seq_id c"
  let ?c1 = "c\<lparr>cl_next_seq_id := ?seq + 1\<rparr>"
  obtain ok L m where send: "Client_SendRequest \<lparr>seq_id = ?seq, func_id = fid, payload_len = ucast n\<rparr> p
      (cw_layout w, cw_memory w) = (ok, L, m)" using prod_cases3 by blast
  let ?w1 = "w\<lparr>cw_layout := L, cw_memory := m\<rparr>"
  have pushed: "client_reachable this (c, w) (?c1, ?w1)"
    using client_step.take_number [of this c w] client_step.send [OF send, of this ?c1]
    by (simp add: client_reachable.start client_reachable_step)
  show ?thesis
  proof (cases ok)
    case False
    then show ?thesis
      using call send True client_reachable.step [OF pushed count_errors, of "cl_errors c + 1"]
      by (auto simp: Client_Call_def Let_def)
  next
    case ok: True
    let ?c2 = "?c1\<lparr>cl_requests_sent := cl_requests_sent c + 1\<rparr>"
    obtain r c3 w3 where wait: "Client_WaitForResponse unset ?seq t during (before (?c2, ?w1)) = (r, c3, w3)"
      using prod_cases3 by blast
    have "client_reachable this (?c2, ?w1) (c3, w3)"
      using WaitForResponse_steps [OF wait others(2)] others(1) by (blast intro: client_reachable_trans)
    then have reach: "client_reachable this (c, w) (c3, w3)"
      using client_reachable.step [OF pushed count_sent] by (blast intro: client_reachable_trans)
    show ?thesis
      using call send True ok wait reach client_reachable.step [OF reach count_timeouts]
      by (auto simp: Client_Call_def Let_def split: if_splits)
  qed
qed

text \<open>What holds between the steps.\<close>

definition session_inv :: "address \<Rightarrow> IpcClient \<times> client_world \<Rightarrow> bool" where
  "session_inv this s \<longleftrightarrow>
     Client_inv s \<and> Layout_inv this (cw_layout (snd s)) \<and> cl_connected (fst s) \<and>
     Signal_IsValid (cl_response_signal (fst s))"

lemma SendRequest_inv:
  fixes w :: client_world
  assumes "Layout_inv this (cw_layout w)"
    and "Client_SendRequest h p (cw_layout w, cw_memory w) = (ok, L, m)"
  shows "Layout_inv this L"
proof -
  obtain L' m' where "Client_SendRequest h p (cw_layout w, cw_memory w) = (has_room p w, L', m')" "Layout_inv this L'"
    by (rule SendRequest_cases [OF assms(1), of h p]) blast
  then show ?thesis using assms(2) by simp
qed

lemma Client_inv_erase:
  "Client_inv (c, w) \<Longrightarrow> Client_inv (c\<lparr>cl_pending := (cl_pending c)(seq := None)\<rparr>, w)"
  by (auto simp: Client_inv_def inj_on_def ran_def split: if_splits)

lemma session_step:
  assumes "client_step this s t" and "session_inv this s"
  shows "session_inv this t"
  using assms
proof (cases rule: client_step.cases)
  case (take_number c w)
  then show ?thesis using assms(2) by (simp add: session_inv_def Client_inv_def)
next
  case (register unset seq)
  obtain c w where s: "s = (c, w)" by (cases s)
  show ?thesis
    using Client_inv_register(1) [of c w unset seq] assms(2)
    by (simp add: register s session_inv_def) (simp add: register_request_def)
next
  case (send h p w ok L m c)
  then show ?thesis
    using SendRequest_inv [OF _ send(3)] assms(2) by (auto simp: session_inv_def Client_inv_def)
next
  case (erase c w seq)
  then show ?thesis using assms(2) Client_inv_erase by (auto simp: session_inv_def)
next
  case (count c w sent timeouts errors)
  then show ?thesis using assms(2) by (simp add: session_inv_def Client_inv_def)
next
  case (poller arrivals)
  obtain c w where s: "s = (c, w)" by (cases s)
  obtain c' w' where t: "poller_iteration arrivals (c, w) = (c', w')" by (cases "poller_iteration arrivals (c, w)")
  show ?thesis
    using iteration_keeps [OF t _ _ _ poller(2), of this] assms(2) s t poller(1) by (simp add: session_inv_def)
next
  case (others L m)
  then show ?thesis using assms(2) by (cases s) (auto simp: workers_act_def session_inv_def Client_inv_def)
qed

lemma session_reachable:
  assumes "client_reachable this s0 s" and "session_inv this s0"
  shows "session_inv this s"
  using assms by (induction rule: client_reachable.induct) (auto intro: session_step)

text \<open>A step fulfils only promises of pending requests, with their own number, and undoes none.\<close>

lemma step_promises:
  assumes "client_step this s t" and "session_inv this s" and r: "r < cw_next (snd s)"
  shows "pr_promise (cw_requests (snd t) r) = pr_promise (cw_requests (snd s) r) \<or>
    (pr_promise (cw_requests (snd s) r) = None \<and>
     (\<exists>h. pr_promise (cw_requests (snd t) r) = Some h \<and> cl_pending (fst s) (seq_id h) = Some r))"
    and "cw_next (snd s) \<le> cw_next (snd t)"
proof -
  have "cw_next (snd s) \<le> cw_next (snd t) \<and>
    (pr_promise (cw_requests (snd t) r) = pr_promise (cw_requests (snd s) r) \<or>
     (pr_promise (cw_requests (snd s) r) = None \<and>
      (\<exists>h. pr_promise (cw_requests (snd t) r) = Some h \<and> cl_pending (fst s) (seq_id h) = Some r)))"
    using assms(1)
  proof (cases rule: client_step.cases)
    case (register unset seq)
    then show ?thesis using r by (cases s) (simp add: register_request_def)
  next
    case (poller arrivals)
    obtain c w where s: "s = (c, w)" by (cases s)
    have i: "Layout_inv this (cw_layout w)" "inj_on (cl_pending c) (dom (cl_pending c))"
      "Signal_IsValid (cl_response_signal c)" "cl_connected c" "Client_inv (c, w)"
      using assms(2) by (auto simp: s session_inv_def Client_inv_def)
    obtain c' w' where t: "poller_iteration arrivals (c, w) = (c', w')" by (cases "poller_iteration arrivals (c, w)")
    note e = iteration_effect [OF i(1-3) poller(2) i(4), unfolded t prod.case]
    show ?thesis
    proof (cases "r \<in> ran (cl_pending c)")
      case True
      then obtain seq where seq: "cl_pending c seq = Some r" by (auto simp: ran_def)
      then have none: "pr_promise (cw_requests w r) = None" using i(5) by (auto simp: Client_inv_def ran_def)
      show ?thesis
        using e seq none t poller(1) answer_to_seq [of seq "waiting_responses (cw_layout w, cw_memory w)"]
        by (auto simp: s answered_def split: option.splits)
    next
      case False
      then show ?thesis using e t poller(1) by (simp add: s)
    qed
  next
    case (others L m)
    then show ?thesis by (cases s) (simp add: workers_act_def)
  qed simp_all
  then show "pr_promise (cw_requests (snd t) r) = pr_promise (cw_requests (snd s) r) \<or>
    (pr_promise (cw_requests (snd s) r) = None \<and>
     (\<exists>h. pr_promise (cw_requests (snd t) r) = Some h \<and> cl_pending (fst s) (seq_id h) = Some r))"
    and "cw_next (snd s) \<le> cw_next (snd t)" by blast+
qed

section \<open>A client next to a started server\<close>

text \<open>What the client sees of the server's segment, and the server of the client's.\<close>

definition client_view :: "server_world \<Rightarrow> client_world \<Rightarrow> client_world" where
  "client_view sw w = w\<lparr>cw_layout := sw_layout sw, cw_memory := sw_memory sw\<rparr>"

definition server_view :: "client_world \<Rightarrow> server_world \<Rightarrow> server_world" where
  "server_view w sw = sw\<lparr>sw_layout := cw_layout w, sw_memory := cw_memory w\<rparr>"

lemma view_simps [simp]:
  "cw_layout (client_view sw w) = sw_layout sw" "cw_memory (client_view sw w) = sw_memory sw"
  "sw_layout (server_view w sw) = cw_layout w" "sw_memory (server_view w sw) = cw_memory w"
  by (simp_all add: client_view_def server_view_def)

lemma SendAsync_pushes:
  assumes "sv_layout sv = Mapped a" and "Layout_inv this (cw_layout w)" and "has_room p w"
  obtains sv' sw' i where "Server_SendAsync unset fid n p (sv, server_view w sw) =
      (Some (unset\<lparr>seq_id := sv_next_seq_id sv\<rparr>), sv', sw')"
    and "i \<in> set (request_ids p)" and "Layout_inv this (sw_layout sw')"
    and "\<And>j. j \<in> set queue_ids \<Longrightarrow> layout_contents (sw_layout sw', sw_memory sw') j =
      layout_contents (cw_layout w, cw_memory w) j @
        (if j = i then [\<lparr>seq_id = sv_next_seq_id sv, func_id = fid, payload_len = ucast n\<rparr>] else [])"
proof -
  let ?h = "\<lparr>seq_id = sv_next_seq_id sv, func_id = fid, payload_len = ucast n\<rparr>"
  obtain ok L m where d: "push_request p (best_worker p (cw_layout w)) ?h (cw_layout w, cw_memory w) = (ok, L, m)"
    using prod_cases3 by blast
  then have ok: "ok" and e: "Layout_inv this L" "\<forall>j \<in> set queue_ids. layout_contents (L, m) j =
      layout_contents (cw_layout w, cw_memory w) j @
        (if j = request_id p (best_worker p (cw_layout w)) then [?h] else [])"
    using push_best_effect [OF assms(2), where p = p and h = ?h and m = "cw_memory w"] assms(3)
    by (auto simp: has_room_def)
  show thesis
    by (rule that [of "sv\<lparr>sv_next_seq_id := sv_next_seq_id sv + 1, sv_requests_sent := sv_requests_sent sv + 1\<rparr>"
          "server_view w sw\<lparr>sw_layout := L, sw_memory := m\<rparr>" "request_id p (best_worker p (cw_layout w))"])
      (use d ok e assms(1) push_request_best(2) [OF assms(2), of p] in
        \<open>simp_all add: Server_SendAsync_def Server_DispatchMessage_def Server_SelectBestWorker_def Let_def\<close>)
qed

section \<open>Properties\<close>

text \<open>
  C4. The promises of a client, in every interleaving of calls, wake-ups of the poller and actions
  of the server and its workers. In every reachable state no two numbers lead to the same
  pending request, and the promise of a pending request is not fulfilled, so that the poller
  never sets a promise twice. From there, one step fulfils the promise of an existing request
  only with a response that carries the number under which the request is pending, and never
  changes a fulfilled promise.
\<close>

theorem Client_promises_invariant:
  assumes "session_inv this s0" and "client_reachable this s0 s"
  shows "inj_on (cl_pending (fst s)) (dom (cl_pending (fst s))) \<and>
    (\<forall>seq r. cl_pending (fst s) seq = Some r \<longrightarrow> pr_promise (cw_requests (snd s) r) = None) \<and>
    Layout_inv this (cw_layout (snd s)) \<and>
    (\<forall>t r. client_step this s t \<and> r < cw_next (snd s) \<longrightarrow>
       (case pr_promise (cw_requests (snd t) r) of
          None \<Rightarrow> pr_promise (cw_requests (snd s) r) = None
        | Some h \<Rightarrow> pr_promise (cw_requests (snd s) r) = Some h \<or>
            (pr_promise (cw_requests (snd s) r) = None \<and> cl_pending (fst s) (seq_id h) = Some r)))"
proof -
  have inv: "session_inv this s" by (rule session_reachable [OF assms(2,1)])
  have "case pr_promise (cw_requests (snd t) r) of
          None \<Rightarrow> pr_promise (cw_requests (snd s) r) = None
        | Some h \<Rightarrow> pr_promise (cw_requests (snd s) r) = Some h \<or>
            (pr_promise (cw_requests (snd s) r) = None \<and> cl_pending (fst s) (seq_id h) = Some r)"
    if "client_step this s t" "r < cw_next (snd s)" for t r
    using step_promises(1) [OF that(1) inv that(2)] by (auto split: option.splits)
  then show ?thesis using inv by (cases s) (auto simp: session_inv_def Client_inv_def ran_def)
qed

lemma sample_session: "session_inv 65536 (sample_client, sample_client_world)"
  using sample_client_inv fresh_layout_inv by (simp add: session_inv_def Signal_IsValid_def)

theorem Client_promises_invariant_witness:
  "inj_on (cl_pending (fst (poller_iteration 1 (sample_client, sample_client_world))))
     (dom (cl_pending (fst (poller_iteration 1 (sample_client, sample_client_world)))))"
proof -
  have "client_reachable 65536 (sample_client, sample_client_world) (poller_iteration 1 (sample_client, sample_client_world))"
    by (rule client_reachable.step [OF client_reachable.start]) (rule client_step.poller, simp)
  then show ?thesis using Client_promises_invariant [OF sample_session] by blast
qed

text \<open>
  A client connects to a started server. After a successful \<open>Start\<close> that was over before the
  supervisor's first iteration the client's \<open>Connect\<close> to
  the same segment succeeds unless one of its own system calls fails, and server and client
  then number their requests from the same value, 1.
\<close>

theorem Client_connects_to_started_server:
  assumes "se_shm_open_ok env" "se_ftruncate_ok env" "se_mmap_ok env" "se_eventfd_error env = None"
    and "0 < sint (se_fork env)" and "se_before_fork env = []" "se_after_fork env = []"
  shows "case Server_Start env (CreateIpcServer unset name, sw) of (started, sv, sw') \<Rightarrow>
    started = Some True \<and> sw_names sw' (cl_shm_name (CreateIpcClient name)) \<and>
    (case Client_Connect cenv (CreateIpcClient name, client_view sw' w) of (connected, c, w') \<Rightarrow>
       (connected \<longleftrightarrow> ct_shm_open_ok cenv \<and> ct_fstat_size cenv \<noteq> None \<and> ct_mmap_ok cenv \<and>
          ct_eventfd_error cenv = None) \<and>
       Client_inv (c, w') \<and> Layout_inv (se_this env) (cw_layout w') \<and>
       cl_next_seq_id c = 1 \<and> sv_next_seq_id sv = 1)"
proof -
  let ?sv = "CreateIpcServer unset name"
  let ?L = "initialized_layout (se_this env) Layout_RequiredSize Layout_construct"
  have "\<not> sv_running ?sv" and names: "sv_shm_name ?sv = ''/'' @ name" and one: "sv_next_seq_id ?sv = 1"
    by (simp_all add: CreateIpcServer_def Server_construct_def Server_GetDefaultConfig_def)
  from Start_effect [OF this(1) assms, of sw] obtain sv' where
    start: "Server_Start env (?sv, sw) = (Some True, sv',
      sw\<lparr>sw_names := (sw_names sw)(sv_shm_name ?sv := True), sw_layout := ?L\<rparr>)"
    and next': "sv_next_seq_id sv' = 1" using one by auto
  have inv: "Layout_inv (se_this env) ?L" by (rule initialized_inv)
  then have valid: "Layout_IsValid ?L" by (simp add: Layout_inv_def)
  have "cl_connected (CreateIpcClient name) = False" by (simp add: CreateIpcClient_def Client_construct_def)
  then show ?thesis
    using inv valid next'
    by (auto simp: start names Client_Connect_def CreateIpcClient_def Client_construct_def ShmLayoutFactory_Get_def
        Signal_Create_def Client_inv_def Let_def split: option.splits)
qed

theorem Client_connects_to_started_server_witness:
  "fst (Server_Start sample_server_env (CreateIpcServer (sv_config started_server) ''ipc'', fresh_server_world)) =
     Some True"
  using Client_connects_to_started_server [where env = sample_server_env and name = "''ipc''"
      and unset = "sv_config started_server" and sw = fresh_server_world and cenv = sample_connect_env
      and w = sample_client_world]
  by (auto simp: sample_server_env_def split: prod.splits)

text \<open>
  C32. Server and client number their requests independently, from the same value, and push them
  to the same rings. When the next numbers are equal, an asynchronous call of the client and one
  of the server, in this order, leave two requests with the same number in the request rings of
  the group, and the client's future is fulfilled with the first response to that number,
  be it the answer to the server's request.
\<close>

theorem Session_numbers_collide:
  assumes "cl_connected c" and "Layout_inv this (cw_layout w)" and "Client_inv (c, w)" and "has_room p w"
    and "Signal_IsValid (cl_response_signal c)" and "0 < arrivals"
    and "sv_layout sv = Mapped a" and "sv_next_seq_id sv = cl_next_seq_id c"
    and "has_room p (snd (snd (Client_CallAsync unset fid n p (c, w))))"
    and "Layout_inv this L'" and "waiting_responses (L', m') = h # hs" and "seq_id h = sv_next_seq_id sv"
  shows "case Client_CallAsync unset fid n p (c, w) of (future, c1, w1) \<Rightarrow>
    (case Server_SendAsync unset' fid' n' p (sv, server_view w1 sw) of (_, _, sw1) \<Rightarrow>
      (\<exists>i \<in> set (request_ids p). \<lparr>seq_id = seq_id h, func_id = fid, payload_len = ucast n\<rparr>
         \<in> set (layout_contents (sw_layout sw1, sw_memory sw1) i)) \<and>
      (\<exists>i \<in> set (request_ids p). \<lparr>seq_id = seq_id h, func_id = fid', payload_len = ucast n'\<rparr>
         \<in> set (layout_contents (sw_layout sw1, sw_memory sw1) i)) \<and>
      (case future of
         Fulfilled _ \<Rightarrow> False
       | Awaiting r \<Rightarrow>
           pr_promise (cw_requests (snd (poller_iteration arrivals (workers_act L' m' (c1, w1)))) r) = Some h))"
proof -
  let ?seq = "cl_next_seq_id c"
  obtain L m where a: "Client_CallAsync unset fid n p (c, w) =
      (Awaiting (cw_next w),
       c\<lparr>cl_next_seq_id := ?seq + 1, cl_pending := (cl_pending c)(?seq \<mapsto> cw_next w),
         cl_requests_sent := cl_requests_sent c + 1\<rparr>,
       w\<lparr>cw_requests := (cw_requests w)(cw_next w := new_request unset), cw_next := Suc (cw_next w),
         cw_layout := L, cw_memory := m\<rparr>)" (is "_ = (_, ?c, ?w)")
    and L: "Layout_inv this L"
    and q: "\<And>j. j \<in> set queue_ids \<Longrightarrow> layout_contents (L, m) j =
      layout_contents (cw_layout w, cw_memory w) j @
        (if j = request_id p (best_worker p (cw_layout w))
         then [\<lparr>seq_id = ?seq, func_id = fid, payload_len = ucast n\<rparr>] else [])"
    using CallAsync_effect [OF assms(1-4)] by blast
  have d: "request_id p (best_worker p (cw_layout w)) \<in> set (request_ids p)"
    by (rule push_request_best(2) [OF assms(2)])
  note in_queues = subsetD [OF request_ids_subset, of _ p]
  have L1: "Layout_inv this (cw_layout ?w)" and room: "has_room p ?w" using L assms(9) by (simp_all add: a)
  obtain sv' sw' i where s: "Server_SendAsync unset' fid' n' p (sv, server_view ?w sw) =
      (Some (unset'\<lparr>seq_id := sv_next_seq_id sv\<rparr>), sv', sw')" and i: "i \<in> set (request_ids p)"
    and q': "\<And>j. j \<in> set queue_ids \<Longrightarrow> layout_contents (sw_layout sw', sw_memory sw') j =
      layout_contents (cw_layout ?w, cw_memory ?w) j @
        (if j = i then [\<lparr>seq_id = sv_next_seq_id sv, func_id = fid', payload_len = ucast n'\<rparr>] else [])"
    by (rule SendAsync_pushes [OF assms(7) L1 room, of unset' fid' n' sw]) blast
  let ?w2 = "?w\<lparr>cw_layout := L', cw_memory := m'\<rparr>"
  obtain c2 w2 where it: "poller_iteration arrivals (?c, ?w2) = (c2, w2)" by (cases "poller_iteration arrivals (?c, ?w2)")
  have inj: "inj_on (cl_pending ?c) (dom (cl_pending ?c))" by (rule Client_inv_inj [OF register_inv [OF assms(3)]])
  have now: "cl_pending ?c ?seq = Some (cw_next w)" "Layout_inv this (cw_layout ?w2)"
    "Signal_IsValid (cl_response_signal ?c)" "cl_connected ?c"
    using assms(1,5,10) by simp_all
  have "cw_requests w2 (cw_next w) = answered h"
    using iteration_answers(1) [OF it now(1,2) inj now(3) assms(6) now(4)] assms(8,11,12) by simp
  then have "pr_promise (cw_requests (snd (poller_iteration arrivals (workers_act L' m' (?c, ?w)))) (cw_next w)) = Some h"
    using it by (simp add: workers_act_def answered_def)
  moreover have "\<lparr>seq_id = seq_id h, func_id = fid, payload_len = ucast n\<rparr> \<in>
      set (layout_contents (sw_layout sw', sw_memory sw') (request_id p (best_worker p (cw_layout w))))"
    using q [OF in_queues [OF d]] q' [OF in_queues [OF d]] assms(8,12) by simp
  moreover have "\<lparr>seq_id = seq_id h, func_id = fid', payload_len = ucast n'\<rparr> \<in>
      set (layout_contents (sw_layout sw', sw_memory sw') i)"
    using q' [OF in_queues [OF i]] assms(12) by simp
  ultimately show ?thesis using d i by (simp add: a s) blast
qed

lemma sample_room_after_call:
  "has_room kLow (snd (snd (Client_CallAsync sample_header 5 0 kLow (sample_client, sample_client_world))))"
proof -
  obtain c' w' f where a: "Client_CallAsync sample_header 5 0 kLow (sample_client, sample_client_world) = (f, c', w')"
    and q: "\<And>j. j \<in> set queue_ids \<Longrightarrow> layout_contents (cw_layout w', cw_memory w') j =
      layout_contents (fresh_layout, \<lambda>_. 0) j @
        (if j = request_id kLow (best_worker kLow fresh_layout)
         then [\<lparr>seq_id = 1, func_id = 5, payload_len = ucast (0 :: u64)\<rparr>] else [])"
    by (rule CallAsync_effect [where c = sample_client and w = sample_client_world and this = 65536 and p = kLow
          and unset = sample_header and fid = 5 and n = 0])
      (use fresh_layout_inv sample_client_inv sample_room in \<open>auto\<close>)
  have i: "NormalRequest 1 \<in> set queue_ids" by (simp add: queue_ids_def layout_consts upt_conv_Cons)
  have "layout_contents (cw_layout w', cw_memory w') (NormalRequest 1) = []"
    using q [OF i] fresh_layout_empty [OF i] by (simp add: fresh_layout_best)
  then show ?thesis by (simp add: a has_room_def request_ids_values layout_consts)
qed

theorem Session_numbers_collide_witness:
  "case Client_CallAsync sample_header 5 0 kLow (sample_client, sample_client_world) of (future, s) \<Rightarrow>
     (case responded \<lparr>seq_id = 1, func_id = 77, payload_len = 3\<rparr> of (L, m) \<Rightarrow>
        (case future of
           Fulfilled _ \<Rightarrow> False
         | Awaiting r \<Rightarrow> pr_promise (cw_requests (snd (poller_iteration 1 (workers_act L m s))) r) =
             Some \<lparr>seq_id = 1, func_id = 77, payload_len = 3\<rparr>))"
proof -
  obtain L m where r: "responded \<lparr>seq_id = 1, func_id = 77, payload_len = 3\<rparr> = (L, m)" "Layout_inv 65536 L"
    "waiting_responses (L, m) = [\<lparr>seq_id = 1, func_id = 77, payload_len = 3\<rparr>]" by (rule responded)
  have "Signal_IsValid (cl_response_signal sample_client)" by (simp add: Signal_IsValid_def)
  then show ?thesis
    using Session_numbers_collide [where c = sample_client and this = 65536 and w = sample_client_world
        and p = kLow and arrivals = 1 and sv = started_server and a = 65536 and unset = sample_header and fid = 5
        and n = 0 and L' = L and m' = m and h = "\<lparr>seq_id = 1, func_id = 77, payload_len = 3\<rparr>" and hs = "[]"
        and unset' = sample_header and fid' = 77 and n' = 0 and sw = fresh_server_world]
      fresh_layout_inv sample_client_inv sample_room sample_room_after_call r
    by (auto split: prod.splits response_future.splits)
qed

end
