(* ===== verification/Example_Programs.thy ===== *)
theory Example_Programs
  imports Ipc_System Ipc_Session
begin

text \<open>
  The programs of \<open>examples/\<close>: \<open>hello_world.cpp\<close>, \<open>ipc_client_example.cpp\<close>,
  \<open>ipc_server_example.cpp\<close> with its two request handlers, \<open>simple_producer.cpp\<close> and
  \<open>simple_consumer.cpp\<close>. A program's result is how it ends and what it printed, and for the last two
  the world they leave. What other processes do while a program sleeps or waits is an argument.
\<close>

datatype program_end = Exits int | Aborts cpp_exception | Undefined_behaviour | Still_running

definition line :: "string \<Rightarrow> string" where
  "line s = s @ newline"

definition number :: "'a::len word \<Rightarrow> string" where
  "number w = digits_of (unat w)"

section \<open>Hello world\<close>

text \<open>\<open>offsetof\<close>: what the members in front take up.\<close>

definition MsgHeader_offsetof_seq_id :: nat where "MsgHeader_offsetof_seq_id = 0"
definition MsgHeader_offsetof_func_id :: nat where "MsgHeader_offsetof_func_id = MsgHeader_offsetof_seq_id + 8"
definition MsgHeader_offsetof_payload_len :: nat where
  "MsgHeader_offsetof_payload_len = MsgHeader_offsetof_func_id + 4"

definition hello_world_main :: "program_end \<times> string" where
  "hello_world_main =
     (let layout_size = Layout_RequiredSize
      in (Exits 0,
          line ''PhoenixIPC Hello World Example'' @
          line ''This example demonstrates the shared memory layout.'' @
          line (''PhoenixShmLayout size: '' @ number layout_size @ '' bytes'') @
          line (newline @ ''Configuration:'') @
          line (''  Normal workers: '' @ digits_of kNormalWorkerCount) @
          line (''  Normal queue capacity: '' @ number kNormalQueueCapacity) @
          line (''  VIP workers: '' @ digits_of kVipWorkerCount) @
          line (''  VIP queue capacity: '' @ number kVipQueueCapacity) @
          line (''  Cache line size: '' @ number Layout_kCacheLineSize @ '' bytes'') @
          line (newline @ ''MsgHeader structure:'') @
          line (''  Size: '' @ number (size_of MsgHeader_type) @ '' bytes'') @
          line (''  seq_id: '' @ digits_of MsgHeader_offsetof_seq_id) @
          line (''  func_id: '' @ digits_of MsgHeader_offsetof_func_id) @
          line (''  payload_len: '' @ digits_of MsgHeader_offsetof_payload_len) @
          line (newline @ ''Hello World example completed successfully!'')))"

section \<open>The client example\<close>

text \<open>The client is destroyed when \<open>main\<close> returns.\<close>

definition ipc_client_example_main :: "client_world \<Rightarrow> program_end \<times> string" where
  "ipc_client_example_main w =
     (let client = CreateIpcClient ''/test_ipc'';
          stats = Client_GetStats client;
          out =
            line ''PhoenixIPC Client Example'' @
            line ''========================='' @
            line (newline @ ''Initial client stats:'') @
            line (''  Requests sent: '' @ number (cs_requests_sent stats)) @
            line (''  Responses received: '' @ number (cs_responses_received stats)) @
            line (''  Timeouts: '' @ number (cs_timeouts stats)) @
            line (''  Errors: '' @ number (cs_errors stats)) @
            line (newline @ ''Note: To connect, the server must be running.'') @
            line ''This example demonstrates the API surface only.'' @
            line (newline @ ''Available API:'') @
            line ''  IpcClient::Connect(timeout_ms) - Connect to server'' @
            line ''  IpcClient::Disconnect() - Disconnect from server'' @
            line ''  IpcClient::IsConnected() - Check connection status'' @
            line ''  IpcClient::Call(func_id, payload, size, priority, timeout) - Synchronous call'' @
            line ''  IpcClient::CallAsync(...) - Asynchronous call returning std::future'' @
            line ''  IpcClient::GetStats() - Get client statistics''
      in case Client_destroy (client, w) of
           (Some _, _) \<Rightarrow> (Exits 0, out)
         | (None, _) \<Rightarrow> (Still_running, out))"

section \<open>The server example\<close>

text \<open>
  The handlers get pointers. The payload is null or the bytes there are; the response payload is
  the room behind its pointer. The result is what they print, the response header and the response
  payload; None is undefined behaviour: an access past the bytes there are, or an overflow of a
  signed addition.
\<close>

definition HandleEcho ::
  "MsgHeader \<Rightarrow> u8 list option \<Rightarrow> MsgHeader \<Rightarrow> u8 list \<Rightarrow> (string \<times> MsgHeader \<times> u8 list) option" where
  "HandleEcho request payload response response_payload =
     (let out = line (''Worker received request: func_id='' @ number (func_id request) @
            '', seq_id='' @ number (seq_id request));
          response = \<lparr>seq_id = seq_id request, func_id = func_id request, payload_len = payload_len request\<rparr>;
          n = unat (payload_len request)
      in case payload of
           None \<Rightarrow> Some (out, response, response_payload)
         | Some bytes \<Rightarrow>
             if payload_len request > 0
             then if n \<le> length bytes \<and> n \<le> length response_payload
                  then Some (out, response, take n bytes @ drop n response_payload) else None
             else Some (out, response, response_payload))"

definition int64_at :: "u8 list \<Rightarrow> nat \<Rightarrow> int option" where
  "int64_at bytes k =
     (if k + 8 \<le> length bytes then Some (sint (le_value (take 8 (drop k bytes)) :: u64)) else None)"

definition add_int64 :: "int \<Rightarrow> int \<Rightarrow> int option" where
  "add_int64 a b = (if - (2 ^ 63) \<le> a + b \<and> a + b < 2 ^ 63 then Some (a + b) else None)"

definition HandleAdd ::
  "MsgHeader \<Rightarrow> u8 list option \<Rightarrow> MsgHeader \<Rightarrow> u8 list \<Rightarrow> (string \<times> MsgHeader \<times> u8 list) option" where
  "HandleAdd request payload response response_payload =
     (let out = line (''Worker received ADD request: seq_id='' @ number (seq_id request))
      in if payload_len request \<ge> 8
         then case payload of
                None \<Rightarrow> None
              | Some bytes \<Rightarrow>
                  (case (int64_at bytes 0, int64_at bytes 8) of
                     (Some a, Some b) \<Rightarrow>
                       (case add_int64 a b of
                          None \<Rightarrow> None
                        | Some result \<Rightarrow>
                            let response = \<lparr>seq_id = seq_id request, func_id = func_id request, payload_len = 8\<rparr>
                            in if 8 \<le> length response_payload
                               then Some (out @ line (''  '' @ int_digits a @ '' + '' @ int_digits b @ '' = '' @ int_digits result),
                                          response, le_bytes 8 (of_int result :: u64) @ drop 8 response_payload)
                               else None)
                   | _ \<Rightarrow> None)
         else Some (out, response, response_payload))"

text \<open>\<open>unset\<close> is what the uninitialised arrays of the configuration hold.\<close>

definition ipc_server_example_main :: "ServerConfig \<Rightarrow> program_end \<times> string" where
  "ipc_server_example_main unset =
     (let config = unset\<lparr>cf_shm_name := ''/test_ipc'', cf_shm_size := 0, cf_worker_timeout_us := 5000000,
            cf_max_pending_requests := 10000, cf_enable_cpu_affinity := False\<rparr>
      in (Exits 0,
          line ''PhoenixIPC Server Example'' @
          line ''========================='' @
          line (newline @ ''Server configuration:'') @
          line (''  Shared memory: '' @ cf_shm_name config) @
          line (''  Worker timeout: '' @ number (cf_worker_timeout_us config) @ '' us'') @
          line (''  Max pending: '' @ number (cf_max_pending_requests config)) @
          line (''  CPU affinity: '' @ (if cf_enable_cpu_affinity config then ''enabled'' else ''disabled'')) @
          line (newline @ ''Note: To fully test, compile with a worker executable.'') @
          line ''This example demonstrates the API surface only.''))"

section \<open>The producer example\<close>

definition kCoordFilePath :: string where "kCoordFilePath = ''/tmp/phoenix_ipc_example.coord''"

text \<open>What \<open>snprintf\<close> leaves up to the terminating zero; it fits the buffer.\<close>

definition example_payload :: "nat \<Rightarrow> u8 list" where
  "example_payload i = map of_char (''Hello from producer - message '' @ digits_of i)"

text \<open>The loop, from message \<open>i\<close>, \<open>k\<close> times; \<open>meanwhile i\<close> is what happens to the world during the sleep
  after message \<open>i\<close>. Output and error output are kept apart.\<close>

fun send_messages ::
  "(nat \<Rightarrow> ipc_world \<Rightarrow> ipc_world) \<Rightarrow> nat \<Rightarrow> nat \<Rightarrow> ProducerImpl \<times> ipc_world \<Rightarrow>
   string \<times> string \<times> ProducerImpl \<times> ipc_world" where
  "send_messages meanwhile i 0 s = ([], [], s)"
| "send_messages meanwhile i (Suc k) s =
     (let payload = example_payload i;
          (result, p, w) = Producer_Send (of_nat i) (Some payload) (of_nat (length payload)) s;
          (out, err, s) = send_messages meanwhile (Suc i) k (p, meanwhile i w)
      in if result = Some Send_kSuccess
         then (line (''  Sent message '' @ digits_of i) @ out, err, s)
         else (out, line (''  Failed to send message '' @ digits_of i) @ err, s))"

text \<open>\<open>producer->GetLastError()\<close> on a null pointer is undefined. The producer is destroyed when \<open>main\<close>
  returns.\<close>

definition simple_producer_main ::
  "producer_env \<Rightarrow> (nat \<Rightarrow> ipc_world \<Rightarrow> ipc_world) \<Rightarrow> ipc_world \<Rightarrow> program_end \<times> string \<times> string \<times> ipc_world" where
  "simple_producer_main env meanwhile w =
     (let banner = line ''=== PhoenixIPC Simple Producer ===''
      in case Producer_Create env kCoordFilePath 1024 (32 * 1024) w of
           (None, w) \<Rightarrow> (Undefined_behaviour, banner, line ''Failed to create producer'' @ ''Error: '', w)
         | (Some p, w) \<Rightarrow>
             let intro =
                   line ''Producer created successfully!'' @
                   line (''  Shared memory: '' @ Producer_GetShmName p) @
                   line (''  Queue capacity: '' @ number (Producer_QueueCapacity p w)) @
                   line (''  Payload size: '' @ Producer_GetShmName p @ '' bytes'') @
                   line (newline @ ''Sending messages...'');
                 (out, err, p, w) = send_messages meanwhile 1 10 (p, w);
                 outro =
                   line (newline @ ''Producer finished sending messages.'') @
                   line (''Available space: '' @ number (Producer_AvailableSpace p w)) @
                   line ''Run simple_consumer to receive messages.''
             in (Exits 0, banner @ intro @ out @ outro, err, Producer_destroy env (p, w)))"

section \<open>The consumer example\<close>

text \<open>
  One round of the loop: the clock at the loop's test, and what the blocking receive sees. The buffer
  has 32 KiB; a receive that copies more, or a header that promises more than the buffer has, makes
  the behaviour undefined. The loop is still running when the rounds are used up.
\<close>

record consumer_round =
  cr_now :: nat
  cr_start :: nat
  cr_polls :: "receive_poll list"
  cr_kill0 :: "pid \<Rightarrow> bool"
  cr_meanwhile :: "Segment \<Rightarrow> Segment"

definition buffer_size :: nat where "buffer_size = 32 * 1024"

definition received_text :: "nat \<Rightarrow> MsgHeader \<Rightarrow> u8 list \<Rightarrow> string" where
  "received_text k header buffer =
     line (''Received message '' @ digits_of k @ '':'') @
     line (''  Function ID: '' @ number (func_id header)) @
     line (''  Payload length: '' @ number (payload_len header) @ '' bytes'') @
     (if payload_len header > 0
      then line (''  Payload: '' @ map (\<lambda>b. char_of (unat b)) (take (unat (payload_len header)) buffer)) else [])"

fun receive_messages ::
  "nat \<Rightarrow> consumer_round list \<Rightarrow> nat \<Rightarrow> u8 list \<Rightarrow> ConsumerImpl \<times> ipc_world \<Rightarrow>
   program_end \<times> string \<times> nat \<times> ConsumerImpl \<times> ipc_world" where
  "receive_messages start [] k buffer s = (Still_running, [], k, s)"
| "receive_messages start (r # rs) k buffer s =
     (if \<not> cr_now r - start < 5000000000 then (Exits 0, [], k, s)
      else case Consumer_ReceiveBlocking True 1000 (cr_start r) (cr_polls r) (cr_kill0 r) (cr_meanwhile r) s of
             (None, s) \<Rightarrow> (Still_running, [], k, s)
           | (Some (Some header, bytes), s) \<Rightarrow>
               if buffer_size < length bytes \<or> buffer_size < unat (payload_len header)
               then (Undefined_behaviour, [], k, s)
               else let buffer = bytes @ drop (length bytes) buffer;
                        (e, out, k', s) = receive_messages start rs (Suc k) buffer s
                    in (e, received_text (Suc k) header buffer @ out, k', s)
           | (Some (None, _), s) \<Rightarrow>
               if Consumer_AvailableMessages (fst s) (snd s) = 0
               then (Exits 0, line ''No messages available and producer may have exited.'', k, s)
               else receive_messages start rs k buffer s)"

text \<open>An exception of \<open>Attach\<close> leaves \<open>main\<close>. The consumer is destroyed when \<open>main\<close> returns. \<open>unset\<close> is
  what the uninitialised buffer holds.\<close>

definition simple_consumer_main ::
  "consumer_env \<Rightarrow> nat \<Rightarrow> consumer_round list \<Rightarrow> u8 list \<Rightarrow> ipc_world \<Rightarrow>
   program_end \<times> string \<times> string \<times> ipc_world" where
  "simple_consumer_main env start_time rounds unset w =
     (let banner = line ''=== PhoenixIPC Simple Consumer ===''
      in case Consumer_Attach env kCoordFilePath w of
           (Inl e, w) \<Rightarrow> (Aborts e, banner, [], w)
         | (Inr None, w) \<Rightarrow> (Exits 1, banner, line ''Failed to attach to consumer'', w)
         | (Inr (Some c), w) \<Rightarrow>
             let intro =
                   line ''Consumer attached successfully!'' @
                   line (''  Shared memory: '' @ Consumer_GetShmName c) @
                   line (''  Queue capacity: '' @ number (Consumer_QueueCapacity c w)) @
                   line (''  Payload size: '' @ number (Consumer_GetPayloadSize c w) @ '' bytes'') @
                   line (newline @ ''Waiting for messages (timeout 5 seconds)...'');
                 (e, out, k, c, w) = receive_messages start_time rounds 0 unset (c, w)
             in if e \<noteq> Exits 0 then (e, banner @ intro @ out, [], w)
                else (Exits 0,
                  banner @ intro @ out @
                  line (newline @ ''Consumer received '' @ digits_of k @ '' messages total.'') @
                  line (''Remaining messages in queue: '' @ number (Consumer_AvailableMessages c w)),
                  [], Consumer_destroy (c, w)))"

section \<open>What the sends of the producer example do\<close>

lemma length_example_payload: "j < 100 \<Longrightarrow> length (example_payload j) \<le> 32"
  using length_digits_of [of j 1] by (simp add: example_payload_def)

lemma send_messages_quiet:
  assumes p: "pi_layout p = Mapped i" "pi_valid p" and inv: "segment_inv (k + n) (w_segments w i)"
    and room: "length (segment_queue (w_segments w i)) + k \<le> unat (sl_queue_capacity (sg_layout (w_segments w i)))"
    and fits: "32 \<le> unat (sl_payload_size (sg_layout (w_segments w i)))" and few: "m + k \<le> 100"
  shows "\<exists>g. send_messages (\<lambda>_ w. w) m k (p, w) =
      (concat (map (\<lambda>j. line (''  Sent message '' @ digits_of j)) [m..<m + k]), [], p, update_segment i (\<lambda>_. g) w) \<and>
    segment_inv n g \<and>
    segment_queue g = segment_queue (w_segments w i) @ map (\<lambda>j. message (of_nat j) (example_payload j)) [m..<m + k] \<and>
    (0 < k \<longrightarrow> (\<forall>l \<le> length (example_payload (m + k - 1)). segment_payload l g = take l (example_payload (m + k - 1)))) \<and>
    sl_producer_pid (sg_layout g) = sl_producer_pid (sg_layout (w_segments w i))"
  using assms
proof (induction k arbitrary: m w)
  case 0
  then show ?case by (intro exI [of _ "w_segments w i"]) (simp add: update_segment_same)
next
  case (Suc k)
  let ?g = "w_segments w i" and ?bs = "example_payload m"
  have len: "length ?bs \<le> 32" using Suc.prems(6) by (intro length_example_payload) simp
  have "segment_inv (Suc (k + n)) ?g" using Suc.prems(3) by simp
  moreover have "length (segment_queue ?g) < unat (sl_queue_capacity (sg_layout ?g))" using Suc.prems(4) by linarith
  moreover have "length ?bs \<le> unat (sl_payload_size (sg_layout ?g))" "length ?bs < 2 ^ 32"
    using len Suc.prems(5) by simp_all
  ultimately obtain g1 where send: "Producer_Send (of_nat m) (Some ?bs) (of_nat (length ?bs)) (p, w) =
      (Some Send_kSuccess, p, update_segment i (\<lambda>_. g1) w)"
    and inv1: "segment_inv (k + n) g1" and queue1: "segment_queue g1 = segment_queue ?g @ [message (of_nat m) ?bs]"
    and pay1: "\<forall>l \<le> length ?bs. segment_payload l g1 = take l ?bs"
    and layout1: "sg_layout g1 = (sg_layout ?g)\<lparr>sl_write_idx := sl_write_idx (sg_layout ?g) + 1\<rparr>"
    using send_ok [OF Suc.prems(1,2), of "k + n" w ?bs "of_nat m"] by blast
  let ?w1 = "update_segment i (\<lambda>_. g1) w"
  from Suc.IH [OF Suc.prems(1,2), of ?w1 "Suc m"] obtain g where
    rest: "send_messages (\<lambda>_ w. w) (Suc m) k (p, ?w1) =
      (concat (map (\<lambda>j. line (''  Sent message '' @ digits_of j)) [Suc m..<Suc m + k]), [], p, update_segment i (\<lambda>_. g) ?w1)"
    and g: "segment_inv n g" "segment_queue g = segment_queue g1 @
        map (\<lambda>j. message (of_nat j) (example_payload j)) [Suc m..<Suc m + k]"
      "0 < k \<longrightarrow> (\<forall>l \<le> length (example_payload (Suc m + k - 1)). segment_payload l g = take l (example_payload (Suc m + k - 1)))"
      "sl_producer_pid (sg_layout g) = sl_producer_pid (sg_layout g1)"
    using inv1 queue1 layout1 Suc.prems(4-6) by auto
  have upt: "[m..<m + Suc k] = m # [Suc m..<Suc m + k]" by (simp add: upt_conv_Cons)
  show ?case
  proof (cases "k = 0")
    case True
    then show ?thesis
      using send inv1 queue1 pay1 layout1 by (intro exI [of _ g1]) (simp add: line_def)
  next
    case False
    then show ?thesis
      using send rest g queue1 layout1 unfolding upt by (intro exI [of _ g]) simp
  qed
qed

text \<open>The producer example up to its return, on a world where nothing fails.\<close>

lemma producer_example_sends:
  assumes env: "creation_possible env kCoordFilePath w"
  obtains w0 g where
    "Producer_Create env kCoordFilePath 1024 (32 * 1024) w =
       (Some (created_producer env kCoordFilePath 1024 (32 * 1024) (w_next w)), w0)"
    and "send_messages (\<lambda>_ w. w) 1 10 (created_producer env kCoordFilePath 1024 (32 * 1024) (w_next w), w0) =
       (concat (map (\<lambda>j. line (''  Sent message '' @ digits_of j)) [1..<11]), [],
        created_producer env kCoordFilePath 1024 (32 * 1024) (w_next w), update_segment (w_next w) (\<lambda>_. g) w0)"
    and "segment_queue g = map (\<lambda>j. message (of_nat j) (example_payload j)) [1..<11]"
    and "segment_inv 0 g" and "\<forall>l \<le> length (example_payload 10). segment_payload l g = take l (example_payload 10)"
    and "w_shm_names w0 = (w_shm_names w)(generated_name env \<mapsto> w_next w)"
    and "w_files w0 = (w_files w)(kCoordFilePath \<mapsto>
      Coord_json (Producer_metadata env 1024 (32 * 1024) (created_producer env kCoordFilePath 1024 (32 * 1024) (w_next w))))"
    and "Simplified_GetProducerPid (sg_layout g) = pe_pid env"
proof -
  let ?i = "w_next w" and ?c = "1024 :: u64" and ?n = "32 * 1024 :: u64"
  let ?p = "created_producer env kCoordFilePath ?c ?n ?i"
  have fits: "320 + 16 * unat ?c + unat ?n < 2 ^ 64" and pos: "0 < unat ?c" by simp_all
  from Create_succeeds [OF env fits pos] obtain w0 L where
    create: "Producer_Create env kCoordFilePath ?c ?n w = (Some ?p, w0)"
    and seg: "w_segments w0 ?i = \<lparr>sg_size = Simplified_CalculateSize ?c ?n, sg_layout = L, sg_memory = (\<lambda>_. 0)\<rparr>"
    and init: "Simplified_Initialize (pe_layout_time env) (Simplified_CalculateSize ?c ?n) ?c ?n (pe_pid env)
      Simplified_construct = (True, L)"
    and names: "w_shm_names w0 = (w_shm_names w)(pi_shm_name ?p \<mapsto> ?i)"
    and files: "w_files w0 = (w_files w)(kCoordFilePath \<mapsto> Coord_json (Producer_metadata env ?c ?n ?p))" by blast
  have room: "320 + 16 * unat ?c + unat ?n \<le> unat (Simplified_CalculateSize ?c ?n)"
    using CalculateSize_exact [OF fits] by simp
  note facts = Initialize_inv [OF fits room pos init, of 10]
  have empty: "segment_queue (w_segments w0 ?i) = []"
    using facts(2) seg by (simp add: segment_queue_def Simplified_contents_def idx_contents_def Simplified_IsEmpty_def)
  have "segment_inv (10 + 0) (w_segments w0 ?i)" using facts(1) seg by (simp add: segment_inv_def)
  then obtain g where
    sends: "send_messages (\<lambda>_ w. w) 1 10 (?p, w0) =
      (concat (map (\<lambda>j. line (''  Sent message '' @ digits_of j)) [1..<11]), [], ?p, update_segment ?i (\<lambda>_. g) w0)"
    and g: "segment_inv 0 g" "segment_queue g = map (\<lambda>j. message (of_nat j) (example_payload j)) [1..<11]"
      "\<forall>l \<le> length (example_payload 10). segment_payload l g = take l (example_payload 10)"
    and pid: "sl_producer_pid (sg_layout g) = sl_producer_pid L"
    using send_messages_quiet [of ?p ?i 10 0 w0 1] empty seg facts(3,4) by auto
  have "Simplified_GetProducerPid (sg_layout g) = pe_pid env"
    using pid facts(5) by (simp add: Simplified_GetProducerPid_def pid_roundtrip)
  moreover have "pi_shm_name ?p = generated_name env" by (simp add: created_producer_def generated_name_def)
  ultimately show thesis using that [OF create sends g(2,1,3)] names files by simp
qed

section \<open>What the consumer example receives\<close>

definition popped :: "Segment \<Rightarrow> Segment" where
  "popped g = g\<lparr>sg_layout := Simplified_ForceAdvanceReadIndex 1 (sg_layout g)\<rparr>"





lemma segment_payload_popped [simp]: "segment_payload n (popped g) = segment_payload n g"
  by (simp add: popped_def segment_payload_def Simplified_GetPayload_def Simplified_ForceAdvanceReadIndex_def)




text \<open>The text for a list of headers that are received with the same payload buffer.\<close>

definition received_texts :: "nat \<Rightarrow> Segment \<Rightarrow> MsgHeader list \<Rightarrow> string" where
  "received_texts k g hs = concat (map (\<lambda>(j, h). received_text j h (segment_payload (unat (payload_len h)) g))
     (zip [Suc k..<Suc k + length hs] hs))"

lemma received_texts_simps [simp]:
  "received_texts k g [] = []"
  "received_texts k g (h # hs) =
     received_text (Suc k) h (segment_payload (unat (payload_len h)) g) @ received_texts (Suc k) g hs"
proof -
  have "[Suc k..<Suc k + length (h # hs)] = Suc k # [Suc (Suc k)..<Suc (Suc k) + length hs]"
    using upt_conv_Cons [of "Suc k" "Suc k + length (h # hs)"] by (simp del: upt_Suc)
  then show "received_texts k g (h # hs) =
      received_text (Suc k) h (segment_payload (unat (payload_len h)) g) @ received_texts (Suc k) g hs"
    by (simp only: received_texts_def zip_Cons_Cons list.map concat.simps prod.case)
qed (simp add: received_texts_def)

lemma received_texts_popped [simp]: "received_texts k (popped g) hs = received_texts k g hs"
  by (simp add: received_texts_def)




section \<open>Properties\<close>

text \<open>
  \<open>HandleAdd\<close> of a payload that has exactly the announced number of bytes. A shorter request
  than 8 bytes is ignored and the response left as it was; from 16 bytes on the response carries
  the sum of the two numbers, unless it overflows; but from 8 to 15 bytes, which the handler's
  test lets through, the second number is read past the end of the payload.
\<close>

theorem HandleAdd_outcomes:
  assumes "length bytes = unat (payload_len request)" and "8 \<le> length room"
  shows "let a = sint (le_value (take 8 bytes) :: u64); b = sint (le_value (take 8 (drop 8 bytes)) :: u64)
     in case HandleAdd request (Some bytes) response room of
          None \<Rightarrow> 8 \<le> payload_len request \<and> (payload_len request < 16 \<or> a + b < - (2 ^ 63) \<or> 2 ^ 63 \<le> a + b)
        | Some (out, response', room') \<Rightarrow>
            if payload_len request < 8 then response' = response \<and> room' = room
            else 16 \<le> payload_len request \<and> payload_len response' = 8 \<and> seq_id response' = seq_id request \<and>
                 sint (le_value (take 8 room') :: u64) = a + b \<and> drop 8 room' = drop 8 room"
proof -
  have sum: "sint (le_value (le_bytes 8 (of_int r :: u64)) :: u64) = r" if "- (2 ^ 63) \<le> r" "r < 2 ^ 63" for r
    using that by (simp add: signed_of_int signed_take_bit_int_eq_self)
  have len: "8 \<le> payload_len request \<longleftrightarrow> 8 \<le> length bytes" "16 \<le> payload_len request \<longleftrightarrow> 16 \<le> length bytes"
    using assms(1) by (simp_all add: word_le_nat_alt)
  have "sint (x + y) = sint x + sint y" if "- (2 ^ 63) \<le> sint x + sint y" "sint x + sint y < 2 ^ 63" for x y :: u64
    using sum [OF that] by simp
  with len show ?thesis
    using assms(2)
    by (auto simp: HandleAdd_def Let_def int64_at_def add_int64_def not_less [symmetric] split: if_splits)
qed

theorem HandleAdd_outcomes_witness:
  "HandleAdd \<lparr>seq_id = 7, func_id = 2, payload_len = 8\<rparr> (Some (le_bytes 8 (1 :: u64))) h (replicate 8 0) = None"
  using HandleAdd_outcomes [of "le_bytes 8 (1 :: u64)" "\<lparr>seq_id = 7, func_id = 2, payload_len = 8\<rparr>" "replicate 8 0" h]
  by (auto simp: Let_def split: option.splits)

text \<open>
  The two examples run as they are documented, the producer to its end and then the consumer: the
  producer sends all ten messages without an error and they are queued in its segment, but its
  destructor deletes the coordination file, and the consumer fails to attach and exits with 1,
  leaving the messages where they are.
\<close>

theorem Examples_in_sequence:
  assumes "creation_possible env kCoordFilePath w" and "pe_unlink_ok env"
  shows "case simple_producer_main env (\<lambda>_ w. w) w of (e, out, err, w1) \<Rightarrow>
    e = Exits 0 \<and> err = [] \<and> w_files w1 = (w_files w)(kCoordFilePath := None) \<and>
    segment_queue (w_segments w1 (w_next w)) = map (\<lambda>j. message (of_nat j) (example_payload j)) [1..<11] \<and>
    (case simple_consumer_main cenv t rounds unset w1 of (e2, out2, err2, w2) \<Rightarrow>
       e2 = Exits 1 \<and> err2 = line ''Failed to attach to consumer'' \<and> w2 = w1)"
proof -
  let ?p = "created_producer env kCoordFilePath 1024 (32 * 1024) (w_next w)"
  obtain w0 g where
    create: "Producer_Create env kCoordFilePath 1024 (32 * 1024) w = (Some ?p, w0)"
    and sends: "send_messages (\<lambda>_ w. w) 1 10 (?p, w0) =
       (concat (map (\<lambda>j. line (''  Sent message '' @ digits_of j)) [1..<11]), [], ?p, update_segment (w_next w) (\<lambda>_. g) w0)"
    and queue: "segment_queue g = map (\<lambda>j. message (of_nat j) (example_payload j)) [1..<11]"
    and "segment_inv 0 g" "\<forall>l \<le> length (example_payload 10). segment_payload l g = take l (example_payload 10)"
    and "w_shm_names w0 = (w_shm_names w)(generated_name env \<mapsto> w_next w)"
    and files: "w_files w0 = (w_files w)(kCoordFilePath \<mapsto> Coord_json (Producer_metadata env 1024 (32 * 1024) ?p))"
    and "Simplified_GetProducerPid (sg_layout g) = pe_pid env"
    by (rule producer_example_sends [OF assms(1)])
  let ?w1 = "Producer_destroy env (?p, update_segment (w_next w) (\<lambda>_. g) w0)"
  have path: "pi_coord_file_path ?p = kCoordFilePath" "kCoordFilePath \<noteq> []"
    by (simp_all add: created_producer_def kCoordFilePath_def)
  then have gone: "w_files ?w1 = (w_files w)(kCoordFilePath := None)"
    and queued: "segment_queue (w_segments ?w1 (w_next w)) = map (\<lambda>j. message (of_nat j) (example_payload j)) [1..<11]"
    using files assms(2) queue by (simp_all add: Producer_destroy_eq Coord_Delete_def)
  then have "w_files ?w1 kCoordFilePath = None" by simp
  from Attach_failure [OF Read_missing [where fs = "w_files ?w1" and path = kCoordFilePath, OF this]]
  have "Consumer_Attach cenv kCoordFilePath ?w1 = (Inr None, ?w1)" by simp
  then have "simple_consumer_main cenv t rounds unset ?w1 =
      (Exits 1, line ''=== PhoenixIPC Simple Consumer ==='', line ''Failed to attach to consumer'', ?w1)"
    by (simp add: simple_consumer_main_def)
  moreover have "\<exists>out. simple_producer_main env (\<lambda>_ w. w) w = (Exits 0, out, [], ?w1)"
    using create sends by (simp add: simple_producer_main_def Let_def del: send_messages.simps upt_rec_numeral)
  ultimately show ?thesis using gone queued by auto
qed

lemma example_creation_possible: "creation_possible sample_env kCoordFilePath empty_world"
  by (simp add: creation_possible_def sample_env_def empty_world_def sample_os_def mkstemp_fresh_def fun_eq_iff
      kCoordFilePath_def)

theorem Examples_in_sequence_witness:
  "fst (simple_producer_main sample_env (\<lambda>_ w. w) empty_world) = Exits 0"
proof -
  note example_creation_possible
  moreover have "pe_unlink_ok sample_env" by (simp add: sample_env_def)
  ultimately show ?thesis
    using Examples_in_sequence [of sample_env empty_world sample_consumer_env 0 "[]" "[]"]
    by (simp add: split_beta)
qed








text \<open>When the creation fails, the producer example asks a null pointer for the error.\<close>

lemma Producer_example_null:
  "fst (Producer_Create env kCoordFilePath 1024 (32 * 1024) w) = None \<Longrightarrow>
    fst (simple_producer_main env meanwhile w) = Undefined_behaviour"
  by (simp add: simple_producer_main_def split_beta del: send_messages.simps)

text \<open>\<open>HandleEcho\<close> gives back what it was sent, when both buffers hold as much as the header says.\<close>

lemma HandleEcho_returns_payload:
  assumes "length bytes = unat (payload_len request)" and "length bytes \<le> length room"
  shows "map_option snd (HandleEcho request (Some bytes) response room) =
    Some (request, bytes @ drop (length bytes) room)"
  using assms by (auto simp: HandleEcho_def Let_def word_gt_0 unat_eq_0)

text \<open>The client example ends: the destructor of a client that has never been connected returns.\<close>

lemma client_example_exits: "fst (ipc_client_example_main w) = Exits 0"
  by (simp add: ipc_client_example_main_def Client_destroy_def Client_Disconnect_def CreateIpcClient_def
      Client_construct_def Let_def)

end
