(* ===== verification/Ipc_History.thy ===== *)
theory Ipc_History
  imports Ipc_System
begin

text \<open>
  What the producers and consumers of a whole history have sent and received, segment by segment:
  the headers of the successful sends and the headers the receives returned, in the order of the
  calls, and the queue that joins them.
\<close>

fun sends_of :: "ipc_action \<Rightarrow> ipc_system \<Rightarrow> (nat \<times> MsgHeader) list" where
  "sends_of (Act_send k fid payload plen) s =
     (if k < length (sy_producers s)
      then case pi_layout (sy_producers s ! k) of
             Mapped i \<Rightarrow>
               if fst (Producer_Send fid payload plen (sy_producers s ! k, sy_world s)) = Some Send_kSuccess
               then [(i, sent_header fid plen)] else []
           | _ \<Rightarrow> []
      else [])"
| "sends_of _ s = []"

fun receives_of :: "ipc_action \<Rightarrow> ipc_system \<Rightarrow> (nat \<times> MsgHeader) list" where
  "receives_of (Act_receive k want kill0) s =
     (if k < length (sy_consumers s)
      then case ci_layout (sy_consumers s ! k) of
             Mapped i \<Rightarrow>
               (case fst (Consumer_Receive want kill0 (\<lambda>g. g) (sy_consumers s ! k, sy_world s)) of
                  Some (Some h, _) \<Rightarrow> [(i, h)] | _ \<Rightarrow> [])
           | _ \<Rightarrow> []
      else [])"
| "receives_of _ s = []"

fun sent_log :: "ipc_action list \<Rightarrow> ipc_system \<Rightarrow> (nat \<times> MsgHeader) list" where
  "sent_log [] s = []"
| "sent_log (a # as) s = sends_of a s @ sent_log as (ipc_act a s)"

fun received_log :: "ipc_action list \<Rightarrow> ipc_system \<Rightarrow> (nat \<times> MsgHeader) list" where
  "received_log [] s = []"
| "received_log (a # as) s = receives_of a s @ received_log as (ipc_act a s)"

definition on_segment :: "nat \<Rightarrow> (nat \<times> MsgHeader) list \<Rightarrow> MsgHeader list" where
  "on_segment i entries = map snd (filter (\<lambda>e. fst e = i) entries)"

lemma on_segment_simps [simp]:
  "on_segment i [] = []"
  "on_segment i ((j, h) # es) = (if j = i then h # on_segment i es else on_segment i es)"
  "on_segment i (es @ es') = on_segment i es @ on_segment i es'"
  by (simp_all add: on_segment_def)

definition queue_at :: "nat \<Rightarrow> ipc_world \<Rightarrow> MsgHeader list" where
  "queue_at i w = segment_queue (w_segments w i)"

lemma queue_at_update [simp]:
  "queue_at j (update_segment i (\<lambda>_. g) w) = (if j = i then segment_queue g else queue_at j w)"
  by (simp add: queue_at_def)

section \<open>What one call does to the queues\<close>

lemma Send_queue:
  assumes "producer_ok (Suc n) w p" and i: "pi_layout p = Mapped i"
  shows "case Producer_Send fid payload plen (p, w) of (r, p', w') \<Rightarrow>
    queue_at j w' = queue_at j w @ (if r = Some Send_kSuccess \<and> i = j then [sent_header fid plen] else [])"
proof -
  let ?g = "w_segments w i"
  have p: "pi_layout p = Mapped i" "pi_valid p" and inv: "segment_inv (Suc n) ?g"
    using assms by (auto simp: producer_ok_def well_typed_def formatted_def)
  show ?thesis
  proof (cases "plen > sl_payload_size (sg_layout ?g) \<or> Simplified_IsFull (sg_layout ?g)")
    case True
    then show ?thesis by (auto simp: Send_eq [OF p])
  next
    case False
    then obtain g' where "send_message fid payload plen ?g = (True, g')"
      "segment_queue g' = segment_queue ?g @ [sent_header fid plen]"
      using send_message_ok [OF inv, of fid payload plen] by blast
    then show ?thesis using False by (simp add: Send_eq [OF p] queue_at_def)
  qed
qed

lemma Receive_queue:
  assumes "consumer_ok n w c" and i: "ci_layout c = Mapped i"
  shows "case Consumer_Receive want kill0 (\<lambda>g. g) (c, w) of (r, c', w') \<Rightarrow>
    (case r of Some (Some h, _) \<Rightarrow> if i = j then [h] else [] | _ \<Rightarrow> []) @ queue_at j w' = queue_at j w"
proof -
  let ?g = "w_segments w i"
  have c: "ci_layout c = Mapped i" "ci_valid c"
    using assms by (auto simp: consumer_ok_def well_typed_def)
  show ?thesis
  proof (cases "Consumer_IsProducerAlive kill0 c \<and> segment_queue ?g \<noteq> []")
    case False
    then show ?thesis by (auto simp: Receive_eq [OF c])
  next
    case True
    then obtain h hs where queue: "segment_queue ?g = h # hs" by (cases "segment_queue ?g") auto
    show ?thesis
      using True take_message_front [OF queue] queue
      by (auto simp: Receive_eq [OF c] Let_def queue_at_def)
  qed
qed

lemma queue_at_same: "w_segments w' j = w_segments w j \<Longrightarrow> queue_at j w' = queue_at j w"
  by (simp add: queue_at_def)

lemma Attach_segments:
  assumes "world_ok n used w"
  shows "w_segments (snd (Consumer_Attach env path w)) = w_segments w \<and> w_next (snd (Consumer_Attach env path w)) = w_next w"
  using Attach_effect [OF assms, of env path] by auto

text \<open>Segments that are still to be made have no messages.\<close>

definition blank_beyond :: "ipc_world \<Rightarrow> bool" where
  "blank_beyond w \<longleftrightarrow> (\<forall>j \<ge> w_next w. queue_at j w = [])"

lemma blank_same:
  "blank_beyond w \<Longrightarrow> w_segments w' = w_segments w \<Longrightarrow> w_next w' = w_next w \<Longrightarrow> blank_beyond w'"
  by (simp add: blank_beyond_def queue_at_def)

lemma act_conserves:
  assumes ok: "system_ok (Suc n) s" and adm: "admissible a s" and n: "n < 2 ^ 64" and blank: "blank_beyond (sy_world s)"
  shows "on_segment j (receives_of a s) @ queue_at j (sy_world (ipc_act a s)) =
      queue_at j (sy_world s) @ on_segment j (sends_of a s) \<and> blank_beyond (sy_world (ipc_act a s))"
proof -
  let ?w = "sy_world s"
  have w: "world_ok (Suc n) (set (sy_used s)) ?w" using ok by (simp add: system_ok_def)
  show ?thesis
  proof (cases a)
    case (Act_create env path c plen)
    let ?w' = "snd (Producer_Create env path c plen ?w)"
    have new: "only_new_segment ?w ?w'"
      using Create_effect [OF w _ n, of env c plen path] adm Act_create by (auto split: prod.splits)
    have "queue_at k ?w' = queue_at k ?w" for k
    proof (cases "w_segments ?w' k = w_segments ?w k")
      case False
      then have "k = w_next ?w" "segment_queue (w_segments ?w' k) = []" using new by (auto simp: only_new_segment_def)
      then show ?thesis using blank by (simp add: blank_beyond_def queue_at_def)
    qed (rule queue_at_same)
    then show ?thesis
      using new blank Act_create by (auto simp: blank_beyond_def only_new_segment_def split_beta)
  next
    case (Act_send k fid payload plen)
    show ?thesis
    proof (cases "k < length (sy_producers s)")
      case True
      let ?p = "sy_producers s ! k"
      have p: "producer_ok (Suc n) ?w ?p" using ok True by (simp add: system_ok_def)
      then obtain i where i: "pi_layout ?p = Mapped i" "i < w_next ?w" by (auto simp: producer_ok_def well_typed_def)
      obtain r p' w' where send: "Producer_Send fid payload plen (?p, ?w) = (r, p', w')" by (metis prod.exhaust)
      have queues: "queue_at k w' = queue_at k ?w @ (if r = Some Send_kSuccess \<and> i = k then [sent_header fid plen] else [])"
        for k using Send_queue [OF p i(1), where fid = fid and payload = payload and plen = plen and j = k] send by simp
      have "w_next w' = w_next ?w"
        using Send_effect [OF p, where fid = fid and payload = payload and plen = plen] send by (metis prod.inject update_segment_simps(5))
      then have "blank_beyond w'" using blank queues i(2) by (auto simp: blank_beyond_def)
      then show ?thesis using True Act_send send queues [of j] i(1) by simp
    qed (simp add: Act_send blank)
  next
    case (Act_destroy_producer env k)
    obtain fs where "Producer_destroy env (sy_producers s ! k, ?w) = ?w\<lparr>w_files := fs\<rparr>"
      by (rule Producer_destroy_effect)
    then show ?thesis using Act_destroy_producer blank by (simp add: queue_at_def blank_beyond_def)
  next
    case (Act_attach env path)
    then show ?thesis
      using Attach_segments [OF w, of env path] blank by (simp add: split_beta queue_at_def blank_beyond_def)
  next
    case (Act_receive k want kill0)
    show ?thesis
    proof (cases "k < length (sy_consumers s)")
      case True
      let ?c = "sy_consumers s ! k"
      have c: "consumer_ok (Suc n) ?w ?c" using ok True by (simp add: system_ok_def)
      then obtain i where i: "ci_layout ?c = Mapped i" "i < w_next ?w" by (auto simp: consumer_ok_def well_typed_def)
      obtain r c' w' where receive: "Consumer_Receive want kill0 (\<lambda>g. g) (?c, ?w) = (r, c', w')" by (metis prod.exhaust)
      let ?got = "\<lambda>k. case r of Some (Some h, _) \<Rightarrow> if i = k then [h] else [] | _ \<Rightarrow> []"
      have queues: "?got k @ queue_at k w' = queue_at k ?w" for k
        using Receive_queue [OF c i(1), where want = want and ?kill0.0 = kill0 and j = k] receive by simp
      have "w_next w' = w_next ?w"
        using Receive_effect [OF c, where want = want and ?kill0.0 = kill0] receive by (metis prod.inject update_segment_simps(5))
      then have "blank_beyond w'" using blank queues by (metis append_is_Nil_conv blank_beyond_def)
      moreover have "on_segment j (receives_of a s) = ?got j"
        using True Act_receive receive i(1) by (auto split: option.splits)
      ultimately show ?thesis using True Act_receive receive queues [of j] by simp
    qed (simp add: Act_receive blank)
  next
    case (Act_destroy_consumer k)
    obtain names where "Consumer_destroy (sy_consumers s ! k, ?w) = ?w\<lparr>w_shm_names := names\<rparr>"
      by (rule Consumer_destroy_effect)
    then show ?thesis using Act_destroy_consumer blank by (simp add: queue_at_def blank_beyond_def)
  qed
qed

lemma calls_conserve:
  assumes "system_ok (length calls + n) s" and "admissible_run calls s" and "length calls + n \<le> 2 ^ 64"
    and "blank_beyond (sy_world s)"
  shows "on_segment j (received_log calls s) @ queue_at j (sy_world (ipc_run calls s)) =
    queue_at j (sy_world s) @ on_segment j (sent_log calls s)"
  using assms
proof (induction calls arbitrary: s)
  case Nil
  then show ?case by simp
next
  case (Cons a calls)
  have "length calls + n < 2 ^ 64" using Cons.prems(3) by simp
  then have "system_ok (length calls + n) (ipc_act a s)"
    and "on_segment j (receives_of a s) @ queue_at j (sy_world (ipc_act a s)) =
      queue_at j (sy_world s) @ on_segment j (sends_of a s)" and "blank_beyond (sy_world (ipc_act a s))"
    using act_keeps_order [of "length calls + n" s a] act_conserves [of "length calls + n" s a j] Cons.prems by simp_all
  with Cons.IH [of "ipc_act a s"] Cons.prems show ?case by simp
qed

lemma receive_takes_front:
  assumes c: "k < length (sy_consumers s)" "consumer_ok n (sy_world s) (sy_consumers s ! k)"
    and i: "ci_layout (sy_consumers s ! k) = Mapped i"
    and alive: "Consumer_IsProducerAlive kill0 (sy_consumers s ! k)"
    and queue: "queue_at i (sy_world s) = h # hs"
  shows "receives_of (Act_receive k want kill0) s = [(i, h)]"
    and "sy_consumers (ipc_act (Act_receive k want kill0) s) = sy_consumers s"
    and "queue_at i (sy_world (ipc_act (Act_receive k want kill0) s)) = hs"
proof -
  let ?c = "sy_consumers s ! k"
  have valid: "ci_valid ?c" using c(2) by (simp add: consumer_ok_def well_typed_def)
  have queue': "segment_queue (w_segments (sy_world s) i) = h # hs" using queue by (simp add: queue_at_def)
  obtain bs g where "Consumer_Receive want kill0 (\<lambda>g. g) (?c, sy_world s) =
      (Some (Some h, bs), ?c, update_segment i (\<lambda>_. g) (sy_world s))" and "segment_queue g = hs"
    using alive take_message_front [OF queue'] queue' by (simp add: Receive_eq [OF i valid] Let_def)
  then show "receives_of (Act_receive k want kill0) s = [(i, h)]"
    "sy_consumers (ipc_act (Act_receive k want kill0) s) = sy_consumers s"
    "queue_at i (sy_world (ipc_act (Act_receive k want kill0) s)) = hs"
    using c(1) i by simp_all
qed

lemma receives_drain:
  assumes "system_ok (length hs + n) s" and "length hs + n \<le> 2 ^ 64" and "k < length (sy_consumers s)"
    and "ci_layout (sy_consumers s ! k) = Mapped i" and "Consumer_IsProducerAlive kill0 (sy_consumers s ! k)"
    and "queue_at i (sy_world s) = hs"
  shows "on_segment i (received_log (replicate (length hs) (Act_receive k want kill0)) s) = hs \<and>
    queue_at i (sy_world (ipc_run (replicate (length hs) (Act_receive k want kill0)) s)) = []"
  using assms
proof (induction hs arbitrary: s)
  case Nil
  then show ?case by simp
next
  case (Cons h hs)
  let ?a = "Act_receive k want kill0"
  have "consumer_ok (length (h # hs) + n) (sy_world s) (sy_consumers s ! k)"
    using Cons.prems(1,3) by (simp add: system_ok_def)
  note front = receive_takes_front [OF Cons.prems(3) this Cons.prems(4,5,6)]
  have "length hs + n < 2 ^ 64" using Cons.prems(2) by simp
  then have "system_ok (length hs + n) (ipc_act ?a s)"
    using act_keeps_order [of "length hs + n" s ?a] Cons.prems(1) by simp
  then show ?case
    using Cons.IH [of "ipc_act ?a s"] front Cons.prems by (simp del: ipc_act.simps receives_of.simps)
qed

section \<open>Properties\<close>

text \<open>
  C7. Nothing is lost, invented or reordered by the producers and consumers of a whole history of less than
  \<open>2 ^ 64\<close> calls, one at a time, in which no process creates two producers within a second and the
  sizes asked for have a slot and do not wrap around (\<open>admissible_run\<close>; two creations within a
  second make queued messages vanish, see C38): for every segment, the headers that all receives of all its consumers have returned, followed by
  those still queued, are the headers of all successful sends into it, in the order they were
  sent. Failed creations and attaches, crashes of consumers and the removal of names and files
  change nothing about that.
\<close>

theorem History_conserves:
  assumes "admissible_run calls initial_system" and "length calls < 2 ^ 64"
  shows "on_segment i (received_log calls initial_system) @
      segment_queue (w_segments (sy_world (ipc_run calls initial_system)) i) =
    on_segment i (sent_log calls initial_system)"
proof -
  have "segment_queue fresh_segment = []" by simp
  then have "blank_beyond (sy_world initial_system)" and "queue_at i (sy_world initial_system) = []"
    by (simp_all add: initial_system_def empty_world_def blank_beyond_def queue_at_def)
  then show ?thesis
    using calls_conserve [of calls 0 initial_system i] assms initial_order by (simp add: queue_at_def)
qed

definition create_and_send :: "ipc_action list" where
  "create_and_send = [Act_create sample_env ''f'' 6 1024, Act_send 0 9 (Some [1, 2, 3]) 3]"

lemma create_and_send_steps:
  obtains w g where
    "Producer_Create sample_env ''f'' 6 1024 empty_world = (Some (created_producer sample_env ''f'' 6 1024 0), w)"
    and "Producer_Send 9 (Some [1, 2, 3]) 3 (created_producer sample_env ''f'' 6 1024 0, w) =
      (Some Send_kSuccess, created_producer sample_env ''f'' 6 1024 0, update_segment 0 (\<lambda>_. g) w)"
    and "segment_queue g = [message 9 [1, 2, 3]]" and "SimplifiedFactory_Get (sg_layout g) \<noteq> None"
    and "Simplified_GetProducerPid (sg_layout g) = 77"
    and "w_shm_names w = (w_shm_names empty_world)(generated_name sample_env \<mapsto> 0)"
    and "w_files w = (w_files empty_world)(''f'' \<mapsto>
      Coord_json (Producer_metadata sample_env 6 1024 (created_producer sample_env ''f'' 6 1024 0)))"
proof -
  let ?p = "created_producer sample_env ''f'' 6 1024 0"
  obtain w L where create: "Producer_Create sample_env ''f'' 6 1024 empty_world = (Some ?p, w)"
    and seg: "w_segments w 0 = \<lparr>sg_size = Simplified_CalculateSize 6 1024, sg_layout = L, sg_memory = (\<lambda>_. 0)\<rparr>"
    and init: "Simplified_Initialize (pe_layout_time sample_env) (Simplified_CalculateSize 6 1024) 6 1024
      (pe_pid sample_env) Simplified_construct = (True, L)"
    and names: "w_shm_names w = (w_shm_names empty_world)(pi_shm_name ?p \<mapsto> 0)"
    and files: "w_files w = (w_files empty_world)(''f'' \<mapsto> Coord_json (Producer_metadata sample_env 6 1024 ?p))"
    using Create_succeeds [OF sample_creation_possible, of 6 1024] by (auto simp: empty_world_def)
  have "320 + 16 * unat (6 :: u64) + unat (1024 :: u64) \<le> unat (Simplified_CalculateSize 6 1024)"
    using CalculateSize_exact [of 6 1024] by simp
  note facts = Initialize_inv [OF _ this _ init, of 1]
  have inv: "segment_inv (Suc 0) (w_segments w 0)" using facts(1) seg by (simp add: segment_inv_def)
  have "segment_queue (w_segments w 0) = []"
    using facts(2) seg by (simp add: segment_queue_def Simplified_contents_def idx_contents_def Simplified_IsEmpty_def)
  then obtain g where send: "Producer_Send 9 (Some [1, 2, 3]) 3 (?p, w) = (Some Send_kSuccess, ?p, update_segment 0 (\<lambda>_. g) w)"
    and inv': "segment_inv 0 g" and queue: "segment_queue g = [message 9 [1, 2, 3]]"
    and layout: "sg_layout g = L\<lparr>sl_write_idx := sl_write_idx L + 1\<rparr>"
    using send_ok [of ?p 0 0 w "[1, 2, 3]" 9] inv facts(3,4) seg by auto
  have "SimplifiedFactory_Get (sg_layout g) \<noteq> None"
    using inv' by (simp add: segment_inv_def Simplified_inv_def Simplified_header_inv_def SimplifiedFactory_Get_def)
  moreover have "Simplified_GetProducerPid (sg_layout g) = 77"
    using facts(5) layout by (simp add: Simplified_GetProducerPid_def pid_roundtrip sample_env_def)
  moreover have "pi_shm_name ?p = generated_name sample_env" by (simp add: created_producer_def generated_name_def)
  ultimately show thesis using that [OF create send queue] names files by simp
qed

lemma create_and_send_log: "sent_log create_and_send initial_system = [(0, sent_header 9 3)]"
proof -
  obtain w g where "Producer_Create sample_env ''f'' 6 1024 empty_world =
      (Some (created_producer sample_env ''f'' 6 1024 0), w)"
    "Producer_Send 9 (Some [1, 2, 3]) 3 (created_producer sample_env ''f'' 6 1024 0, w) =
      (Some Send_kSuccess, created_producer sample_env ''f'' 6 1024 0, update_segment 0 (\<lambda>_. g) w)"
    by (metis create_and_send_steps)
  then show ?thesis by (simp add: create_and_send_def initial_system_def)
qed

theorem History_conserves_witness:
  "segment_queue (w_segments (sy_world (ipc_run create_and_send initial_system)) 0) = [sent_header 9 3]"
proof -
  have "admissible_run create_and_send initial_system"
    by (simp add: create_and_send_def initial_system_def sample_env_def sample_os_def mkstemp_fresh_def empty_world_def
        del: ipc_act.simps)
  from History_conserves [OF this, of 0] show ?thesis
    by (simp add: create_and_send_log) (simp add: create_and_send_def del: ipc_act.simps)
qed

text \<open>
  C25. No message is stuck: in any state that is reached by a history of calls, one at a time, in which no
  process creates two producers within a second and the sizes asked for have a slot and do not wrap
  around (\<open>admissible_run\<close>), a consumer whose producer is alive and that calls \<open>Receive\<close> as often as
  messages are queued, with no other call in between, gets every one of them, in order, and the
  queue is empty then.
\<close>

theorem History_drains:
  assumes "admissible_run calls initial_system" and "s = ipc_run calls initial_system"
    and "k < length (sy_consumers s)" and "ci_layout (sy_consumers s ! k) = Mapped i"
    and "Consumer_IsProducerAlive kill0 (sy_consumers s ! k)"
    and "hs = segment_queue (w_segments (sy_world s) i)" and "length calls + length hs \<le> 2 ^ 64"
  shows "on_segment i (received_log (replicate (length hs) (Act_receive k want kill0)) s) = hs \<and>
    segment_queue (w_segments (sy_world (ipc_run (replicate (length hs) (Act_receive k want kill0)) s)) i) = []"
proof -
  have "system_ok (length hs) s"
    using assms(1,2,7) initial_order by (auto intro: run_keeps_order)
  then show ?thesis
    using receives_drain [of hs 0 s k i kill0 want] assms(3-7) by (simp add: queue_at_def)
qed

definition sample_consumer_of :: "ipc_world \<Rightarrow> ConsumerImpl" where
  "sample_consumer_of w = attached_consumer ''f''
     (Producer_metadata sample_env 6 1024 (created_producer sample_env ''f'' 6 1024 0)) 0 w"

lemma create_send_attach:
  obtains w where "sy_world (ipc_run (create_and_send @ [Act_attach sample_consumer_env ''f'']) initial_system) = w"
    and "sy_consumers (ipc_run (create_and_send @ [Act_attach sample_consumer_env ''f'']) initial_system) =
      [sample_consumer_of w]"
    and "Consumer_IsProducerAlive (\<lambda>_. True) (sample_consumer_of w)"
    and "segment_queue (w_segments w 0) = [message 9 [1, 2, 3]]"
proof -
  let ?p = "created_producer sample_env ''f'' 6 1024 0" and ?m = "Producer_metadata sample_env 6 1024
    (created_producer sample_env ''f'' 6 1024 0)"
  obtain w g where create: "Producer_Create sample_env ''f'' 6 1024 empty_world = (Some ?p, w)"
    and send: "Producer_Send 9 (Some [1, 2, 3]) 3 (?p, w) = (Some Send_kSuccess, ?p, update_segment 0 (\<lambda>_. g) w)"
    and queue: "segment_queue g = [message 9 [1, 2, 3]]" and valid: "SimplifiedFactory_Get (sg_layout g) \<noteq> None"
    and pid: "Simplified_GetProducerPid (sg_layout g) = 77"
    and names: "w_shm_names w = (w_shm_names empty_world)(generated_name sample_env \<mapsto> 0)"
    and files: "w_files w = (w_files empty_world)(''f'' \<mapsto> Coord_json ?m)" by (rule create_and_send_steps)
  let ?w = "update_segment 0 (\<lambda>_. g) w"
  have attach: "Consumer_Attach sample_consumer_env ''f'' ?w = (Inr (Some (sample_consumer_of ?w)), ?w)"
    unfolding sample_consumer_of_def using names files valid
    by (intro Attach_created) (simp_all add: attach_calls_ok_def sample_consumer_env_def)
  from pid have "Consumer_IsProducerAlive (\<lambda>_. True) (sample_consumer_of ?w)"
    by (simp add: Consumer_IsProducerAlive_def sample_consumer_of_def attached_consumer_def)
  moreover have "sy_world (ipc_run (create_and_send @ [Act_attach sample_consumer_env ''f'']) initial_system) = ?w"
    "sy_consumers (ipc_run (create_and_send @ [Act_attach sample_consumer_env ''f'']) initial_system) =
      [sample_consumer_of ?w]"
    using create send attach by (simp_all add: create_and_send_def initial_system_def)
  ultimately show thesis using that queue by simp
qed

theorem History_drains_witness:
  "on_segment 0 (received_log [Act_receive 0 True (\<lambda>_. True)]
     (ipc_run (create_and_send @ [Act_attach sample_consumer_env ''f'']) initial_system)) = [message 9 [1, 2, 3]]"
proof -
  let ?calls = "create_and_send @ [Act_attach sample_consumer_env ''f'']"
  obtain w where "sy_world (ipc_run ?calls initial_system) = w"
    and "sy_consumers (ipc_run ?calls initial_system) = [sample_consumer_of w]"
    and "Consumer_IsProducerAlive (\<lambda>_. True) (sample_consumer_of w)"
    and "segment_queue (w_segments w 0) = [message 9 [1, 2, 3]]" by (rule create_send_attach)
  moreover have "admissible_run ?calls initial_system"
    by (simp add: create_and_send_def initial_system_def sample_env_def sample_os_def mkstemp_fresh_def empty_world_def
        del: ipc_act.simps)
  moreover have "ci_layout (sample_consumer_of w) = Mapped 0" by (simp add: sample_consumer_of_def attached_consumer_def)
  moreover have "length ?calls = 3" by (simp add: create_and_send_def)
  ultimately show ?thesis
    using History_drains [OF _ refl, of ?calls 0 0 "\<lambda>_. True" "[message 9 [1, 2, 3]]" True]
    by (simp del: ipc_act.simps receives_of.simps received_log.simps)
qed

end
