(* ===== verification/Segment_Life.thy ===== *)
theory Segment_Life
  imports Ipc_Server Ipc_Client
begin

text \<open>
  The segment of a server over its whole life: requests dispatched by the server and sent by
  clients, workers that take requests and push responses, clients that poll, monitors that
  change, and crash recovery at any time, in any order, each operation as one step. Two ghost histories
  record for every ring what was accepted into it and what left it, and \<open>ss_overrun\<close> the rings whose
  read index recovery moved although they were empty. The worker executable is not
  part of the repository; of it the steps assume that it uses rings through \<open>Peek\<close>, \<open>Pop\<close> and
  \<open>Push\<close> and writes nothing but its monitor besides. Memory is not bounded by the size of the
  segment here; the root theory's header says which rings lie outside of it.
\<close>

record segment_life =
  ss_layout :: PhoenixShmLayout
  ss_memory :: memory
  ss_accepted :: "queue_id \<Rightarrow> MsgHeader list"
  ss_gone :: "queue_id \<Rightarrow> MsgHeader list"
  ss_overrun :: "queue_id set"

text \<open>Appends to the history of one ring if the operation succeeded.\<close>

definition note_header :: "bool \<Rightarrow> queue_id \<Rightarrow> MsgHeader \<Rightarrow> (queue_id \<Rightarrow> MsgHeader list) \<Rightarrow> queue_id \<Rightarrow> MsgHeader list" where
  "note_header ok i h f = (if ok then f(i := f i @ [h]) else f)"

inductive segment_step :: "segment_life \<Rightarrow> segment_life \<Rightarrow> bool" where
  server_request:
    "Server_DispatchMessage h p (ss_layout s, ss_memory s) = (ok, L, m) \<Longrightarrow>
     segment_step s (s\<lparr>ss_layout := L, ss_memory := m, ss_accepted := note_header ok
       (request_id p (Server_SelectBestWorker p (ss_layout s))) h (ss_accepted s)\<rparr>)"
| client_request:
    "Client_SendRequest h p (ss_layout s, ss_memory s) = (ok, L, m) \<Longrightarrow>
     segment_step s (s\<lparr>ss_layout := L, ss_memory := m, ss_accepted := note_header ok
       (request_id p (best_worker p (ss_layout s))) h (ss_accepted s)\<rparr>)"
| take_from_ring:
    "i \<in> set queue_ids \<Longrightarrow>
     Spsc_front MsgHeader_type (cap_of i) (queue_of (ss_layout s) i, ss_memory s) = Some h \<Longrightarrow>
     Spsc_Pop MsgHeader_type (cap_of i) (queue_of (ss_layout s) i, ss_memory s) = (ok, q, m) \<Longrightarrow>
     segment_step s (s\<lparr>ss_layout := set_queue i q (ss_layout s), ss_memory := m,
       ss_gone := note_header ok i h (ss_gone s)\<rparr>)"
| push_to_ring:
    "i \<in> set queue_ids \<Longrightarrow>
     Spsc_Push MsgHeader_type (cap_of i) h (queue_of (ss_layout s) i, ss_memory s) = (ok, q, m) \<Longrightarrow>
     segment_step s (s\<lparr>ss_layout := set_queue i q (ss_layout s), ss_memory := m,
       ss_accepted := note_header ok i h (ss_accepted s)\<rparr>)"
| normal_monitor:
    "segment_step s (s\<lparr>ss_layout := (ss_layout s)\<lparr>normal_monitors :=
       (normal_monitors (ss_layout s))[w := monitor]\<rparr>\<rparr>)"
| vip_monitor:
    "segment_step s (s\<lparr>ss_layout := (ss_layout s)\<lparr>vip_monitors :=
       (vip_monitors (ss_layout s))[w := monitor]\<rparr>\<rparr>)"
| client_polls:
    "i \<in> set queue_ids \<Longrightarrow>
     poll_worker i ((ss_layout s, ss_memory s), t) = ((L, m), t') \<Longrightarrow>
     segment_step s (s\<lparr>ss_layout := L, ss_memory := m,
       ss_gone := (ss_gone s)(i := ss_gone s i @ layout_contents (ss_layout s, ss_memory s) i)\<rparr>)"
| recovery:
    "Layout_RecoverCrashedWorkers (ss_layout s) = (skipped, L) \<Longrightarrow>
     segment_step s (s\<lparr>ss_layout := L,
       ss_gone := (\<lambda>i. if worker_crashed (ss_layout s) i
         then ss_gone s i @ take 1 (layout_contents (ss_layout s, ss_memory s) i) else ss_gone s i),
       ss_overrun := ss_overrun s \<union> {i \<in> set queue_ids. worker_crashed (ss_layout s) i \<and>
         layout_contents (ss_layout s, ss_memory s) i = []}\<rparr>)"

definition segment_start :: "PhoenixShmLayout \<Rightarrow> memory \<Rightarrow> segment_life" where
  "segment_start L m = \<lparr>ss_layout = L, ss_memory = m, ss_accepted = (\<lambda>_. []), ss_gone = (\<lambda>_. []),
     ss_overrun = {}\<rparr>"

section \<open>The invariant\<close>

definition life_inv :: "address \<Rightarrow> segment_life \<Rightarrow> bool" where
  "life_inv this s \<longleftrightarrow> Layout_inv this (ss_layout s) \<and>
     (\<forall>i \<in> set queue_ids. ss_accepted s i = ss_gone s i @ layout_contents (ss_layout s, ss_memory s) i)"

lemma layout_contents_bound:
  assumes "Layout_inv this L" and "i \<in> set queue_ids"
  shows "length (layout_contents (L, m) i) \<le> unat (cap_of i)"
  using Spsc_inv_Size [OF Layout_inv_queue(1) [OF assms]] by (simp add: layout_contents_def)

text \<open>Taking the front of any ring of the layout.\<close>

lemma pop_queue_effect:
  assumes inv: "Layout_inv this L" and i: "i \<in> set queue_ids"
    and front: "Spsc_front MsgHeader_type (cap_of i) (queue_of L i, m) = Some h"
    and pop: "Spsc_Pop MsgHeader_type (cap_of i) (queue_of L i, m) = (ok, q, m')"
  shows "ok" and "Layout_inv this (set_queue i q L)"
    and "layout_contents (L, m) i = h # layout_contents (set_queue i q L, m') i"
    and "\<And>j. j \<in> set queue_ids \<Longrightarrow> j \<noteq> i \<Longrightarrow>
      layout_contents (set_queue i q L, m') j = layout_contents (L, m) j"
proof -
  let ?q = "queue_of L i"
  note q = Layout_inv_queue [OF inv i]
  have ne: "Spsc_contents MsgHeader_type (cap_of i) (?q, m) \<noteq> []"
    using front by (auto simp: Spsc_front_def msg.Peek_empty)
  then have size: "0 < unat (Spsc_Size ?q)" by (simp flip: length_greater_0_conv)
  have h: "h = hd (Spsc_contents MsgHeader_type (cap_of i) (?q, m))"
    using front msg.Peek_nonempty [OF size] by (auto simp: Spsc_front_def)
  note eq = pop [unfolded msg.Pop_nonempty [OF size]]
  then show "ok" by simp
  have "unat (1 :: u64) \<le> unat (Spsc_Size ?q)" using size by simp
  then have "Spsc_inv MsgHeader_type (cap_of i) q" using msg.Advance_inv [OF q(1)] eq by auto
  then show "Layout_inv this (set_queue i q L)"
    using eq by (intro set_queue_inv [OF inv i]) (auto simp: recovered_queue_buffer)
  have frame: "m' a = m a" if "a < buffer_of this i \<or> buffer_of this i + 16384 \<le> a" for a
    using msg.Pop_outside [OF q(1) pop, of a] that q(2,3) by simp
  note contents = set_queue_contents [OF inv i _ frame, where q = q]
  show "layout_contents (set_queue i q L, m') j = layout_contents (L, m) j"
    if "j \<in> set queue_ids" "j \<noteq> i" for j using contents that by simp
  have "layout_contents (set_queue i q L, m') i = tl (layout_contents (L, m) i)"
    using contents [OF i] msg.Pop_contents [OF q(1) size, where m = m] eq by (auto simp: layout_contents_def)
  then show "layout_contents (L, m) i = h # layout_contents (set_queue i q L, m') i"
    using h ne by (simp add: layout_contents_def)
qed

lemma push_queue_inv:
  assumes life: "life_inv this s" and i: "i \<in> set queue_ids"
    and push: "Spsc_Push MsgHeader_type (cap_of i) h (queue_of (ss_layout s) i, ss_memory s) = (ok, q, m)"
  shows "life_inv this (s\<lparr>ss_layout := set_queue i q (ss_layout s), ss_memory := m,
    ss_accepted := note_header ok i h (ss_accepted s)\<rparr>)"
proof -
  let ?L = "ss_layout s" and ?m = "ss_memory s"
  have inv: "Layout_inv this ?L" using life by (simp add: life_inv_def)
  show ?thesis
  proof (cases "length (layout_contents (?L, ?m) i) < unat (cap_of i)")
    case True
    obtain q' m' where "Spsc_Push MsgHeader_type (cap_of i) h (queue_of ?L i, ?m) = (True, q', m')"
      and "Layout_inv this (set_queue i q' ?L)"
      and "\<And>j. j \<in> set queue_ids \<Longrightarrow> layout_contents (set_queue i q' ?L, m') j =
        layout_contents (?L, ?m) j @ (if j = i then [h] else [])"
      by (rule push_queue_effect [OF inv i True, of h]) blast
    then show ?thesis using life push by (simp add: life_inv_def note_header_def)
  next
    case False
    then have "unat (cap_of i) \<le> unat (Spsc_Size (queue_of ?L i))" by (simp add: layout_contents_def)
    then have eq: "ok = False" "q = queue_of ?L i" "m = ?m"
      using push msg.Push_full [of "cap_of i" "queue_of ?L i", where x = h and m = ?m] by simp_all
    have "Layout_inv this (set_queue i q ?L)"
      using Layout_inv_queue [OF inv i] eq(2) by (intro set_queue_inv [OF inv i]) simp_all
    moreover have "layout_contents (set_queue i q ?L, m) j = layout_contents (?L, ?m) j"
      if "j \<in> set queue_ids" for j
      using set_queue_contents [OF inv i that, of m ?m q] eq by (simp add: layout_contents_def)
    ultimately show ?thesis using life eq(1) by (simp add: life_inv_def note_header_def)
  qed
qed

lemma request_inv:
  assumes life: "life_inv this s"
    and push: "push_request p (best_worker p (ss_layout s)) h (ss_layout s, ss_memory s) = (ok, L, m)"
  shows "life_inv this (s\<lparr>ss_layout := L, ss_memory := m,
    ss_accepted := note_header ok (request_id p (best_worker p (ss_layout s))) h (ss_accepted s)\<rparr>)"
  using push_best_effect [of this "ss_layout s", where p = p and h = h and m = "ss_memory s"] life push
  by (auto simp: life_inv_def note_header_def)

lemma monitors_irrelevant [simp]:
  "Layout_inv this (L\<lparr>normal_monitors := (normal_monitors L)[w := x]\<rparr>) = Layout_inv this L"
  "Layout_inv this (L\<lparr>vip_monitors := (vip_monitors L)[w := x]\<rparr>) = Layout_inv this L"
  "layout_contents (L\<lparr>normal_monitors := ms\<rparr>, m) i = layout_contents (L, m) i"
  "layout_contents (L\<lparr>vip_monitors := ms\<rparr>, m) i = layout_contents (L, m) i"
proof -
  have q: "queue_of (L\<lparr>normal_monitors := ms\<rparr>) i = queue_of L i"
    "queue_of (L\<lparr>vip_monitors := ms\<rparr>) i = queue_of L i" for ms i
    by (cases i; simp)+
  show "Layout_inv this (L\<lparr>normal_monitors := (normal_monitors L)[w := x]\<rparr>) = Layout_inv this L"
    "Layout_inv this (L\<lparr>vip_monitors := (vip_monitors L)[w := x]\<rparr>) = Layout_inv this L"
    by (simp_all add: Layout_inv_def q wf_layout_def Layout_IsValid_def)
  show "layout_contents (L\<lparr>normal_monitors := ms\<rparr>, m) i = layout_contents (L, m) i"
    "layout_contents (L\<lparr>vip_monitors := ms\<rparr>, m) i = layout_contents (L, m) i"
    by (simp_all add: layout_contents_def q)
qed

lemma take_1_tl: "take (Suc 0) xs @ tl xs = xs"
  by (cases xs) simp_all

lemma overrun_grows: "segment_step s t \<Longrightarrow> ss_overrun s \<subseteq> ss_overrun t"
  by (cases rule: segment_step.cases) auto

text \<open>A step keeps the invariant unless it is a recovery that finds a processing worker over an
  empty ring; then that ring claims to hold \<open>2 ^ 64 - 1\<close> headers.\<close>

lemma life_step:
  assumes "segment_step s t" and life: "life_inv this s" and safe: "ss_overrun t = {}"
  shows "life_inv this t"
  using assms(1)
proof cases
  case (server_request h p ok L m)
  then show ?thesis
    using request_inv [OF life] by (simp add: Server_DispatchMessage_def Server_SelectBestWorker_def)
next
  case (client_request h p ok L m)
  then show ?thesis using request_inv [OF life] by (simp add: Client_SendRequest_def)
next
  case (take_from_ring i h ok q m)
  have inv: "Layout_inv this (ss_layout s)" using life by (simp add: life_inv_def)
  note pop = pop_queue_effect [OF inv take_from_ring(2-4)]
  then show ?thesis
    using life take_from_ring(1,2) by (auto simp: life_inv_def note_header_def)
next
  case (push_to_ring i h ok q m)
  then show ?thesis using push_queue_inv [OF life] by simp
next
  case (client_polls i t' L m t'')
  have inv: "Layout_inv this (ss_layout s)" using life by (simp add: life_inv_def)
  show ?thesis
    using poll_worker_effect [OF inv client_polls(2), of "ss_memory s" t'] client_polls life
    by (auto simp: life_inv_def)
next
  case (recovery skipped L)
  have inv: "Layout_inv this (ss_layout s)" using life by (simp add: life_inv_def)
  have pills: "\<forall>i \<in> set queue_ids. worker_crashed (ss_layout s) i \<longrightarrow>
      layout_contents (ss_layout s, ss_memory s) i \<noteq> []"
    using safe unfolding recovery(1) by auto
  show ?thesis
    using recover_effect [OF inv pills] recovery(2) life pills unfolding recovery(1)
    by (auto simp: life_inv_def Let_def take_1_tl)
qed (use life in \<open>simp_all add: life_inv_def\<close>)

lemma recovery_of_empty:
  assumes inv: "Layout_inv this L" and i: "i \<in> set queue_ids" "worker_crashed L i"
    and empty: "layout_contents (L, m) i = []"
  shows "Spsc_Size (queue_of (snd (Layout_RecoverCrashedWorkers L)) i) = - 1"
    and "Spsc_Full (cap_of i) (queue_of (snd (Layout_RecoverCrashedWorkers L)) i)"
proof -
  let ?q = "queue_of (snd (Layout_RecoverCrashedWorkers L)) i"
  have size: "unat (Spsc_Size ?q) = 2 ^ 64 - 1" and full: "Spsc_Full (cap_of i) ?q"
    using Layout_recovery_of_empty_ring [OF inv i empty] by (simp_all add: Let_def)
  then show "Spsc_Size ?q = - 1" by (simp add: word_unat_eq_iff unsigned_minus_1_eq_mask mask_eq_exp_minus_1)
  show "Spsc_Full (cap_of i) ?q" by (rule full)
qed

lemma first_overrun:
  assumes "segment_step s t" and life: "life_inv this s" and "ss_overrun s = {}" and "i \<in> ss_overrun t"
  shows "Spsc_Size (queue_of (ss_layout t) i) = - 1 \<and> Spsc_Full (cap_of i) (queue_of (ss_layout t) i)"
  using assms(1)
proof cases
  case (recovery skipped L)
  have inv: "Layout_inv this (ss_layout s)" using life by (simp add: life_inv_def)
  have i: "i \<in> set queue_ids" "worker_crashed (ss_layout s) i" "layout_contents (ss_layout s, ss_memory s) i = []"
    using assms(3,4) unfolding recovery(1) by auto
  show ?thesis using recovery_of_empty [OF inv i] recovery by simp
qed (use assms(3,4) in simp_all)

lemma life_reachable:
  assumes "segment_step\<^sup>*\<^sup>* s t" and "life_inv this s" and "ss_overrun t = {}"
  shows "life_inv this t"
  using assms
proof induction
  case (step t u)
  have "ss_overrun t = {}" using overrun_grows [OF step.hyps(2)] step.prems(2) by auto
  then show ?case using step by (blast intro: life_step)
qed simp

section \<open>Properties\<close>

text \<open>
  C5. Server, clients, workers and crash recovery do anything to a segment from its initialisation on,
  recovery at any time. As long as no recovery has met a worker that is marked as processing over
  an empty ring (\<open>ss_overrun\<close> is empty), the layout stays well formed, no ring holds more than its
  capacity, and every ring is an honest queue: what was accepted into it is, in order, what left
  it followed by what is queued. Nothing is lost, duplicated, reordered or moved to another ring,
  and recovery removes exactly the front requests of the workers marked as processing. The first
  recovery that does meet such a worker breaks the ring: its size then reads \<open>2 ^ 64 - 1\<close> and it counts
  as full.
\<close>

theorem Segment_conserves:
  assumes "Layout_Initialize this shm_size L0 = (True, L)" and "wf_layout L0"
    and "segment_step\<^sup>*\<^sup>* (segment_start L m) s"
  shows "(ss_overrun s = {} \<longrightarrow> Layout_inv this (ss_layout s) \<and>
      (\<forall>i \<in> set queue_ids.
         ss_accepted s i = ss_gone s i @ layout_contents (ss_layout s, ss_memory s) i \<and>
         length (layout_contents (ss_layout s, ss_memory s) i) \<le> unat (cap_of i))) \<and>
    (\<forall>t i. ss_overrun s = {} \<and> segment_step s t \<and> i \<in> ss_overrun t \<longrightarrow>
       Spsc_Size (queue_of (ss_layout t) i) = - 1 \<and> Spsc_Full (cap_of i) (queue_of (ss_layout t) i))"
proof -
  have "L = initialized_layout this shm_size L0"
    using assms(1) by (simp add: Layout_Initialize_eq [OF assms(2)] split: if_splits)
  then have "life_inv this (segment_start L m)"
    using initialized_inv initialized_contents by (simp add: life_inv_def segment_start_def)
  from life_reachable [OF assms(3) this] have life: "ss_overrun s = {} \<Longrightarrow> life_inv this s" .
  show ?thesis
  proof (intro conjI impI allI)
    assume "ss_overrun s = {}"
    from life [OF this] show "Layout_inv this (ss_layout s)" and
      "\<forall>i \<in> set queue_ids. ss_accepted s i = ss_gone s i @ layout_contents (ss_layout s, ss_memory s) i \<and>
         length (layout_contents (ss_layout s, ss_memory s) i) \<le> unat (cap_of i)"
      using layout_contents_bound by (auto simp: life_inv_def)
  next
    fix t i
    assume "ss_overrun s = {} \<and> segment_step s t \<and> i \<in> ss_overrun t"
    then show "Spsc_Size (queue_of (ss_layout t) i) = - 1" "Spsc_Full (cap_of i) (queue_of (ss_layout t) i)"
      using first_overrun life by blast+
  qed
qed

text \<open>A request is dispatched, its worker crashes on it, recovery skips it.\<close>

theorem Segment_conserves_witness:
  "\<exists>s. segment_step\<^sup>*\<^sup>* (segment_start fresh_layout (\<lambda>_. 0)) s \<and>
     ss_gone s (NormalRequest 0) = [\<lparr>seq_id = 1, func_id = 5, payload_len = 0\<rparr>] \<and>
     layout_contents (ss_layout s, ss_memory s) (NormalRequest 0) = []"
proof -
  let ?h = "\<lparr>seq_id = 1, func_id = 5, payload_len = 0\<rparr>" and ?i = "NormalRequest 0"
  let ?s0 = "segment_start fresh_layout (\<lambda>_. 0)"
  let ?busy = "Monitor_construct\<lparr>tm_status := kStatusProcessing\<rparr>"
  have init: "Layout_Initialize 65536 Layout_RequiredSize Layout_construct = (True, fresh_layout)"
    by (simp add: Layout_Initialize_eq [OF wf_Layout_construct] fresh_layout_def)
  have i: "?i \<in> set queue_ids" by (simp add: queue_ids_def)
  obtain L m where d: "Server_DispatchMessage ?h kLow (fresh_layout, \<lambda>_. 0) = (True, L, m)"
      and mon: "normal_monitors L = normal_monitors fresh_layout" "vip_monitors L = vip_monitors fresh_layout"
    using push_best_effect [OF fresh_layout_inv, where p = kLow and h = ?h and m = "\<lambda>_. 0"]
    by (auto simp: Server_DispatchMessage_def Server_SelectBestWorker_def request_ids_values
        fresh_layout_empty queue_ids_def layout_consts split: prod.splits)
  let ?s1 = "?s0\<lparr>ss_layout := L, ss_memory := m, ss_accepted := (\<lambda>_. [])(?i := [?h])\<rparr>"
  have 1: "segment_step\<^sup>*\<^sup>* ?s0 ?s1"
    using server_request [of ?h kLow ?s0 True L m] d
    by (simp add: segment_start_def note_header_def Server_SelectBestWorker_def fresh_layout_best)
  let ?L2 = "L\<lparr>normal_monitors := (normal_monitors L)[0 := ?busy]\<rparr>"
  have 2: "segment_step\<^sup>*\<^sup>* ?s0 (?s1\<lparr>ss_layout := ?L2\<rparr>)"
    using rtranclp.rtrancl_into_rtrancl [OF 1 normal_monitor [of ?s1 0 ?busy]] by simp
  from Segment_conserves [OF init wf_Layout_construct 2]
  have c2: "layout_contents (?L2, m) ?i = [?h]" using i by (auto simp: segment_start_def)
  have crashed: "j \<in> set queue_ids \<Longrightarrow> worker_crashed ?L2 j \<longleftrightarrow> j = ?i" for j
    unfolding queue_ids_def
    by (auto simp: mon fresh_layout_def initialized_layout_def monitor_defs nth_list_update)
  obtain n L3 where r: "Layout_RecoverCrashedWorkers ?L2 = (n, L3)" by (cases "Layout_RecoverCrashedWorkers ?L2")
  let ?s3 = "?s1\<lparr>ss_layout := L3, ss_gone := (\<lambda>j. if worker_crashed ?L2 j
       then take 1 (layout_contents (?L2, m) j) else [])\<rparr>"
  have "{j \<in> set queue_ids. worker_crashed ?L2 j \<and> layout_contents (?L2, m) j = []} = {}"
    using crashed c2 by auto
  then have "segment_step (?s1\<lparr>ss_layout := ?L2\<rparr>) ?s3"
    using recovery [of "?s1\<lparr>ss_layout := ?L2\<rparr>" n L3] r
    by (simp add: segment_start_def del: Collect_empty_eq cong: if_cong)
  with 2 have 3: "segment_step\<^sup>*\<^sup>* ?s0 ?s3" by (rule rtranclp.rtrancl_into_rtrancl)
  moreover have "ss_gone ?s3 ?i = [?h]" using crashed [OF i] c2 by simp
  moreover from Segment_conserves [OF init wf_Layout_construct 3]
  have "layout_contents (ss_layout ?s3, ss_memory ?s3) ?i = []"
    using i crashed [OF i] c2 by (auto simp: segment_start_def)
  ultimately show ?thesis by blast
qed

end
