(* ===== verification/Worker_Loop.thy ===== *)
theory Worker_Loop
  imports Segment_Life "HOL-Library.Sublist"
begin

text \<open>
  The workers of a segment. The worker executable the server starts is not part of the repository,
  but its loop is written out in the tests that simulate workers (\<open>test/stress_test.cpp\<close>): look at
  the front request, begin a transaction on it, process it, end the transaction, pop the request.
  This theory gives one iteration as a function and its atomic actions as a step relation, in which
  server and clients go on sending, any worker may die between two actions and be started again,
  and recovery runs at any time, also while live workers are inside a transaction, as in the
  recovery threads of those tests. The invariant says what recovery relies on without looking: the
  request at the front of a ring whose monitor is in a transaction is the one the monitor names.
\<close>

section \<open>Workers and their monitors\<close>

definition request_rings :: "queue_id list" where
  "request_rings = request_ids kLow @ request_ids kHigh"

fun request_monitor :: "PhoenixShmLayout \<Rightarrow> queue_id \<Rightarrow> ThreadMonitor" where
  "request_monitor L (NormalRequest i) = Layout_GetNormalMonitor i L"
| "request_monitor L (VipRequest i) = Layout_GetVipMonitor i L"
| "request_monitor L _ = Monitor_construct"

fun set_monitor :: "queue_id \<Rightarrow> ThreadMonitor \<Rightarrow> PhoenixShmLayout \<Rightarrow> PhoenixShmLayout" where
  "set_monitor (NormalRequest i) x L = L\<lparr>normal_monitors := (normal_monitors L)[i := x]\<rparr>"
| "set_monitor (VipRequest i) x L = L\<lparr>vip_monitors := (vip_monitors L)[i := x]\<rparr>"
| "set_monitor _ x L = L"

fun group_of :: "queue_id \<Rightarrow> u8" where
  "group_of (VipRequest i) = 1"
| "group_of _ = 0"

fun index_of :: "queue_id \<Rightarrow> u16" where
  "index_of (NormalRequest i) = of_nat i"
| "index_of (VipRequest i) = of_nat i"
| "index_of _ = 0"

definition begin_transaction :: "u64 \<Rightarrow> MsgHeader \<Rightarrow> queue_id \<Rightarrow> PhoenixShmLayout \<Rightarrow> PhoenixShmLayout" where
  "begin_transaction now req i L =
     set_monitor i (Monitor_BeginTransaction now (seq_id req) (group_of i) (index_of i) (request_monitor L i)) L"

definition end_transaction :: "queue_id \<Rightarrow> PhoenixShmLayout \<Rightarrow> PhoenixShmLayout" where
  "end_transaction i L = set_monitor i (Monitor_EndTransaction (request_monitor L i)) L"

text \<open>One iteration of a worker's loop at the clock value \<open>now\<close>, and whether it processed a request.\<close>

definition worker_iteration ::
  "u64 \<Rightarrow> queue_id \<Rightarrow> PhoenixShmLayout \<times> memory \<Rightarrow> bool \<times> PhoenixShmLayout \<times> memory" where
  "worker_iteration now i s =
     (let (L, m) = s
      in case Spsc_Peek MsgHeader_type (cap_of i) (queue_of L i) of
           None \<Rightarrow> (False, L, m)
         | Some req \<Rightarrow>
             if Monitor_IsProcessing (request_monitor L i) then (False, L, m)
             else
               let L = begin_transaction now (object_at MsgHeader_type m req) i L;
                   L = end_transaction i L;
                   (_, q, m) = Spsc_Pop MsgHeader_type (cap_of i) (queue_of L i, m)
               in (True, set_queue i q L, m))"

text \<open>The loop of worker \<open>i\<close>, one clock value for each iteration until it is stopped, and how many
  requests it has processed.\<close>

fun worker_loop :: "u64 list \<Rightarrow> queue_id \<Rightarrow> PhoenixShmLayout \<times> memory \<Rightarrow> u64 \<times> PhoenixShmLayout \<times> memory" where
  "worker_loop [] i s = (0, s)"
| "worker_loop (now # rest) i s =
     (let (processed, s) = worker_iteration now i s;
          (local_ops, s) = worker_loop rest i s
      in (if processed then local_ops + 1 else local_ops, s))"

section \<open>The actions one by one\<close>

text \<open>Where a worker stands, with the request its pointer leads to.\<close>

datatype worker_pc = W_idle | W_peeked MsgHeader | W_begun MsgHeader | W_ended MsgHeader | W_dead

text \<open>
  Beside the segment and the workers the state keeps a record of what happened to each ring:
  what left it and whether a worker (\<open>True\<close>) or recovery (\<open>False\<close>) took it, the requests whose
  transaction was ended, the number of crashes that left the monitor inside a transaction, of those
  between its end and the pop, and how often recovery caught a live worker inside a transaction.
\<close>

record worker_life =
  wl_segment :: segment_life
  wl_pc :: "queue_id \<Rightarrow> worker_pc"
  wl_outcome :: "queue_id \<Rightarrow> (MsgHeader \<times> bool) list"
  wl_finished :: "queue_id \<Rightarrow> MsgHeader list"
  wl_inside :: "queue_id \<Rightarrow> nat"
  wl_after :: "queue_id \<Rightarrow> nat"
  wl_caught :: "queue_id \<Rightarrow> nat"

definition in_transaction :: "worker_pc \<Rightarrow> bool" where
  "in_transaction pc \<longleftrightarrow> (case pc of W_begun _ \<Rightarrow> True | _ \<Rightarrow> False)"

definition unpopped :: "worker_pc \<Rightarrow> MsgHeader list" where
  "unpopped pc = (case pc of W_ended h \<Rightarrow> [h] | _ \<Rightarrow> [])"

inductive worker_step :: "worker_life \<Rightarrow> worker_life \<Rightarrow> bool" where
  wk_peek:
    "i \<in> set request_rings \<Longrightarrow> g = wl_segment s \<Longrightarrow> wl_pc s i = W_idle \<Longrightarrow>
     Spsc_front MsgHeader_type (cap_of i) (queue_of (ss_layout g) i, ss_memory g) = Some h \<Longrightarrow>
     \<not> Monitor_IsProcessing (request_monitor (ss_layout g) i) \<Longrightarrow>
     worker_step s (s\<lparr>wl_pc := (wl_pc s)(i := W_peeked h)\<rparr>)"
| wk_begin:
    "i \<in> set request_rings \<Longrightarrow> g = wl_segment s \<Longrightarrow> wl_pc s i = W_peeked h \<Longrightarrow>
     worker_step s (s\<lparr>wl_segment := g\<lparr>ss_layout := begin_transaction now h i (ss_layout g)\<rparr>,
       wl_pc := (wl_pc s)(i := W_begun h)\<rparr>)"
| wk_end:
    "i \<in> set request_rings \<Longrightarrow> g = wl_segment s \<Longrightarrow> wl_pc s i = W_begun h \<Longrightarrow>
     worker_step s (s\<lparr>wl_segment := g\<lparr>ss_layout := end_transaction i (ss_layout g)\<rparr>,
       wl_pc := (wl_pc s)(i := W_ended h), wl_finished := (wl_finished s)(i := wl_finished s i @ [h])\<rparr>)"
| wk_pop:
    "i \<in> set request_rings \<Longrightarrow> g = wl_segment s \<Longrightarrow> wl_pc s i = W_ended h \<Longrightarrow>
     Spsc_Pop MsgHeader_type (cap_of i) (queue_of (ss_layout g) i, ss_memory g) = (ok, q, m) \<Longrightarrow>
     left = take 1 (layout_contents (ss_layout g, ss_memory g) i) \<Longrightarrow>
     worker_step s (s\<lparr>wl_segment := g\<lparr>ss_layout := set_queue i q (ss_layout g), ss_memory := m,
         ss_gone := (ss_gone g)(i := ss_gone g i @ left)\<rparr>,
       wl_pc := (wl_pc s)(i := W_idle),
       wl_outcome := (wl_outcome s)(i := wl_outcome s i @ map (\<lambda>x. (x, True)) left)\<rparr>)"
| wk_crash:
    "i \<in> set request_rings \<Longrightarrow>
     worker_step s (s\<lparr>wl_pc := (wl_pc s)(i := W_dead),
       wl_inside := (wl_inside s)(i := wl_inside s i +
         (if in_transaction (wl_pc s i) \<and> worker_crashed (ss_layout (wl_segment s)) i then 1 else 0)),
       wl_after := (wl_after s)(i := wl_after s i + length (unpopped (wl_pc s i)))\<rparr>)"
| wk_restart:
    "i \<in> set request_rings \<Longrightarrow> wl_pc s i = W_dead \<Longrightarrow>
     worker_step s (s\<lparr>wl_pc := (wl_pc s)(i := W_idle)\<rparr>)"
| sends:
    "g = wl_segment s \<Longrightarrow>
     push_request p (best_worker p (ss_layout g)) h (ss_layout g, ss_memory g) = (ok, L, m) \<Longrightarrow>
     worker_step s (s\<lparr>wl_segment := g\<lparr>ss_layout := L, ss_memory := m,
       ss_accepted := note_header ok (request_id p (best_worker p (ss_layout g))) h (ss_accepted g)\<rparr>\<rparr>)"
| responds:
    "i \<in> set response_ids \<Longrightarrow> g = wl_segment s \<Longrightarrow>
     Spsc_Push MsgHeader_type (cap_of i) h (queue_of (ss_layout g) i, ss_memory g) = (ok, q, m) \<Longrightarrow>
     worker_step s (s\<lparr>wl_segment := g\<lparr>ss_layout := set_queue i q (ss_layout g), ss_memory := m,
       ss_accepted := note_header ok i h (ss_accepted g)\<rparr>\<rparr>)"
| polls:
    "i \<in> set response_ids \<Longrightarrow> g = wl_segment s \<Longrightarrow>
     poll_worker i ((ss_layout g, ss_memory g), t) = ((L, m), t') \<Longrightarrow>
     worker_step s (s\<lparr>wl_segment := g\<lparr>ss_layout := L, ss_memory := m,
       ss_gone := (ss_gone g)(i := ss_gone g i @ layout_contents (ss_layout g, ss_memory g) i)\<rparr>\<rparr>)"
| recovers:
    "g = wl_segment s \<Longrightarrow> Layout_RecoverCrashedWorkers (ss_layout g) = (skipped, L) \<Longrightarrow>
     skips = (\<lambda>i. if worker_crashed (ss_layout g) i
       then take 1 (layout_contents (ss_layout g, ss_memory g) i) else []) \<Longrightarrow>
     overrun = {i \<in> set queue_ids. worker_crashed (ss_layout g) i \<and>
       layout_contents (ss_layout g, ss_memory g) i = []} \<Longrightarrow>
     worker_step s (s\<lparr>wl_segment := g\<lparr>ss_layout := L, ss_gone := (\<lambda>i. ss_gone g i @ skips i),
         ss_overrun := ss_overrun g \<union> overrun\<rparr>,
       wl_outcome := (\<lambda>i. wl_outcome s i @ map (\<lambda>h. (h, False)) (skips i)),
       wl_caught := (\<lambda>i. wl_caught s i +
         (if worker_crashed (ss_layout g) i \<and> in_transaction (wl_pc s i) then 1 else 0))\<rparr>)"


section \<open>The invariant\<close>



lemma request_rings_in: "i \<in> set request_rings \<Longrightarrow> i \<in> set queue_ids"
  using request_ids_subset by (auto simp: request_rings_def)

lemma request_ring_cases:
  assumes "i \<in> set request_rings"
  obtains k where "i = NormalRequest k" and "k < 4" | k where "i = VipRequest k" and "k < 2"
  using assms that by (auto simp: request_rings_def request_ids_values)


lemma crashed_processing:
  "i \<in> set request_rings \<Longrightarrow> worker_crashed L i = Monitor_IsProcessing (request_monitor L i)"
  by (erule request_ring_cases) (simp_all add: Layout_GetNormalMonitor_def Layout_GetVipMonitor_def)

lemma request_monitor_set:
  assumes "wf_layout L" and "i \<in> set request_rings" and "j \<in> set request_rings"
  shows "request_monitor (set_monitor i x L) j = (if j = i then x else request_monitor L j)"
  using assms(2,3)
  by (elim request_ring_cases)
    (use assms(1) in \<open>auto simp: wf_layout_def layout_consts Layout_GetNormalMonitor_def Layout_GetVipMonitor_def\<close>)

lemma set_monitor_simps [simp]:
  "Layout_inv this (set_monitor i x L) = Layout_inv this L"
  "layout_contents (set_monitor i x L, m) j = layout_contents (L, m) j"
  by (cases i; simp)+

lemma monitors_same:
  assumes "normal_monitors L' = normal_monitors L" and "vip_monitors L' = vip_monitors L"
  shows "request_monitor L' j = request_monitor L j" and "worker_crashed L' j = worker_crashed L j"
  using assms by (cases j; simp add: Layout_GetNormalMonitor_def Layout_GetVipMonitor_def)+

lemma request_monitor_set_queue [simp]:
  "request_monitor (set_queue i q L) j = request_monitor L j"
  "worker_crashed (set_queue i q L) j = worker_crashed L j"
  by (intro monitors_same; simp)+

lemma crashed_recovered: "i \<in> set request_rings \<Longrightarrow> \<not> worker_crashed (recovered_layout L) i"
  by (erule request_ring_cases) (simp_all add: recovered_layout_def)

lemma front_of_contents:
  assumes "Layout_inv this L" and "i \<in> set queue_ids"
  shows "Spsc_front MsgHeader_type (cap_of i) (queue_of L i, m) =
    (case layout_contents (L, m) i of [] \<Rightarrow> None | h # _ \<Rightarrow> Some h)"
  using msg.ring.front_elems [where s = "(queue_of L i, m)" and cap = "cap_of i"] Layout_inv_queue(1) [OF assms]
  by (simp add: layout_contents_def)























section \<open>One iteration\<close>

lemma begun_simps [simp]:
  "Layout_inv this (begin_transaction now h i L) = Layout_inv this L"
  "Layout_inv this (end_transaction i L) = Layout_inv this L"
  "layout_contents (begin_transaction now h i L, m) j = layout_contents (L, m) j"
  "layout_contents (end_transaction i L, m) j = layout_contents (L, m) j"
  by (simp_all add: begin_transaction_def end_transaction_def)

lemma begun_queue [simp]:
  "queue_of (begin_transaction now h i L) j = queue_of L j"
  "queue_of (end_transaction i L) j = queue_of L j"
  by (cases i; cases j; simp add: begin_transaction_def end_transaction_def)+

lemma begun_monitor:
  assumes "wf_layout L" and "i \<in> set request_rings" and "j \<in> set request_rings"
  shows "request_monitor (begin_transaction now h i L) j = (if j = i
      then Monitor_BeginTransaction now (seq_id h) (group_of i) (index_of i) (request_monitor L i)
      else request_monitor L j)"
    and "request_monitor (end_transaction i L) j = (if j = i
      then Monitor_EndTransaction (request_monitor L i) else request_monitor L j)"
  using request_monitor_set [OF assms] by (simp_all add: begin_transaction_def end_transaction_def)

lemma begun_wf [simp]:
  "wf_layout (begin_transaction now h i L) = wf_layout L" "wf_layout (end_transaction i L) = wf_layout L"
  by (cases i; simp add: begin_transaction_def end_transaction_def wf_layout_def)+

lemma Peek_of_contents:
  assumes "Layout_inv this L" and "i \<in> set queue_ids"
  shows "case layout_contents (L, m) i of
      [] \<Rightarrow> Spsc_Peek MsgHeader_type (cap_of i) (queue_of L i) = None
    | h # _ \<Rightarrow> \<exists>p. Spsc_Peek MsgHeader_type (cap_of i) (queue_of L i) = Some p \<and> object_at MsgHeader_type m p = h"
  using front_of_contents [OF assms, of m] by (auto simp: Spsc_front_def split: list.splits)

text \<open>An iteration with nothing to do, and one that processes the front request.\<close>

lemma worker_iteration_idle:
  assumes "Layout_inv this L" and "i \<in> set request_rings"
    and "layout_contents (L, m) i = [] \<or> Monitor_IsProcessing (request_monitor L i)"
  shows "worker_iteration now i (L, m) = (False, L, m)"
  using assms(3) Peek_of_contents [OF assms(1) request_rings_in [OF assms(2)], of m]
  by (auto simp: worker_iteration_def split: option.split list.splits)

lemma worker_iteration_front:
  assumes inv: "Layout_inv this L" and i: "i \<in> set request_rings"
    and idle: "\<not> Monitor_IsProcessing (request_monitor L i)" and c: "layout_contents (L, m) i = h # xs"
  obtains L' m' where "worker_iteration now i (L, m) = (True, L', m')" and "Layout_inv this L'"
    and "\<And>j. j \<in> set queue_ids \<Longrightarrow> layout_contents (L', m') j = (if j = i then xs else layout_contents (L, m) j)"
    and "\<And>j. j \<in> set request_rings \<Longrightarrow> request_monitor L' j = (if j = i
      then Monitor_EndTransaction (Monitor_BeginTransaction now (seq_id h) (group_of i) (index_of i) (request_monitor L i))
      else request_monitor L j)"
proof -
  let ?L = "end_transaction i (begin_transaction now h i L)"
  have wf: "wf_layout L" using inv by (simp add: Layout_inv_def)
  note q = request_rings_in [OF i]
  obtain p where peek: "Spsc_Peek MsgHeader_type (cap_of i) (queue_of L i) = Some p" "object_at MsgHeader_type m p = h"
    using Peek_of_contents [OF inv q, of m] c by auto
  have front: "Spsc_front MsgHeader_type (cap_of i) (queue_of ?L i, m) = Some h"
    using peek by (simp add: Spsc_front_def)
  obtain ok q' m' where pop: "Spsc_Pop MsgHeader_type (cap_of i) (queue_of ?L i, m) = (ok, q', m')"
    using prod_cases3 by blast
  have inv': "Layout_inv this ?L" using inv by simp
  note e = pop_queue_effect [OF inv' q front pop]
  have "worker_iteration now i (L, m) = (True, set_queue i q' ?L, m')"
    using peek idle pop by (simp add: worker_iteration_def Let_def)
  moreover have "layout_contents (set_queue i q' ?L, m') j = (if j = i then xs else layout_contents (L, m) j)"
    if "j \<in> set queue_ids" for j
    using e(3,4) that c by simp
  moreover have "request_monitor (set_queue i q' ?L) j = (if j = i
      then Monitor_EndTransaction (Monitor_BeginTransaction now (seq_id h) (group_of i) (index_of i) (request_monitor L i))
      else request_monitor L j)" if "j \<in> set request_rings" for j
    using that i wf by (simp add: begun_monitor)
  ultimately show thesis using e(2) that by blast
qed

text \<open>The loop takes one request in each iteration until none is left.\<close>

lemma worker_loop_effect:
  assumes "Layout_inv this L" and i: "i \<in> set request_rings"
    and "\<not> Monitor_IsProcessing (request_monitor L i)"
  shows "\<exists>L' m'. worker_loop ticks i (L, m) =
      (of_nat (min (length ticks) (length (layout_contents (L, m) i))), L', m') \<and> Layout_inv this L' \<and>
    (\<forall>j \<in> set queue_ids. layout_contents (L', m') j =
       (if j = i then drop (length ticks) (layout_contents (L, m) i) else layout_contents (L, m) j)) \<and>
    (\<forall>j \<in> set request_rings. if j = i then \<not> Monitor_IsProcessing (request_monitor L' j)
       else request_monitor L' j = request_monitor L j)"
  using assms(1,3)
proof (induction ticks arbitrary: L m)
  case Nil
  then show ?case by auto
next
  case (Cons now ticks)
  show ?case
  proof (cases "layout_contents (L, m) i")
    case nil: Nil
    obtain L' m' where "worker_loop ticks i (L, m) = (0, L', m')" "Layout_inv this L'"
      "\<forall>j \<in> set queue_ids. layout_contents (L', m') j = (if j = i then [] else layout_contents (L, m) j)"
      "\<forall>j \<in> set request_rings. if j = i then \<not> Monitor_IsProcessing (request_monitor L' j)
       else request_monitor L' j = request_monitor L j"
      using Cons.IH [OF Cons.prems, of m] nil by auto
    then show ?thesis using worker_iteration_idle [OF Cons.prems(1) i, of m now] nil by simp
  next
    case front: (Cons h xs)
    obtain L1 m1 where it: "worker_iteration now i (L, m) = (True, L1, m1)" and inv1: "Layout_inv this L1"
      and c1: "\<And>j. j \<in> set queue_ids \<Longrightarrow> layout_contents (L1, m1) j = (if j = i then xs else layout_contents (L, m) j)"
      and mon1: "\<And>j. j \<in> set request_rings \<Longrightarrow> request_monitor L1 j = (if j = i
        then Monitor_EndTransaction (Monitor_BeginTransaction now (seq_id h) (group_of i) (index_of i) (request_monitor L i))
        else request_monitor L j)"
      by (rule worker_iteration_front [OF Cons.prems(1) i Cons.prems(2) front, where now = now]) (rule that; blast)
    have "\<not> Monitor_IsProcessing (request_monitor L1 i)" using mon1 [OF i] by simp
    then obtain L' m' where "worker_loop ticks i (L1, m1) = (of_nat (min (length ticks) (length xs)), L', m')"
      "Layout_inv this L'"
      "\<forall>j \<in> set queue_ids. layout_contents (L', m') j =
         (if j = i then drop (length ticks) xs else layout_contents (L1, m1) j)"
      "\<forall>j \<in> set request_rings. if j = i then \<not> Monitor_IsProcessing (request_monitor L' j)
         else request_monitor L' j = request_monitor L1 j"
      using Cons.IH [OF inv1, of m1] c1 [OF request_rings_in [OF i]] by auto
    then show ?thesis using it front c1 mon1 by (auto simp: add.commute)
  qed
qed

text \<open>An iteration is a run of the single actions.\<close>

lemma worker_iteration_steps:
  assumes i: "i \<in> set request_rings" and pc: "wl_pc s i = W_idle" and g: "g = wl_segment s"
    and it: "worker_iteration now i (ss_layout g, ss_memory g) = (processed, L, m)"
  shows "\<exists>t. worker_step\<^sup>*\<^sup>* s t \<and> ss_layout (wl_segment t) = L \<and> ss_memory (wl_segment t) = m \<and> wl_pc t i = W_idle"
proof (cases "Spsc_Peek MsgHeader_type (cap_of i) (queue_of (ss_layout g) i) = None \<or>
    Monitor_IsProcessing (request_monitor (ss_layout g) i)")
  case True
  then show ?thesis using it pc g by (intro exI [of _ s]) (auto simp: worker_iteration_def split: option.splits)
next
  case False
  then obtain p where peek: "Spsc_Peek MsgHeader_type (cap_of i) (queue_of (ss_layout g) i) = Some p"
    and idle: "\<not> Monitor_IsProcessing (request_monitor (ss_layout g) i)" by auto
  let ?h = "object_at MsgHeader_type (ss_memory g) p"
  let ?L = "end_transaction i (begin_transaction now ?h i (ss_layout g))"
  obtain ok q m' where pop: "Spsc_Pop MsgHeader_type (cap_of i) (queue_of ?L i, ss_memory g) = (ok, q, m')"
    using prod_cases3 by blast
  let ?s1 = "s\<lparr>wl_pc := (wl_pc s)(i := W_peeked ?h)\<rparr>"
  let ?s2 = "?s1\<lparr>wl_segment := g\<lparr>ss_layout := begin_transaction now ?h i (ss_layout g)\<rparr>,
    wl_pc := (wl_pc s)(i := W_begun ?h)\<rparr>"
  let ?s3 = "?s2\<lparr>wl_segment := g\<lparr>ss_layout := ?L\<rparr>, wl_pc := (wl_pc s)(i := W_ended ?h),
    wl_finished := (wl_finished s)(i := wl_finished s i @ [?h])\<rparr>"
  have "worker_step s ?s1" using wk_peek [OF i g pc _ idle] peek by (simp add: Spsc_front_def)
  moreover have "worker_step ?s1 ?s2" using wk_begin [OF i, of g ?s1 ?h now] g by simp
  moreover have "worker_step ?s2 ?s3" using wk_end [OF i refl, of ?s2 ?h] by simp
  moreover obtain t where "worker_step ?s3 t"
    and "ss_layout (wl_segment t) = set_queue i q ?L" "ss_memory (wl_segment t) = m'" "wl_pc t i = W_idle"
    using wk_pop [OF i refl, of ?s3 ?h ok q m'] pop by simp
  moreover have "L = set_queue i q ?L" "m = m'"
    using it peek idle pop by (simp_all add: worker_iteration_def Let_def)
  ultimately show ?thesis by (metis (no_types, lifting) converse_rtranclp_into_rtranclp rtranclp.rtrancl_refl)
qed

text \<open>One more request in a ring with room.\<close>

lemma one_more:
  assumes "Layout_inv this L" and "i \<in> set queue_ids" and "length (layout_contents (L, m) i) < unat (cap_of i)"
  shows "\<exists>L' m'. Layout_inv this L' \<and> layout_contents (L', m') i = layout_contents (L, m) i @ [h] \<and>
    request_monitor L' = request_monitor L"
proof (rule push_queue_effect [OF assms, of h])
  fix q m'
  assume "Layout_inv this (set_queue i q L)"
    and "\<And>j. j \<in> set queue_ids \<Longrightarrow>
      layout_contents (set_queue i q L, m') j = layout_contents (L, m) j @ (if j = i then [h] else [])"
  then show ?thesis
    using assms(2) by (intro exI [of _ "set_queue i q L"] exI [of _ m']) (simp add: fun_eq_iff)
qed

section \<open>Properties\<close>



text \<open>
  C12. A worker that is left running catches up: as many iterations of its loop as there are requests
  in its ring process all of them, whatever the clock shows, and count them; the ring is empty
  then, the worker is outside of any transaction, the layout is still well formed, and the other
  rings and monitors are as they were. Fewer iterations take as many requests from the front.
\<close>

theorem Worker_loop_catches_up:
  assumes "Layout_inv this L" and "i \<in> set request_rings"
    and "\<not> Monitor_IsProcessing (request_monitor L i)"
  shows "case worker_loop ticks i (L, m) of
      (local_ops, L', m') \<Rightarrow>
        unat local_ops = min (length ticks) (length (layout_contents (L, m) i)) \<and> Layout_inv this L' \<and>
        layout_contents (L', m') i = drop (length ticks) (layout_contents (L, m) i) \<and>
        \<not> Monitor_IsProcessing (request_monitor L' i) \<and>
        (\<forall>j \<in> set queue_ids. j \<noteq> i \<longrightarrow> layout_contents (L', m') j = layout_contents (L, m) j) \<and>
        (\<forall>j \<in> set request_rings. j \<noteq> i \<longrightarrow> request_monitor L' j = request_monitor L j)"
proof -
  note q = request_rings_in [OF assms(2)]
  obtain L' m' where loop: "worker_loop ticks i (L, m) =
      (of_nat (min (length ticks) (length (layout_contents (L, m) i))), L', m')" and inv: "Layout_inv this L'"
    and c: "\<forall>j \<in> set queue_ids. layout_contents (L', m') j =
       (if j = i then drop (length ticks) (layout_contents (L, m) i) else layout_contents (L, m) j)"
    and mon: "\<forall>j \<in> set request_rings. if j = i then \<not> Monitor_IsProcessing (request_monitor L' j)
       else request_monitor L' j = request_monitor L j"
    using worker_loop_effect [OF assms] by blast
  have "length (layout_contents (L, m) i) < 2 ^ 64"
    using layout_contents_bound [OF assms(1) q, of m] unat_u64_lt [of "cap_of i"] by (rule le_less_trans)
  then have "min (length ticks) (length (layout_contents (L, m) i)) < 2 ^ 64" by linarith
  then show ?thesis using loop inv c mon q assms(2) by (auto simp: unat_of_nat_u64)
qed

theorem Worker_loop_catches_up_witness:
  "\<exists>L m. layout_contents (L, m) (VipRequest 1) = [sample_request] \<and>
     (case worker_loop [1, 2, 3] (VipRequest 1) (L, m) of
        (local_ops, L', m') \<Rightarrow> unat local_ops = 1 \<and> layout_contents (L', m') (VipRequest 1) = [])"
proof -
  let ?i = "VipRequest 1"
  have i: "?i \<in> set request_rings" by (simp add: request_rings_def request_ids_values)
  note q = request_rings_in [OF i]
  obtain L m where inv: "Layout_inv 65536 L" and c: "layout_contents (L, m) ?i = [sample_request]"
      and mon: "request_monitor L = request_monitor fresh_layout"
    using one_more [OF fresh_layout_inv q, of "\<lambda>_. 0" sample_request] fresh_layout_empty [OF q]
    by (auto simp: layout_consts)
  have "\<not> Monitor_IsProcessing (request_monitor L ?i)"
    by (simp add: mon Layout_GetVipMonitor_def fresh_layout_def initialized_layout_def monitor_defs nth_Cons')
  from Worker_loop_catches_up [OF inv i this, where ticks = "[1, 2, 3]" and m = m] c show ?thesis
    by (intro exI [of _ L] exI [of _ m]) (simp add: split_beta)
qed

text \<open>
  C31. Recovery has to know that the workers are dead, and nothing in the layout tells it: run while a
  worker is inside a transaction, as the recovery threads of the stress tests do, it skips the
  request in work, and the worker that ends its transaction and pops takes the next request out of
  the ring, which nobody has processed.
\<close>

theorem Recovery_of_live_worker_loses:
  assumes inv: "Layout_inv this L" and i: "i \<in> set request_rings"
    and c: "layout_contents (L, m) i = h1 # h2 # xs"
  shows "case Layout_RecoverCrashedWorkers (begin_transaction now h1 i L) of
      (_, L2) \<Rightarrow>
        layout_contents (L2, m) i = h2 # xs \<and> \<not> Monitor_IsProcessing (request_monitor L2 i) \<and>
        (case Spsc_Pop MsgHeader_type (cap_of i) (queue_of (end_transaction i L2) i, m) of
           (ok, q, m') \<Rightarrow> ok \<and> layout_contents (set_queue i q (end_transaction i L2), m') i = xs)"
proof -
  let ?L1 = "begin_transaction now h1 i L"
  let ?L2 = "recovered_layout ?L1"
  have inv1: "Layout_inv this ?L1" using inv by simp
  then have wf: "wf_layout ?L1" "wf_layout L" by (simp_all only: Layout_inv_def begun_wf)
  note q = request_rings_in [OF i]
  have busy: "worker_crashed ?L1 i"
    using wf(2) i by (simp add: crashed_processing begun_monitor monitor_defs)
  note rq = recovered_queue [OF inv1 q, where m = m]
  have c2: "layout_contents (?L2, m) i = h2 # xs" using rq(2) busy c by simp
  have idle: "\<not> Monitor_IsProcessing (request_monitor ?L2 i)"
    using crashed_recovered [OF i, of ?L1] by (simp add: crashed_processing [OF i])
  have sinv: "Spsc_inv MsgHeader_type (cap_of i) (queue_of ?L2 i)" using rq(1) c by simp
  have "length (layout_contents (?L2, m) i) = Suc (length xs)" using c2 by simp
  then have size: "0 < unat (Spsc_Size (queue_of ?L2 i))" by (simp add: layout_contents_def)
  have "Spsc_contents MsgHeader_type (cap_of i)
      (Spsc_ForceAdvanceReadIndex 1 (queue_of ?L2 i),
       destroy_at MsgHeader_type m (Spsc_GetElementPtr MsgHeader_type (cap_of i) (queue_of ?L2 i) (rb_read_idx (queue_of ?L2 i)))) = xs"
    using msg.Pop_contents [OF sinv size, of m] c2 by (simp add: layout_contents_def)
  then have "layout_contents (set_queue i (Spsc_ForceAdvanceReadIndex 1 (queue_of ?L2 i)) (end_transaction i ?L2),
      destroy_at MsgHeader_type m (Spsc_GetElementPtr MsgHeader_type (cap_of i) (queue_of ?L2 i) (rb_read_idx (queue_of ?L2 i)))) i = xs"
    using queue_of_set_queue [OF _ q q, of "end_transaction i ?L2"] by (simp add: layout_contents_def recovered_wf)
  then show ?thesis
    using c2 idle by (simp add: Layout_Recover_eq [OF wf(1)] msg.Pop_nonempty [OF size])
qed

theorem Recovery_of_live_worker_loses_witness:
  "\<exists>L m. layout_contents (L, m) (NormalRequest 0) = [sample_request, sample_request\<lparr>seq_id := 8\<rparr>] \<and>
     (case Layout_RecoverCrashedWorkers (begin_transaction 0 sample_request (NormalRequest 0) L) of
        (_, L2) \<Rightarrow> layout_contents (L2, m) (NormalRequest 0) = [sample_request\<lparr>seq_id := 8\<rparr>])"
proof -
  let ?i = "NormalRequest 0"
  have i: "?i \<in> set request_rings" by (simp add: request_rings_def request_ids_values)
  have q: "?i \<in> set queue_ids" by (rule request_rings_in [OF i])
  obtain L1 m1 where inv1: "Layout_inv 65536 L1" and c1: "layout_contents (L1, m1) ?i = [sample_request]"
    using one_more [OF fresh_layout_inv q, of "\<lambda>_. 0" sample_request] fresh_layout_empty [OF q]
    by (auto simp: layout_consts)
  obtain L2 m2 where inv2: "Layout_inv 65536 L2"
      and c2: "layout_contents (L2, m2) ?i = [sample_request, sample_request\<lparr>seq_id := 8\<rparr>]"
    using one_more [OF inv1 q, of m1 "sample_request\<lparr>seq_id := 8\<rparr>"] c1 by (auto simp: layout_consts)
  show ?thesis
    using Recovery_of_live_worker_loses [OF inv2 i c2, of 0] c2 by (auto simp: split_beta)
qed

end
