(* ===== verification/Unit_Tests.thy ===== *)
theory Unit_Tests
  imports Worker_Loop
begin

text \<open>
  The unit tests of \<open>test/unit_tests.cpp\<close> and \<open>test/crash_recovery_test.cpp\<close> and the
  deterministic crash tests of \<open>test/stress_test.cpp\<close>, run on the model. A test is the conjunction
  of its expectations; an \<open>ASSERT\<close> that fails ends it, so nothing behind it counts. The buffer a
  test allocates is an address and an arbitrary memory, the clock an argument. All of them pass, the
  crash test for any number of messages and any place of the crash.
\<close>

section \<open>Rings of test messages\<close>

text \<open>\<open>TestMessage\<close>; its 64 payload characters are the bytes of one word.\<close>

record TestMessage =
  ut_seq_id :: u64
  ut_func_id :: u32
  ut_payload_len :: u32
  ut_payload :: "512 word"

definition TestMessage_type :: "TestMessage cpp_type" where
  "TestMessage_type =
     \<lparr>size_of = 80,
      obj_bytes = (\<lambda>x. le_bytes 8 (ut_seq_id x) @ le_bytes 4 (ut_func_id x) @ le_bytes 4 (ut_payload_len x)
        @ le_bytes 64 (ut_payload x)),
      obj_value = (\<lambda>bs. \<lparr>ut_seq_id = le_value (take 8 bs), ut_func_id = le_value (take 4 (drop 8 bs)),
        ut_payload_len = le_value (take 4 (drop 12 bs)), ut_payload = le_value (take 64 (drop 16 bs))\<rparr>),
      obj_destroy = (\<lambda>bs. bs)\<rparr>"

interpretation test_message: object_type TestMessage_type
  by unfold_locales (simp_all add: TestMessage_type_def)

definition Test_kCapacity :: u64 where "Test_kCapacity = 16"

text \<open>The queue every test of the fixture begins with.\<close>

definition test_queue :: "address \<Rightarrow> SpscRingBuffer" where
  "test_queue buffer = Spsc_construct buffer (size_of TestMessage_type * Test_kCapacity)"

text \<open>The loops of the tests: push values that all have to be accepted, and take values out whose
  keys have to be the given ones.\<close>

fun push_each :: "'a cpp_type \<Rightarrow> u64 \<Rightarrow> 'a list \<Rightarrow> SpscRingBuffer \<times> memory \<Rightarrow> bool \<times> SpscRingBuffer \<times> memory" where
  "push_each T cap [] s = (True, s)"
| "push_each T cap (x # xs) s =
     (let (ok, s) = Spsc_Push T cap x s; (oks, s) = push_each T cap xs s in (ok \<and> oks, s))"

fun pop_each ::
  "'a cpp_type \<Rightarrow> u64 \<Rightarrow> ('a \<Rightarrow> u64) \<Rightarrow> u64 list \<Rightarrow> SpscRingBuffer \<times> memory \<Rightarrow> bool \<times> SpscRingBuffer \<times> memory" where
  "pop_each T cap key [] s = (True, s)"
| "pop_each T cap key (e # es) s =
     (case Spsc_Peek T cap (fst s) of
        None \<Rightarrow> (False, s)
      | Some p \<Rightarrow>
          let seen = key (object_at T (snd s) p);
              (popped, s) = Spsc_Pop T cap s;
              (rest, s) = pop_each T cap key es s
          in (seen = e \<and> popped \<and> rest, s))"

definition Test_BasicPushPop :: "address \<Rightarrow> memory \<Rightarrow> bool" where
  "Test_BasicPushPop buffer m =
     (let T = TestMessage_type; q = test_queue buffer;
          x = \<lparr>ut_seq_id = 1, ut_func_id = 100, ut_payload_len = 0, ut_payload = 0\<rparr>;
          (pushed, q, m) = Spsc_Push T Test_kCapacity x (q, m)
      in pushed \<and> \<not> Spsc_Empty q \<and> Spsc_Size q = 1 \<and>
         (case Spsc_Peek T Test_kCapacity q of
            None \<Rightarrow> False
          | Some peeked \<Rightarrow>
              ut_seq_id (object_at T m peeked) = 1 \<and>
              (let (popped, q, m) = Spsc_Pop T Test_kCapacity (q, m)
               in popped \<and> Spsc_Empty q \<and> Spsc_Size q = 0)))"

definition test_messages :: "u64 \<Rightarrow> u32 \<Rightarrow> u32 \<Rightarrow> nat \<Rightarrow> TestMessage list" where
  "test_messages base func step n =
     map (\<lambda>i. \<lparr>ut_seq_id = base + of_nat i, ut_func_id = func + step * of_nat i, ut_payload_len = 0,
               ut_payload = 0\<rparr>) [0..<n]"

definition Test_PushPopMultiple :: "address \<Rightarrow> memory \<Rightarrow> bool" where
  "Test_PushPopMultiple buffer m =
     (let T = TestMessage_type; s = (test_queue buffer, m);
          (filled, s) = push_each T Test_kCapacity (test_messages 0 100 1 (unat Test_kCapacity)) s;
          full = Spsc_Full Test_kCapacity (fst s);
          count = Spsc_Size (fst s);
          (extra, s) = Spsc_Push T Test_kCapacity
            \<lparr>ut_seq_id = 100, ut_func_id = 200, ut_payload_len = 0, ut_payload = 0\<rparr> s;
          (emptied, s) = pop_each T Test_kCapacity ut_seq_id (map of_nat [0..<unat Test_kCapacity]) s
      in filled \<and> full \<and> count = Test_kCapacity \<and> \<not> extra \<and> emptied \<and> Spsc_Empty (fst s))"

fun wrap_rounds :: "nat list \<Rightarrow> SpscRingBuffer \<times> memory \<Rightarrow> bool" where
  "wrap_rounds [] s = True"
| "wrap_rounds (round # rest) s =
     (let T = TestMessage_type; base = of_nat round * Test_kCapacity;
          (filled, s) = push_each T Test_kCapacity (test_messages base (100 + of_nat round) 0 (unat Test_kCapacity)) s;
          (emptied, s) = pop_each T Test_kCapacity ut_seq_id
            (map (\<lambda>i. base + of_nat i) [0..<unat Test_kCapacity]) s
      in filled \<and> emptied \<and> wrap_rounds rest s)"

definition Test_WrapAround :: "address \<Rightarrow> memory \<Rightarrow> bool" where
  "Test_WrapAround buffer m = wrap_rounds [0..<4] (test_queue buffer, m)"

definition Test_ForceAdvanceReadIndex :: "address \<Rightarrow> memory \<Rightarrow> bool" where
  "Test_ForceAdvanceReadIndex buffer m =
     (let T = TestMessage_type;
          (filled, q, m) = push_each T Test_kCapacity (test_messages 0 100 0 4) (test_queue buffer, m);
          q = Spsc_ForceAdvanceReadIndex 2 q
      in filled \<and> Spsc_Size q = 2 \<and>
         (case Spsc_Peek T Test_kCapacity q of
            None \<Rightarrow> False
          | Some p \<Rightarrow> ut_seq_id (object_at T m p) = 2))"

section \<open>Monitors\<close>

definition Test_InitialState :: bool where
  "Test_InitialState \<longleftrightarrow>
     (let monitor = Monitor_construct
      in \<not> Monitor_IsProcessing monitor \<and> Monitor_GetProcessingSeq monitor = 0 \<and>
         Monitor_GetGroupId monitor = 0 \<and> Monitor_GetWorkerIndex monitor = 0)"

definition Test_BeginEndTransaction :: "u64 \<Rightarrow> bool" where
  "Test_BeginEndTransaction now \<longleftrightarrow>
     (let monitor = Monitor_BeginTransaction now 12345 1 2 Monitor_construct
      in Monitor_IsProcessing monitor \<and> Monitor_GetProcessingSeq monitor = 12345 \<and>
         Monitor_GetGroupId monitor = 1 \<and> Monitor_GetWorkerIndex monitor = 2 \<and>
         Monitor_GetStartTimestamp monitor \<noteq> 0 \<and>
         \<not> Monitor_IsProcessing (Monitor_EndTransaction monitor))"

definition Test_Reset :: "u64 \<Rightarrow> bool" where
  "Test_Reset now \<longleftrightarrow>
     (let monitor = Monitor_Reset (Monitor_BeginTransaction now 999 1 1 Monitor_construct)
      in \<not> Monitor_IsProcessing monitor \<and> Monitor_GetProcessingSeq monitor = 0)"

section \<open>Crash recovery\<close>

text \<open>The fixture allocates twice \<open>RequiredSize()\<close> bytes, so that, unlike in the server's segment, all
  twelve rings lie inside of it.\<close>

definition Crash_SetUp :: "address \<Rightarrow> bool \<times> PhoenixShmLayout" where
  "Crash_SetUp shm_addr = Layout_Initialize shm_addr (Layout_RequiredSize * 2) Layout_construct"

definition ring_push :: "queue_id \<Rightarrow> MsgHeader \<Rightarrow> PhoenixShmLayout \<times> memory \<Rightarrow> bool \<times> PhoenixShmLayout \<times> memory" where
  "ring_push i h s =
     (let (L, m) = s;
          (ok, q, m) = Spsc_Push MsgHeader_type (cap_of i) h (queue_of L i, m)
      in (ok, set_queue i q L, m))"

definition Test_LayoutInitialization :: "address \<Rightarrow> bool" where
  "Test_LayoutInitialization shm_addr \<longleftrightarrow>
     (let (ok, L) = Crash_SetUp shm_addr
      in ok \<and> Layout_IsValid L \<and> pl_magic_number L = kMagicNumber \<and> pl_version L = kVersion)"

definition Test_NormalWorkerSelection :: "address \<Rightarrow> bool" where
  "Test_NormalWorkerSelection shm_addr \<longleftrightarrow>
     (let (ok, L) = Crash_SetUp shm_addr
      in ok \<and> Layout_ScanCrashedWorkers L = 0 \<and> Layout_FindBestNormalWorker L = 0 \<and>
         Layout_FindBestVipWorker L = 0)"

definition Test_PoisonPillSkip :: "u64 \<Rightarrow> address \<Rightarrow> memory \<Rightarrow> bool" where
  "Test_PoisonPillSkip now shm_addr m \<longleftrightarrow>
     (let (ok, L) = Crash_SetUp shm_addr;
          i = NormalRequest 0;
          (pushed, L, m) = ring_push i \<lparr>seq_id = 100, func_id = 1, payload_len = 64\<rparr> (L, m);
          L = set_monitor i (Monitor_BeginTransaction now 100 0 0 (request_monitor L i)) L;
          crashed = Layout_ScanCrashedWorkers L;
          (recovered, L) = Layout_RecoverCrashedWorkers L
      in ok \<and> pushed \<and> crashed = 1 \<and> recovered = 1 \<and>
         \<not> Monitor_IsProcessing (request_monitor L i) \<and> Layout_ScanCrashedWorkers L = 0 \<and>
         Spsc_Empty (queue_of L i))"

definition Test_MultipleCrashRecovery :: "u64 \<Rightarrow> address \<Rightarrow> memory \<Rightarrow> bool" where
  "Test_MultipleCrashRecovery now shm_addr m \<longleftrightarrow>
     (let (ok, L) = Crash_SetUp shm_addr;
          i = NormalRequest 0;
          j = VipRequest 1;
          (pushed, L, m) = ring_push i \<lparr>seq_id = 100, func_id = 1, payload_len = 64\<rparr> (L, m);
          (pushed2, L, m) = ring_push j \<lparr>seq_id = 101, func_id = 2, payload_len = 64\<rparr> (L, m);
          L = set_monitor i (Monitor_BeginTransaction now 100 0 0 (request_monitor L i)) L;
          L = set_monitor j (Monitor_BeginTransaction now 101 1 1 (request_monitor L j)) L;
          crashed = Layout_ScanCrashedWorkers L;
          (recovered, L) = Layout_RecoverCrashedWorkers L
      in ok \<and> pushed \<and> pushed2 \<and> crashed = 2 \<and> recovered = 2 \<and>
         \<not> Monitor_IsProcessing (request_monitor L i) \<and> \<not> Monitor_IsProcessing (request_monitor L j) \<and>
         Spsc_Empty (queue_of L i) \<and> Spsc_Empty (queue_of L j))"

text \<open>
  \<open>WorkerCrashNoMessageLoss\<close>, for any number \<open>n\<close> of messages and any number \<open>k\<close> of them processed
  before the crash. \<open>process_front\<close> is the body of its loops: look at the front request, run a
  transaction on it, pop.
\<close>

definition process_front :: "u64 \<Rightarrow> queue_id \<Rightarrow> PhoenixShmLayout \<times> memory \<Rightarrow> (MsgHeader \<times> PhoenixShmLayout \<times> memory) option" where
  "process_front now i s =
     (let (L, m) = s
      in case Spsc_Peek MsgHeader_type (cap_of i) (queue_of L i) of
           None \<Rightarrow> None
         | Some req \<Rightarrow>
             let h = object_at MsgHeader_type m req;
                 L = end_transaction i (begin_transaction now h i L);
                 (_, q, m) = Spsc_Pop MsgHeader_type (cap_of i) (queue_of L i, m)
             in Some (h, set_queue i q L, m))"

fun push_requests :: "queue_id \<Rightarrow> MsgHeader list \<Rightarrow> PhoenixShmLayout \<times> memory \<Rightarrow> bool \<times> PhoenixShmLayout \<times> memory" where
  "push_requests i [] s = (True, s)"
| "push_requests i (h # hs) s =
     (let (ok, s) = ring_push i h s; (oks, s) = push_requests i hs s in (ok \<and> oks, s))"

fun process_expecting :: "u64 \<Rightarrow> queue_id \<Rightarrow> u64 list \<Rightarrow> PhoenixShmLayout \<times> memory \<Rightarrow> bool \<times> PhoenixShmLayout \<times> memory" where
  "process_expecting now i [] s = (True, s)"
| "process_expecting now i (e # es) s =
     (case process_front now i s of
        None \<Rightarrow> (False, s)
      | Some (h, s) \<Rightarrow> let (rest, s) = process_expecting now i es s in (seq_id h = e \<and> rest, s))"

text \<open>The final loop ends when the ring is empty; \<open>fuel\<close> bounds it. The result is whether all
  expectations held, and the number the next request would have to carry.\<close>

fun process_all :: "nat \<Rightarrow> u64 \<Rightarrow> queue_id \<Rightarrow> nat \<Rightarrow> PhoenixShmLayout \<times> memory \<Rightarrow> (bool \<times> nat \<times> PhoenixShmLayout \<times> memory) option" where
  "process_all fuel now i expected s =
     (if Spsc_Empty (queue_of (fst s) i) then Some (True, expected, s)
      else case fuel of
             0 \<Rightarrow> None
           | Suc fuel \<Rightarrow>
               (case process_front now i s of
                  None \<Rightarrow> Some (False, expected, s)
                | Some (h, s) \<Rightarrow>
                    map_option (\<lambda>(ok, r). (seq_id h = of_nat expected \<and> ok, r))
                      (process_all fuel now i (Suc expected) s)))"

definition test_requests :: "u32 \<Rightarrow> u32 \<Rightarrow> nat \<Rightarrow> MsgHeader list" where
  "test_requests func plen n = map (\<lambda>i. \<lparr>seq_id = of_nat i, func_id = func, payload_len = plen\<rparr>) [0..<n]"

definition Test_WorkerCrashNoMessageLoss :: "nat \<Rightarrow> nat \<Rightarrow> u64 \<Rightarrow> address \<Rightarrow> memory \<Rightarrow> bool" where
  "Test_WorkerCrashNoMessageLoss n k now shm_addr m \<longleftrightarrow>
     (let (ok, L) = Crash_SetUp shm_addr;
          i = NormalRequest 0;
          (pushed, L, m) = push_requests i (test_requests 1 64 n) (L, m);
          sent = Spsc_Size (queue_of L i);
          (processed, L, m) = process_expecting now i (map of_nat [0..<k]) (L, m);
          left_over = Spsc_Size (queue_of L i)
      in ok \<and> pushed \<and> sent = of_nat n \<and> processed \<and> left_over = of_nat (n - k) \<and>
         (case Spsc_Peek MsgHeader_type (cap_of i) (queue_of L i) of
            None \<Rightarrow> False
          | Some crash_msg \<Rightarrow>
              let h = object_at MsgHeader_type m crash_msg;
                  L = begin_transaction now h i L;
                  crashed = Layout_ScanCrashedWorkers L;
                  busy = Monitor_IsProcessing (request_monitor L i);
                  waiting = Spsc_Size (queue_of L i);
                  (recovered, L) = Layout_RecoverCrashedWorkers L
              in seq_id h = of_nat k \<and> busy \<and> crashed = 1 \<and> waiting = of_nat (n - k) \<and> recovered = 1 \<and>
                 \<not> Monitor_IsProcessing (request_monitor L i) \<and> Layout_ScanCrashedWorkers L = 0 \<and>
                 Spsc_Size (queue_of L i) = of_nat (n - k - 1) \<and>
                 (case process_all n now i (k + 1) (L, m) of
                    None \<Rightarrow> False
                  | Some (in_order, expected, L, m) \<Rightarrow>
                      in_order \<and> Spsc_Empty (queue_of L i) \<and> expected = n)))"

text \<open>The other crash tests: their loops and the crash do nothing on an empty ring.\<close>

fun process_times :: "nat \<Rightarrow> u64 \<Rightarrow> queue_id \<Rightarrow> PhoenixShmLayout \<times> memory \<Rightarrow> PhoenixShmLayout \<times> memory" where
  "process_times 0 now i s = s"
| "process_times (Suc n) now i s =
     process_times n now i (case process_front now i s of None \<Rightarrow> s | Some (_, s') \<Rightarrow> s')"

definition crash_on_front :: "u64 \<Rightarrow> queue_id \<Rightarrow> PhoenixShmLayout \<times> memory \<Rightarrow> PhoenixShmLayout \<times> memory" where
  "crash_on_front now i s =
     (let (L, m) = s
      in case Spsc_Peek MsgHeader_type (cap_of i) (queue_of L i) of
           None \<Rightarrow> (L, m)
         | Some crash_msg \<Rightarrow> (begin_transaction now (object_at MsgHeader_type m crash_msg) i L, m))"

definition Test_MultipleWorkersCrashRecovery :: "u64 \<Rightarrow> address \<Rightarrow> memory \<Rightarrow> bool" where
  "Test_MultipleWorkersCrashRecovery now shm_addr m \<longleftrightarrow>
     (let (ok, L) = Crash_SetUp shm_addr;
          i = NormalRequest 0;
          j = NormalRequest 2;
          (pushed, s) = push_requests i (test_requests 1 64 50) (L, m);
          (pushed2, s) = push_requests j (test_requests 1 64 50) s;
          s = crash_on_front now i (process_times 20 now i s);
          s = crash_on_front now j (process_times 20 now j s);
          (L, m) = s;
          crashed_count = Layout_ScanCrashedWorkers L;
          (recovered, L) = Layout_RecoverCrashedWorkers L
      in ok \<and> pushed \<and> pushed2 \<and> crashed_count = 2 \<and> recovered = 2 \<and> Layout_ScanCrashedWorkers L = 0 \<and>
         Spsc_Size (queue_of L i) + Spsc_Size (queue_of L j) = 58)"

definition Test_VipWorkerCrashPriorityPreserved :: "u64 \<Rightarrow> address \<Rightarrow> memory \<Rightarrow> bool" where
  "Test_VipWorkerCrashPriorityPreserved now shm_addr m \<longleftrightarrow>
     (let (ok, L) = Crash_SetUp shm_addr;
          vip = VipRequest 0;
          normal = NormalRequest 0;
          (pushed, s) = push_requests vip (test_requests 2 128 20) (L, m);
          (pushed2, s) = push_requests normal (test_requests 1 64 100) s;
          (L, m) = crash_on_front now vip (process_times 5 now vip s);
          crashed = Layout_ScanCrashedWorkers L;
          (_, L) = Layout_RecoverCrashedWorkers L
      in ok \<and> pushed \<and> pushed2 \<and> crashed = 1 \<and> Layout_ScanCrashedWorkers L = 0 \<and>
         Spsc_Size (queue_of L vip) = 14 \<and> Spsc_Size (queue_of L normal) = 100)"

section \<open>The ring tests pass\<close>

context object_type
begin

lemma Size_contents: "Spsc_Size q = of_nat (length (Spsc_contents T cap (q, m)))"
  by simp

lemma push_one:
  assumes "Spsc_inv T cap q" and "length (Spsc_contents T cap (q, m)) < unat cap"
  obtains q' m' where "Spsc_Push T cap x (q, m) = (True, q', m')" and "Spsc_inv T cap q'"
    and "Spsc_contents T cap (q', m') = Spsc_contents T cap (q, m) @ [x]"
  using ring.push_room [where s = "(q, m)" and x = x and cap = cap] assms by auto

lemma pop_one:
  assumes "Spsc_inv T cap q" and "Spsc_contents T cap (q, m) = x # xs"
  obtains p q' m' where "Spsc_Peek T cap q = Some p" and "object_at T m p = x"
    and "Spsc_Pop T cap (q, m) = (True, q', m')" and "Spsc_inv T cap q'" and "Spsc_contents T cap (q', m') = xs"
  using ring.front_elems [where s = "(q, m)" and cap = cap] ring.pop_front [where s = "(q, m)" and cap = cap] assms
  by (auto simp: Spsc_front_def)

lemma push_each_ok:
  assumes "Spsc_inv T cap q" and "length (Spsc_contents T cap (q, m)) + length xs \<le> unat cap"
  shows "\<exists>q' m'. push_each T cap xs (q, m) = (True, q', m') \<and> Spsc_inv T cap q' \<and>
    Spsc_contents T cap (q', m') = Spsc_contents T cap (q, m) @ xs"
  using assms
proof (induction xs arbitrary: q m)
  case Nil
  then show ?case by simp
next
  case (Cons x xs)
  have "length (Spsc_contents T cap (q, m)) < unat cap" using Cons.prems(2) by simp
  with Cons.prems(1) obtain q' m' where 1: "Spsc_Push T cap x (q, m) = (True, q', m')" "Spsc_inv T cap q'"
    "Spsc_contents T cap (q', m') = Spsc_contents T cap (q, m) @ [x]"
    by (rule push_one)
  then show ?case using Cons.IH [OF 1(2), of m'] Cons.prems(2) by auto
qed

lemma pop_each_ok:
  assumes "Spsc_inv T cap q" and "Spsc_contents T cap (q, m) = ys @ zs"
  shows "\<exists>q' m'. pop_each T cap key (map key ys) (q, m) = (True, q', m') \<and> Spsc_inv T cap q' \<and>
    Spsc_contents T cap (q', m') = zs"
  using assms
proof (induction ys arbitrary: q m)
  case Nil
  then show ?case by simp
next
  case (Cons y ys)
  have "Spsc_contents T cap (q, m) = y # (ys @ zs)" using Cons.prems(2) by simp
  with Cons.prems(1) obtain p q' m' where 1: "Spsc_Peek T cap q = Some p" "object_at T m p = y"
    "Spsc_Pop T cap (q, m) = (True, q', m')" "Spsc_inv T cap q'" "Spsc_contents T cap (q', m') = ys @ zs"
    by (rule pop_one)
  then show ?case using Cons.IH [OF 1(4,5)] by auto
qed

end

lemma Spsc_Empty_size: "Spsc_Empty q \<longleftrightarrow> Spsc_Size q = 0"
  by (simp add: Spsc_Empty_iff unat_eq_0)

lemma test_queue_ok:
  "Spsc_inv TestMessage_type Test_kCapacity (test_queue buffer)"
  "Spsc_contents TestMessage_type Test_kCapacity (test_queue buffer, m) = []"
  by (simp_all add: Spsc_inv_def is_pow2_def test_queue_def Test_kCapacity_def TestMessage_type_def
      Spsc_construct_def Spsc_contents_def idx_contents_def)

lemma test_queue_room:
  "length (Spsc_contents TestMessage_type Test_kCapacity (test_queue buffer, m)) < unat Test_kCapacity"
  "length (Spsc_contents TestMessage_type Test_kCapacity (test_queue buffer, m)) + length (test_messages b f s 4)
     \<le> unat Test_kCapacity"
  unfolding test_queue_ok(2) by (simp_all add: Test_kCapacity_def test_messages_def)

lemma test_messages_simps [simp]:
  "length (test_messages base f s n) = n"
  "map ut_seq_id (test_messages base f s n) = map (\<lambda>i. base + of_nat i) [0..<n]"
  by (simp_all add: test_messages_def)

lemma BasicPushPop_passes: "Test_BasicPushPop buffer m"
proof -
  let ?x = "\<lparr>ut_seq_id = 1, ut_func_id = 100, ut_payload_len = 0, ut_payload = 0\<rparr>"
  obtain q1 m1 where 1: "Spsc_Push TestMessage_type Test_kCapacity ?x (test_queue buffer, m) = (True, q1, m1)"
    "Spsc_inv TestMessage_type Test_kCapacity q1" "Spsc_contents TestMessage_type Test_kCapacity (q1, m1) = [?x]"
    by (rule test_message.push_one [OF test_queue_ok(1) test_queue_room(1) [of buffer m], of ?x])
      (use test_queue_ok(2) in simp)
  from 1(2,3) obtain p q2 m2 where 2: "Spsc_Peek TestMessage_type Test_kCapacity q1 = Some p"
    "object_at TestMessage_type m1 p = ?x" "Spsc_Pop TestMessage_type Test_kCapacity (q1, m1) = (True, q2, m2)"
    "Spsc_contents TestMessage_type Test_kCapacity (q2, m2) = []"
    by (rule test_message.pop_one)
  show ?thesis
    using 1 2 test_message.Size_contents [of q1 Test_kCapacity m1] test_message.Size_contents [of q2 Test_kCapacity m2]
    by (simp add: Test_BasicPushPop_def Let_def Spsc_Empty_size)
qed

lemma fill_and_empty:
  assumes "Spsc_inv TestMessage_type Test_kCapacity q" and "Spsc_contents TestMessage_type Test_kCapacity (q, m) = []"
  obtains q1 m1 q2 m2 where
    "push_each TestMessage_type Test_kCapacity (test_messages base f s (unat Test_kCapacity)) (q, m) = (True, q1, m1)"
    "Spsc_inv TestMessage_type Test_kCapacity q1" "Spsc_Size q1 = Test_kCapacity"
    "Spsc_contents TestMessage_type Test_kCapacity (q1, m1) = test_messages base f s (unat Test_kCapacity)"
    "pop_each TestMessage_type Test_kCapacity ut_seq_id
       (map (\<lambda>i. base + of_nat i) [0..<unat Test_kCapacity]) (q1, m1) = (True, q2, m2)"
    "Spsc_inv TestMessage_type Test_kCapacity q2" "Spsc_contents TestMessage_type Test_kCapacity (q2, m2) = []"
proof -
  let ?xs = "test_messages base f s (unat Test_kCapacity)"
  obtain q1 m1 where 1: "push_each TestMessage_type Test_kCapacity ?xs (q, m) = (True, q1, m1)"
      "Spsc_inv TestMessage_type Test_kCapacity q1" "Spsc_contents TestMessage_type Test_kCapacity (q1, m1) = ?xs"
    using test_message.push_each_ok [OF assms(1), of m ?xs] assms(2) by auto
  have all: "Spsc_contents TestMessage_type Test_kCapacity (q1, m1) = ?xs @ []" using 1(3) by simp
  obtain q2 m2 where "pop_each TestMessage_type Test_kCapacity ut_seq_id (map ut_seq_id ?xs) (q1, m1) = (True, q2, m2)"
      "Spsc_inv TestMessage_type Test_kCapacity q2" "Spsc_contents TestMessage_type Test_kCapacity (q2, m2) = []"
    using test_message.pop_each_ok [OF 1(2) all, where key = ut_seq_id] by blast
  moreover have "Spsc_Size q1 = Test_kCapacity"
    using test_message.Size_contents [of q1 Test_kCapacity m1] 1(3) by simp
  ultimately show thesis using 1 that by simp
qed

lemma PushPopMultiple_passes: "Test_PushPopMultiple buffer m"
proof -
  let ?y = "\<lparr>ut_seq_id = 100, ut_func_id = 200, ut_payload_len = 0, ut_payload = 0\<rparr>"
  obtain q1 m1 q2 m2 where 1:
    "push_each TestMessage_type Test_kCapacity (test_messages 0 100 1 (unat Test_kCapacity)) (test_queue buffer, m) =
      (True, q1, m1)"
    "Spsc_Size q1 = Test_kCapacity"
    "pop_each TestMessage_type Test_kCapacity ut_seq_id
       (map (\<lambda>i. 0 + of_nat i) [0..<unat Test_kCapacity]) (q1, m1) = (True, q2, m2)"
    "Spsc_contents TestMessage_type Test_kCapacity (q2, m2) = []"
    by (rule fill_and_empty [OF test_queue_ok, of 0 100 1])
  have "Spsc_Push TestMessage_type Test_kCapacity ?y (q1, m1) = (False, q1, m1)"
    using test_message.Push_full [of Test_kCapacity q1 m1 ?y] 1(2) by simp
  then show ?thesis
    using 1 test_message.Size_contents [of q2 Test_kCapacity m2]
    by (simp add: Test_PushPopMultiple_def Let_def Spsc_Empty_size Spsc_Full_iff)
qed

lemma wrap_rounds_pass:
  assumes "Spsc_inv TestMessage_type Test_kCapacity q" and "Spsc_contents TestMessage_type Test_kCapacity (q, m) = []"
  shows "wrap_rounds rounds (q, m)"
  using assms
proof (induction rounds arbitrary: q m)
  case Nil
  then show ?case by simp
next
  case (Cons r rounds)
  show ?case
    by (rule fill_and_empty [OF Cons.prems, of "of_nat r * Test_kCapacity" "100 + of_nat r" 0])
      (use Cons.IH in \<open>simp add: Let_def\<close>)
qed

lemma ForceAdvanceReadIndex_passes: "Test_ForceAdvanceReadIndex buffer m"
proof -
  let ?xs = "test_messages 0 100 0 4"
  obtain q1 m1 where 1: "push_each TestMessage_type Test_kCapacity ?xs (test_queue buffer, m) = (True, q1, m1)"
      "Spsc_inv TestMessage_type Test_kCapacity q1" "Spsc_contents TestMessage_type Test_kCapacity (q1, m1) = ?xs"
    using test_message.push_each_ok [OF test_queue_ok(1) test_queue_room(2) [of buffer m 0 100 0]]
    by (auto simp: test_queue_ok(2))
  let ?q = "Spsc_ForceAdvanceReadIndex 2 q1"
  have "unat (Spsc_Size q1) = 4" using 1(3) by (metis length_Spsc_contents test_messages_simps(1))
  then have le: "unat (2 :: u64) \<le> unat (Spsc_Size q1)" by simp
  note c = test_message.Advance_contents [OF le, of Test_kCapacity m1, unfolded 1(3)]
  have drop: "drop 2 ?xs = [\<lparr>ut_seq_id = 2, ut_func_id = 100, ut_payload_len = 0, ut_payload = 0\<rparr>,
      \<lparr>ut_seq_id = 3, ut_func_id = 100, ut_payload_len = 0, ut_payload = 0\<rparr>]"
    by (simp add: test_messages_def upt_conv_Cons)
  show ?thesis
    by (rule test_message.pop_one [OF test_message.Advance_inv [OF 1(2) le], of m1])
      (use 1 c drop test_message.Size_contents [of ?q Test_kCapacity m1] in
        \<open>auto simp: Test_ForceAdvanceReadIndex_def Let_def\<close>)
qed

lemma monitor_tests_pass: "Test_InitialState" "now \<noteq> 0 \<Longrightarrow> Test_BeginEndTransaction now" "Test_Reset now"
  by (simp_all add: Test_InitialState_def Test_BeginEndTransaction_def Test_Reset_def Let_def monitor_defs)

section \<open>The crash tests pass\<close>

lemma scan_rings: "Layout_ScanCrashedWorkers L = length (filter (worker_crashed L) request_rings)"
  by (simp add: Layout_ScanCrashedWorkers_def scan_loop_count request_rings_def request_ids_def filter_map comp_def)

lemma ring_size:
  "Spsc_Size (queue_of L i) = of_nat (length (layout_contents (L, m) i))"
  "Spsc_Empty (queue_of L i) \<longleftrightarrow> layout_contents (L, m) i = []"
  by (simp_all add: layout_contents_def Spsc_Empty_iff flip: length_0_conv)

lemma setup_ok:
  obtains L where "Crash_SetUp shm_addr = (True, L)" and "Layout_inv shm_addr L"
    and "\<And>i m. i \<in> set queue_ids \<Longrightarrow> layout_contents (L, m) i = []"
    and "\<And>i. i \<in> set request_rings \<Longrightarrow> \<not> Monitor_IsProcessing (request_monitor L i)"
    and "Layout_FindBestNormalWorker L = 0" and "Layout_FindBestVipWorker L = 0"
proof -
  let ?L = "initialized_layout shm_addr (Layout_RequiredSize * 2) Layout_construct"
  have "Crash_SetUp shm_addr = (True, ?L)"
    by (simp add: Crash_SetUp_def Layout_Initialize_eq [OF wf_Layout_construct] Layout_RequiredSize_value)
  moreover have "\<not> Monitor_IsProcessing (request_monitor ?L i)" if "i \<in> set request_rings" for i
    using that by (elim request_ring_cases)
      (simp_all add: initialized_layout_def monitor_defs Layout_GetNormalMonitor_def Layout_GetVipMonitor_def)
  ultimately show thesis
    using that [of ?L] initialized_inv [of shm_addr] initialized_contents
      initialized_best [of shm_addr "Layout_RequiredSize * 2" Layout_construct] by simp
qed

lemma ring_push_ok:
  assumes "Layout_inv this L" and "i \<in> set queue_ids" and "length (layout_contents (L, m) i) < unat (cap_of i)"
  obtains L' m' where "ring_push i h (L, m) = (True, L', m')" and "Layout_inv this L'"
    and "\<And>j. j \<in> set queue_ids \<Longrightarrow>
      layout_contents (L', m') j = layout_contents (L, m) j @ (if j = i then [h] else [])"
    and "\<And>j. request_monitor L' j = request_monitor L j"
proof (rule push_queue_effect [OF assms, of h])
  fix q m'
  assume "Spsc_Push MsgHeader_type (cap_of i) h (queue_of L i, m) = (True, q, m')"
    and "Layout_inv this (set_queue i q L)"
    and "\<And>j. j \<in> set queue_ids \<Longrightarrow>
      layout_contents (set_queue i q L, m') j = layout_contents (L, m) j @ (if j = i then [h] else [])"
  then show thesis by (intro that [of "set_queue i q L" m']) (simp_all add: ring_push_def)
qed

lemma begun_processing:
  assumes "wf_layout L" and "i \<in> set request_rings" and "j \<in> set request_rings"
  shows "Monitor_IsProcessing (request_monitor (begin_transaction now h i L) j) \<longleftrightarrow>
    j = i \<or> Monitor_IsProcessing (request_monitor L j)"
  using begun_monitor(1) [OF assms, of now h] by (simp add: monitor_defs)

lemma test_requests_simps [simp]:
  "length (test_requests f p n) = n" "take k (map seq_id (test_requests f p n)) = map of_nat (take k [0..<n])"
  "map seq_id (test_requests f p n) = map of_nat [0..<n]"
  by (simp_all add: test_requests_def take_map)

lemma drop_requests:
  "k < n \<Longrightarrow> drop k (test_requests f p n) =
     \<lparr>seq_id = of_nat k, func_id = f, payload_len = p\<rparr> # drop (Suc k) (test_requests f p n)"
  by (simp add: Cons_nth_drop_Suc [symmetric]) (simp add: test_requests_def del: upt_Suc)

text \<open>
  What the tests know of a segment: it is well formed, its rings hold the given requests, and
  exactly the workers of \<open>rs\<close> are inside a transaction. Every step of a test goes from one such
  state to another.
\<close>

definition segment_state ::
  "address \<Rightarrow> (queue_id \<Rightarrow> MsgHeader list) \<Rightarrow> queue_id set \<Rightarrow> PhoenixShmLayout \<times> memory \<Rightarrow> bool" where
  "segment_state this c rs s \<longleftrightarrow>
     Layout_inv this (fst s) \<and> (\<forall>j \<in> set queue_ids. layout_contents s j = c j) \<and>
     (\<forall>j \<in> set request_rings. Monitor_IsProcessing (request_monitor (fst s) j) \<longleftrightarrow> j \<in> rs)"

lemma ring_ids [simp]: "i \<in> set request_rings \<Longrightarrow> i \<in> set queue_ids"
  by (rule request_rings_in)

lemma setup_state: "\<exists>L. Crash_SetUp shm_addr = (True, L) \<and> segment_state shm_addr (\<lambda>_. []) {} (L, m)"
  by (rule setup_ok [of shm_addr]) (simp add: segment_state_def)

lemma ring_push_state:
  assumes "segment_state this c rs s" and "i \<in> set queue_ids" and "length (c i) < unat (cap_of i)"
  shows "\<exists>s'. ring_push i h s = (True, s') \<and> segment_state this (c(i := c i @ [h])) rs s'"
proof -
  obtain L m where s: "s = (L, m)" by (cases s)
  with assms have pre: "Layout_inv this L" "length (layout_contents (L, m) i) < unat (cap_of i)"
    by (simp_all add: segment_state_def)
  show ?thesis
    by (rule ring_push_ok [OF pre(1) assms(2) pre(2), of h])
      (use assms s in \<open>auto simp: segment_state_def\<close>)
qed

lemma push_requests_state:
  assumes "segment_state this c rs s" and i: "i \<in> set queue_ids" and "length (c i) + length hs \<le> unat (cap_of i)"
  shows "\<exists>s'. push_requests i hs s = (True, s') \<and> segment_state this (c(i := c i @ hs)) rs s'"
  using assms(1,3)
proof (induction hs arbitrary: c s)
  case Nil
  then show ?case by simp
next
  case (Cons h hs)
  then obtain s1 where 1: "ring_push i h s = (True, s1)" "segment_state this (c(i := c i @ [h])) rs s1"
    using ring_push_state [OF Cons.prems(1) i, of h] by auto
  then obtain s2 where "push_requests i hs s1 = (True, s2)"
      "segment_state this ((c(i := c i @ [h]))(i := (c i @ [h]) @ hs)) rs s2"
    using Cons.IH [OF 1(2)] Cons.prems(2) by (auto simp: fun_upd_def cong: if_cong)
  then show ?case using 1(1) by (simp add: fun_upd_def cong: if_cong)
qed

lemma peek_state:
  assumes "segment_state this c rs (L, m)" and "i \<in> set queue_ids"
  shows "c i = [] \<Longrightarrow> Spsc_Peek MsgHeader_type (cap_of i) (queue_of L i) = None"
    and "c i = h # xs \<Longrightarrow>
      \<exists>p. Spsc_Peek MsgHeader_type (cap_of i) (queue_of L i) = Some p \<and> object_at MsgHeader_type m p = h"
  using Peek_of_contents [of this L i m] assms by (simp_all add: segment_state_def)

lemma size_state:
  assumes "segment_state this c rs (L, m)" and "i \<in> set queue_ids"
  shows "Spsc_Size (queue_of L i) = of_nat (length (c i))" and "Spsc_Empty (queue_of L i) \<longleftrightarrow> c i = []"
  using ring_size [of L i m] assms by (simp_all add: segment_state_def)

lemma begin_state:
  assumes "segment_state this c rs (L, m)" and "i \<in> set request_rings"
  shows "segment_state this c (insert i rs) (begin_transaction now h i L, m)"
proof -
  have wf: "wf_layout L" using assms(1) by (simp add: segment_state_def Layout_inv_def)
  show ?thesis using assms by (simp add: segment_state_def begun_processing [OF wf])
qed

lemma process_front_state:
  assumes st: "segment_state this c rs s" and i: "i \<in> set request_rings" "i \<notin> rs" and c: "c i = h # xs"
  shows "\<exists>s'. process_front now i s = Some (h, s') \<and> segment_state this (c(i := xs)) rs s'"
proof -
  obtain L m where s: "s = (L, m)" by (cases s)
  with st i c have pre: "Layout_inv this L" "\<not> Monitor_IsProcessing (request_monitor L i)"
      "layout_contents (L, m) i = h # xs"
    by (simp_all add: segment_state_def)
  have same: "worker_iteration now i (L, m) = (True, s') \<Longrightarrow> process_front now i (L, m) = Some (h, s')" for s'
    using Peek_of_contents [OF pre(1) ring_ids [OF i(1)], of m] pre(2,3)
    by (auto simp: worker_iteration_def process_front_def Let_def split: prod.splits)
  show ?thesis
    by (rule worker_iteration_front [OF pre(1) i(1) pre(2,3), where now = now])
      (use st i same s in \<open>auto simp: segment_state_def\<close>)
qed

lemma process_times_state:
  assumes "segment_state this c rs s" and i: "i \<in> set request_rings" "i \<notin> rs"
  shows "segment_state this (c(i := drop n (c i))) rs (process_times n now i s)"
  using assms(1)
proof (induction n arbitrary: c s)
  case (Suc n)
  show ?case
  proof (cases "c i")
    case Nil
    then have "process_front now i s = None"
      using peek_state(1) [of this c rs "fst s" "snd s" i] Suc.prems i by (simp add: process_front_def case_prod_beta)
    then show ?thesis using Suc.IH [OF Suc.prems] Nil by simp
  next
    case (Cons h xs)
    obtain s' where 1: "process_front now i s = Some (h, s')" "segment_state this (c(i := xs)) rs s'"
      using process_front_state [OF Suc.prems i Cons] by blast
    then show ?thesis using Suc.IH [OF 1(2)] Cons by (simp cong: if_cong)
  qed
qed simp

lemma crash_state:
  assumes "segment_state this c rs s" and i: "i \<in> set request_rings" and "c i \<noteq> []"
  shows "segment_state this c (insert i rs) (crash_on_front now i s)"
proof -
  obtain L m h xs where s: "s = (L, m)" and c: "c i = h # xs" using assms(3) by (cases s; cases "c i") auto
  obtain p where "Spsc_Peek MsgHeader_type (cap_of i) (queue_of L i) = Some p"
    using peek_state(2) [OF assms(1) [unfolded s] ring_ids [OF i] c] by blast
  then show ?thesis using begin_state [OF assms(1) [unfolded s] i] s by (simp add: crash_on_front_def)
qed

lemma scan_state:
  assumes "segment_state this c rs (L, m)" and "rs \<subseteq> set request_rings"
  shows "Layout_ScanCrashedWorkers L = card rs"
proof -
  have "distinct request_rings" by (simp add: request_rings_def request_ids_values)
  then have "length (filter (worker_crashed L) request_rings) = card ({j. worker_crashed L j} \<inter> set request_rings)"
    by (rule distinct_length_filter)
  also have "{j. worker_crashed L j} \<inter> set request_rings = rs"
    using assms by (auto simp: segment_state_def crashed_processing)
  finally show ?thesis by (simp add: scan_rings)
qed

lemma recover_state:
  assumes st: "segment_state this c rs (L, m)" and rs: "rs \<subseteq> set request_rings" and "\<And>j. j \<in> rs \<Longrightarrow> c j \<noteq> []"
  shows "\<exists>L'. Layout_RecoverCrashedWorkers L = (card rs, L') \<and> Layout_ScanCrashedWorkers L' = 0 \<and>
    segment_state this (\<lambda>j. if j \<in> rs then tl (c j) else c j) {} (L', m)"
proof -
  have inv: "Layout_inv this L" using st by (simp add: segment_state_def)
  have crashed: "worker_crashed L j \<longleftrightarrow> j \<in> rs" if "j \<in> set queue_ids" for j
  proof (cases "j \<in> set request_rings")
    case True
    then show ?thesis using st by (simp add: segment_state_def crashed_processing)
  next
    case False
    then show ?thesis using that rs by (auto simp: queue_ids_def request_rings_def request_ids_values)
  qed
  have pills: "\<forall>j \<in> set queue_ids. worker_crashed L j \<longrightarrow> layout_contents (L, m) j \<noteq> []"
    using crashed assms(3) st by (simp add: segment_state_def)
  obtain n L' where rec: "Layout_RecoverCrashedWorkers L = (n, L')" by (cases "Layout_RecoverCrashedWorkers L")
  note e = recover_effect [OF inv pills, unfolded rec Let_def prod.case]
  then have zero: "Layout_ScanCrashedWorkers L' = 0" by blast
  then have "\<not> Monitor_IsProcessing (request_monitor L' j)" if "j \<in> set request_rings" for j
    using that by (simp add: scan_rings filter_empty_conv crashed_processing)
  then show ?thesis
    using rec e scan_state [OF st rs] st crashed by (auto simp: segment_state_def)
qed


section \<open>The crash tests pass\<close>

lemma layout_tests_pass: "Test_LayoutInitialization shm_addr" "Test_NormalWorkerSelection shm_addr"
proof -
  obtain L where L: "Crash_SetUp shm_addr = (True, L)" "Layout_inv shm_addr L"
      "\<And>i. i \<in> set request_rings \<Longrightarrow> \<not> Monitor_IsProcessing (request_monitor L i)"
      "Layout_FindBestNormalWorker L = 0" "Layout_FindBestVipWorker L = 0"
    by (rule setup_ok [of shm_addr]) (rule that; blast)
  have "Layout_ScanCrashedWorkers L = 0"
    using L(3) by (simp add: scan_rings filter_empty_conv crashed_processing)
  then show "Test_NormalWorkerSelection shm_addr" using L by (simp add: Test_NormalWorkerSelection_def)
  show "Test_LayoutInitialization shm_addr"
    using L(1,2) by (simp add: Test_LayoutInitialization_def Layout_inv_def Layout_IsValid_def)
qed

lemma test_rings [simp]:
  "NormalRequest 0 \<in> set request_rings" "NormalRequest 2 \<in> set request_rings"
  "VipRequest 0 \<in> set request_rings" "VipRequest 1 \<in> set request_rings" "VipRequest (Suc 0) \<in> set request_rings"
  by (simp_all add: request_rings_def request_ids_values)

text \<open>A test's \<open>BeginTransaction\<close> calls are those of the workers' loop.\<close>

lemma test_begins:
  "set_monitor (NormalRequest 0) (Monitor_BeginTransaction now k 0 0 (request_monitor L (NormalRequest 0))) L =
     begin_transaction now \<lparr>seq_id = k, func_id = f, payload_len = p\<rparr> (NormalRequest 0) L"
  "set_monitor (VipRequest 1) (Monitor_BeginTransaction now k 1 1 (request_monitor L (VipRequest 1))) L =
     begin_transaction now \<lparr>seq_id = k, func_id = f, payload_len = p\<rparr> (VipRequest 1) L"
  by (simp_all add: begin_transaction_def)

lemma idle_state:
  "segment_state this c {} (L, m) \<Longrightarrow> i \<in> set request_rings \<Longrightarrow> \<not> Monitor_IsProcessing (request_monitor L i)"
  by (simp add: segment_state_def)

lemma busy_state:
  "segment_state this c rs (L, m) \<Longrightarrow> i \<in> set request_rings \<Longrightarrow> i \<in> rs \<Longrightarrow>
     Monitor_IsProcessing (request_monitor L i)"
  by (simp add: segment_state_def)

lemma PoisonPillSkip_passes: "Test_PoisonPillSkip now shm_addr m"
proof -
  let ?i = "NormalRequest 0" and ?h = "\<lparr>seq_id = 100, func_id = 1, payload_len = 64\<rparr>"
  obtain L where L: "Crash_SetUp shm_addr = (True, L)" "segment_state shm_addr (\<lambda>_. []) {} (L, m)"
    using setup_state by blast
  obtain L1 m1 where 1: "ring_push ?i ?h (L, m) = (True, L1, m1)" "segment_state shm_addr ((\<lambda>_. [])(?i := [?h])) {} (L1, m1)"
    using ring_push_state [OF L(2), of ?i ?h] by (auto simp: layout_consts)
  note 2 = begin_state [OF 1(2) test_rings(1), of now ?h]
  obtain L2 where 3: "Layout_RecoverCrashedWorkers (begin_transaction now ?h ?i L1) = (1, L2)"
      "Layout_ScanCrashedWorkers L2 = 0"
      "segment_state shm_addr (\<lambda>j. if j = ?i then tl (((\<lambda>_. [])(?i := [?h])) j) else ((\<lambda>_. [])(?i := [?h])) j) {} (L2, m1)"
    using recover_state [OF 2] by auto
  show ?thesis
    unfolding Test_PoisonPillSkip_def Let_def L(1) prod.case 1(1) test_begins(1) [where f = 1 and p = 64] 3(1)
    using scan_state [OF 2] 3(2) idle_state [OF 3(3), of ?i] size_state(2) [OF 3(3), of ?i] by simp
qed

lemma MultipleCrashRecovery_passes: "Test_MultipleCrashRecovery now shm_addr m"
proof -
  let ?i = "NormalRequest 0" and ?j = "VipRequest 1"
  let ?h = "\<lparr>seq_id = 100, func_id = 1, payload_len = 64\<rparr>" and ?h' = "\<lparr>seq_id = 101, func_id = 2, payload_len = 64\<rparr>"
  let ?c = "(\<lambda>_. [])(?i := [?h], ?j := [?h'])"
  obtain L where L: "Crash_SetUp shm_addr = (True, L)" "segment_state shm_addr (\<lambda>_. []) {} (L, m)"
    using setup_state by blast
  obtain L1 m1 where 1: "ring_push ?i ?h (L, m) = (True, L1, m1)" "segment_state shm_addr ((\<lambda>_. [])(?i := [?h])) {} (L1, m1)"
    using ring_push_state [OF L(2), of ?i ?h] by (auto simp: layout_consts)
  obtain L2 m2 where 2: "ring_push ?j ?h' (L1, m1) = (True, L2, m2)" "segment_state shm_addr ?c {} (L2, m2)"
    using ring_push_state [OF 1(2), of ?j ?h'] by (auto simp: layout_consts)
  note 3 = begin_state [OF begin_state [OF 2(2) test_rings(1), of now ?h] test_rings(4), of now ?h']
  let ?B = "begin_transaction now ?h' ?j (begin_transaction now ?h ?i L2)"
  have sub: "{?j, ?i} \<subseteq> set request_rings" and two: "card {?j, ?i} = 2"
    and ne: "\<And>k. k \<in> {?j, ?i} \<Longrightarrow> ?c k \<noteq> []" by auto
  obtain L3 where 4: "Layout_RecoverCrashedWorkers ?B = (2, L3)" "Layout_ScanCrashedWorkers L3 = 0"
      "segment_state shm_addr (\<lambda>j. if j \<in> {?j, ?i} then tl (?c j) else ?c j) {} (L3, m2)"
    using recover_state [OF 3 sub, unfolded two] ne by blast
  show ?thesis
    unfolding Test_MultipleCrashRecovery_def Let_def L(1) prod.case 1(1) 2(1)
      test_begins(1) [where f = 1 and p = 64] test_begins(2) [where f = 2 and p = 64] 4(1)
    using scan_state [OF 3] 4(2) idle_state [OF 4(3), of ?i] idle_state [OF 4(3), of ?j]
      size_state(2) [OF 4(3), of ?i] size_state(2) [OF 4(3), of ?j] by simp
qed

text \<open>The crash tests of \<open>stress_test.cpp\<close>.\<close>

lemma MultipleWorkers_passes: "Test_MultipleWorkersCrashRecovery now shm_addr m"
proof -
  let ?i = "NormalRequest 0" and ?j = "NormalRequest 2" and ?hs = "test_requests 1 64 50"
  let ?c = "(\<lambda>_. [])(?i := ?hs, ?j := ?hs, ?i := drop 20 ?hs, ?j := drop 20 ?hs)"
  obtain L where L: "Crash_SetUp shm_addr = (True, L)" "segment_state shm_addr (\<lambda>_. []) {} (L, m)"
    using setup_state by blast
  obtain s1 where 1: "push_requests ?i ?hs (L, m) = (True, s1)" "segment_state shm_addr ((\<lambda>_. [])(?i := ?hs)) {} s1"
    using push_requests_state [OF L(2), of ?i ?hs] by (auto simp: layout_consts)
  obtain s2 where 2: "push_requests ?j ?hs s1 = (True, s2)"
      "segment_state shm_addr ((\<lambda>_. [])(?i := ?hs, ?j := ?hs)) {} s2"
    using push_requests_state [OF 1(2), of ?j ?hs] by (auto simp: layout_consts)
  let ?s3 = "crash_on_front now ?i (process_times 20 now ?i s2)"
  have 3: "segment_state shm_addr ((\<lambda>_. [])(?i := ?hs, ?j := ?hs, ?i := drop 20 ?hs)) {?i} ?s3"
    using crash_state [OF process_times_state [OF 2(2) test_rings(1), of 20 now] test_rings(1)] by simp
  obtain L4 m4 where s4: "crash_on_front now ?j (process_times 20 now ?j ?s3) = (L4, m4)" by (metis prod.exhaust)
  have 4: "segment_state shm_addr ?c {?j, ?i} (L4, m4)"
    using crash_state [OF process_times_state [OF 3 test_rings(2), of 20 now] test_rings(2), of now] s4 by simp
  have sub: "{?j, ?i} \<subseteq> set request_rings" and two: "card {?j, ?i} = 2"
    and ne: "\<And>k. k \<in> {?j, ?i} \<Longrightarrow> ?c k \<noteq> []" by auto
  obtain L5 where 5: "Layout_RecoverCrashedWorkers L4 = (2, L5)" "Layout_ScanCrashedWorkers L5 = 0"
      "segment_state shm_addr (\<lambda>k. if k \<in> {?j, ?i} then tl (?c k) else ?c k) {} (L5, m4)"
    using recover_state [OF 4 sub, unfolded two] ne by blast
  show ?thesis
    unfolding Test_MultipleWorkersCrashRecovery_def Let_def L(1) prod.case 1(1) 2(1) s4 5(1)
    using scan_state [OF 4 sub] 5(2) size_state(1) [OF 5(3), of ?i] size_state(1) [OF 5(3), of ?j] by simp
qed

lemma VipWorkerCrash_passes: "Test_VipWorkerCrashPriorityPreserved now shm_addr m"
proof -
  let ?v = "VipRequest 0" and ?n = "NormalRequest 0" and ?hs = "test_requests 2 128 20" and ?ns = "test_requests 1 64 100"
  let ?c = "(\<lambda>_. [])(?v := ?hs, ?n := ?ns, ?v := drop 5 ?hs)"
  obtain L where L: "Crash_SetUp shm_addr = (True, L)" "segment_state shm_addr (\<lambda>_. []) {} (L, m)"
    using setup_state by blast
  obtain s1 where 1: "push_requests ?v ?hs (L, m) = (True, s1)" "segment_state shm_addr ((\<lambda>_. [])(?v := ?hs)) {} s1"
    using push_requests_state [OF L(2), of ?v ?hs] by (auto simp: layout_consts)
  obtain s2 where 2: "push_requests ?n ?ns s1 = (True, s2)"
      "segment_state shm_addr ((\<lambda>_. [])(?v := ?hs, ?n := ?ns)) {} s2"
    using push_requests_state [OF 1(2), of ?n ?ns] by (auto simp: layout_consts)
  obtain L3 m3 where s3: "crash_on_front now ?v (process_times 5 now ?v s2) = (L3, m3)" by (metis prod.exhaust)
  have 3: "segment_state shm_addr ?c {?v} (L3, m3)"
    using crash_state [OF process_times_state [OF 2(2) test_rings(3), of 5 now] test_rings(3), of now] s3 by simp
  have sub: "{?v} \<subseteq> set request_rings" and one: "card {?v} = 1" and ne: "\<And>k. k \<in> {?v} \<Longrightarrow> ?c k \<noteq> []" by auto
  obtain L4 where 4: "Layout_RecoverCrashedWorkers L3 = (1, L4)" "Layout_ScanCrashedWorkers L4 = 0"
      "segment_state shm_addr (\<lambda>k. if k \<in> {?v} then tl (?c k) else ?c k) {} (L4, m3)"
    using recover_state [OF 3 sub, unfolded one] ne by blast
  show ?thesis
    unfolding Test_VipWorkerCrashPriorityPreserved_def Let_def L(1) prod.case 1(1) 2(1) s3 4(1)
    using scan_state [OF 3 sub] 4(2) size_state(1) [OF 4(3), of ?v] size_state(1) [OF 4(3), of ?n] by simp
qed

text \<open>\<open>WorkerCrashNoMessageLoss\<close>, for any number of messages that fit and any place of the crash.\<close>

lemma process_expecting_state:
  assumes "segment_state this c rs s" and i: "i \<in> set request_rings" "i \<notin> rs" and "c i = ys @ zs"
  shows "\<exists>s'. process_expecting now i (map seq_id ys) s = (True, s') \<and> segment_state this (c(i := zs)) rs s'"
  using assms(1,4)
proof (induction ys arbitrary: c s)
  case Nil
  then show ?case by (simp add: fun_upd_idem)
next
  case (Cons h ys)
  obtain s1 where 1: "process_front now i s = Some (h, s1)" "segment_state this (c(i := ys @ zs)) rs s1"
    using process_front_state [OF Cons.prems(1) i, of h "ys @ zs" now] Cons.prems(2) by auto
  then show ?case using Cons.IH [OF 1(2)] by (auto simp: fun_upd_def cong: if_cong)
qed

declare process_all.simps [simp del]

lemma process_all_state:
  assumes "segment_state this c rs s" and i: "i \<in> set request_rings" "i \<notin> rs"
    and "map seq_id (c i) = map of_nat [e..<n]" and "n - e \<le> fuel" and "e \<le> n"
  shows "\<exists>s'. process_all fuel now i e s = Some (True, n, s') \<and> Spsc_Empty (queue_of (fst s') i)"
  using assms(1,4-)
proof (induction fuel arbitrary: c s e)
  case 0
  then have "e = n" "c i = []" by simp_all
  then show ?case using size_state(2) [of this c rs "fst s" "snd s" i] 0 i by (simp add: process_all.simps)
next
  case (Suc fuel)
  note size = size_state(2) [of this c rs "fst s" "snd s" i]
  show ?case
  proof (cases "c i")
    case Nil
    then have "[e..<n] = []" using Suc.prems(2) by simp
    then have "e = n" using Suc.prems(4) by auto
    then show ?thesis using Nil size Suc.prems(1) i by (simp add: process_all.simps)
  next
    case (Cons h xs)
    then have less: "e < n" using Suc.prems(2) by (cases "e < n") simp_all
    then have keys: "seq_id h = of_nat e" "map seq_id xs = map of_nat [Suc e..<n]"
      using Suc.prems(2) Cons by (simp_all add: upt_conv_Cons)
    obtain s1 where 1: "process_front now i s = Some (h, s1)" "segment_state this (c(i := xs)) rs s1"
      using process_front_state [OF Suc.prems(1) i Cons] by blast
    have "n - Suc e \<le> fuel" using Suc.prems(3) by simp
    then obtain s' where "process_all fuel now i (Suc e) s1 = Some (True, n, s')" "Spsc_Empty (queue_of (fst s') i)"
      using Suc.IH [OF 1(2), of "Suc e"] keys(2) less by auto
    then have "process_all (Suc fuel) now i e s = Some (True, n, s')"
      using 1(1) keys(1) Cons size Suc.prems(1) i by (simp add: process_all.simps [of "Suc fuel"])
    then show ?thesis using \<open>Spsc_Empty (queue_of (fst s') i)\<close> by blast
  qed
qed

lemma request_numbers:
  "k \<le> n \<Longrightarrow> map seq_id (take k (test_requests f p n)) = map of_nat [0..<k]"
  "map seq_id (drop k (test_requests f p n)) = map of_nat [k..<n]"
  by (simp_all add: test_requests_def take_map drop_map take_upt drop_upt)

lemma WorkerCrash_passes:
  assumes "k < n" and "n \<le> 1024"
  shows "Test_WorkerCrashNoMessageLoss n k now shm_addr m"
proof -
  let ?i = "NormalRequest 0" and ?hs = "test_requests 1 64 n"
  let ?h = "\<lparr>seq_id = of_nat k, func_id = 1, payload_len = 64\<rparr>"
  obtain L where L: "Crash_SetUp shm_addr = (True, L)" "segment_state shm_addr (\<lambda>_. []) {} (L, m)"
    using setup_state by blast
  obtain L1 m1 where 1: "push_requests ?i ?hs (L, m) = (True, L1, m1)"
      "segment_state shm_addr ((\<lambda>_. [])(?i := ?hs)) {} (L1, m1)"
    using push_requests_state [OF L(2), of ?i ?hs] assms by (auto simp: layout_consts)
  have parts: "?hs = take k ?hs @ ?h # drop (Suc k) ?hs"
    using append_take_drop_id [of k ?hs] drop_requests [OF assms(1), of 1 64] by simp
  obtain L2 m2 where 2: "process_expecting now ?i (map of_nat [0..<k]) (L1, m1) = (True, L2, m2)"
      "segment_state shm_addr ((\<lambda>_. [])(?i := ?h # drop (Suc k) ?hs)) {} (L2, m2)"
    using process_expecting_state [OF 1(2) test_rings(1), of "take k ?hs" "?h # drop (Suc k) ?hs" now]
      parts request_numbers(1) [of k n 1 64] assms(1) by auto
  obtain p where peek: "Spsc_Peek MsgHeader_type (cap_of ?i) (queue_of L2 ?i) = Some p" "object_at MsgHeader_type m2 p = ?h"
    using peek_state(2) [OF 2(2) ring_ids [OF test_rings(1)]] by auto
  note 3 = begin_state [OF 2(2) test_rings(1), of now ?h]
  obtain L3 where 4: "Layout_RecoverCrashedWorkers (begin_transaction now ?h ?i L2) = (1, L3)"
      "Layout_ScanCrashedWorkers L3 = 0" "segment_state shm_addr ((\<lambda>_. [])(?i := drop (Suc k) ?hs)) {} (L3, m2)"
    using recover_state [OF 3] by (auto simp: fun_upd_def cong: if_cong)
  obtain L4 m4 where 5: "process_all n now ?i (k + 1) (L3, m2) = Some (True, n, L4, m4)" "Spsc_Empty (queue_of L4 ?i)"
    using process_all_state [OF 4(3) test_rings(1), of "k + 1" n n now] request_numbers(2) [of "Suc k" 1 64 n] assms
    by auto
  note sizes = size_state(1) [OF 1(2), of ?i] size_state(1) [OF 2(2), of ?i] size_state(1) [OF 4(3), of ?i]
  show ?thesis
    unfolding Test_WorkerCrashNoMessageLoss_def Let_def L(1) prod.case 1(1) 2(1) peek option.case 4(1) 5(1) begun_queue
    using sizes scan_state [OF 3] busy_state [OF 3 test_rings(1)] idle_state [OF 4(3), of ?i] 4(2) 5(2) assms
    by simp
qed

section \<open>The tests\<close>

text \<open>C30. The unit tests pass. On every buffer address, every initial memory and every clock value
  but 0, all expectations of the ring and monitor tests of \<open>unit_tests.cpp\<close>, of the four tests of
  \<open>crash_recovery_test.cpp\<close> and of the two fixed crash tests of \<open>stress_test.cpp\<close> hold. (At clock
  value 0 \<open>BeginEndTransaction\<close> fails, since it expects a start time that is not 0.)\<close>

theorem Unit_tests_pass:
  assumes "now \<noteq> 0"
  shows "Test_BasicPushPop buffer m \<and> Test_PushPopMultiple buffer m \<and> Test_WrapAround buffer m \<and>
    Test_ForceAdvanceReadIndex buffer m \<and> Test_InitialState \<and> Test_BeginEndTransaction now \<and> Test_Reset now \<and>
    Test_LayoutInitialization buffer \<and> Test_NormalWorkerSelection buffer \<and> Test_PoisonPillSkip now buffer m \<and>
    Test_MultipleCrashRecovery now buffer m \<and> Test_MultipleWorkersCrashRecovery now buffer m \<and>
    Test_VipWorkerCrashPriorityPreserved now buffer m"
  using BasicPushPop_passes PushPopMultiple_passes wrap_rounds_pass [OF test_queue_ok] ForceAdvanceReadIndex_passes
    monitor_tests_pass assms layout_tests_pass PoisonPillSkip_passes MultipleCrashRecovery_passes
    MultipleWorkers_passes VipWorkerCrash_passes
  by (simp add: Test_WrapAround_def)

theorem Unit_tests_pass_witness:
  "Test_WrapAround 4096 (\<lambda>_. 0) \<and> Test_BeginEndTransaction 1 \<and> Test_MultipleCrashRecovery 1 4096 (\<lambda>_. 0)"
  using Unit_tests_pass [of 1 4096 "\<lambda>_. 0"] by simp

text \<open>C11. No message but the poison pill is lost. \<open>WorkerCrashNoMessageLoss\<close> (100 messages, crash at
  30) passes for any number \<open>n\<close> of messages that fits the ring and a crash at any message \<open>k\<close> of
  them: all are accepted, the first \<open>k\<close> come out in order, the crash is seen and one worker
  recovered, exactly message \<open>k\<close> is gone, and the final loop ends, having taken out \<open>k + 1\<close> to
  \<open>n - 1\<close> in order.\<close>

theorem Worker_crash_loses_one:
  assumes "k < n" and "n \<le> 1024"
  shows "Test_WorkerCrashNoMessageLoss n k now shm_addr m"
  using assms by (rule WorkerCrash_passes)

theorem Worker_crash_loses_one_witness: "Test_WorkerCrashNoMessageLoss 100 30 1 4096 (\<lambda>_. 0)"
  using Worker_crash_loses_one [of 30 100 1 4096 "\<lambda>_. 0"] by simp

end
