(* ===== verification/Spec2Isabelle.thy ===== *)
theory Spec2Isabelle
  imports Spsc_Shared_Producers Simplified_Concurrent Hal_Interfaces Example_Programs Ipc_History
    Unit_Tests
begin

text \<open>
  PhoenixIPC passes messages between processes through POSIX shared memory. This development
  models the library under \<open>include/phoenix/\<close> and \<open>src/\<close>, the programs under \<open>examples/\<close> and the
  deterministic tests under \<open>test/\<close>, and proves what its parts do.

  \<^bold>\<open>The program.\<close> Two stacks share the 16-byte message header. The simple one joins one
  \<open>Producer\<close> and one \<open>Consumer\<close>: the producer creates a segment with a single queue and one payload
  buffer (\<open>SimplifiedShmLayout\<close>) and writes a JSON coordination file through which the consumer
  finds it. The other one joins an \<open>IpcServer\<close>, its worker process and any number of \<open>IpcClient\<close>s:
  the server creates a segment (\<open>PhoenixShmLayout\<close>) with four normal and two VIP workers, each with
  a request ring, a response ring (\<open>SpscRingBuffer\<close>) and a monitor that says which request the
  worker is processing. After a crash the server skips the requests that were being processed.
  An eventfd is to wake the threads that collect responses.

  \<^bold>\<open>Theories and source files.\<close> Definitions keep the names of the code, with the class in front.
  \<^item> \<open>Prelude\<close>: machine integers, byte memory, object representations (\<open>object_type\<close>).
  \<^item> \<open>Bounded_Fifo\<close>: the abstract bounded queue and the contracts \<open>budgeted_fifo\<close> and
    \<open>bounded_fifo\<close>, whose lemmas \<open>run_refines\<close> and \<open>run_conserves\<close> every queue inherits.
  \<^item> \<open>Index_Ring\<close>: elements between two indices that wrap around, for any slot function.
  \<^item> \<open>Msg_Header\<close> (\<open>protocol/msg_header.hpp\<close>): the header, its bytes, the enumerations.
  \<^item> \<open>Ring_Protocol\<close>: the steps of a pushing and a popping thread that every ring follows, and the
    contracts \<open>ring_protocol\<close> and \<open>keeping_protocol\<close>, with their invariant proved once.
  \<^item> \<open>Spsc_Ring_Buffer\<close> (\<open>core/spsc_ring_buffer.hpp\<close>): every member function, one call at a time;
    \<open>Spsc_Concurrent\<close>: producer and consumer interleaved at each load, store and element access,
    where a load may return a stale index; \<open>Spsc_Shared_Producers\<close>: two producers.
  \<^item> \<open>Thread_Monitor\<close>, \<open>Worker_Channel\<close>, \<open>Phoenix_Shm_Layout\<close> (\<open>layout/\<close>, same names): monitors,
    pairs of rings, the segment of the server with worker selection and crash recovery.
  \<^item> \<open>Simplified_Shm_Layout\<close> (\<open>layout/simplified_shm_layout.hpp\<close>): the queue with a capacity
    chosen at run time, and the segment of the producer; \<open>Simplified_Concurrent\<close>: the loops of
    \<open>DoSend\<close> and \<open>DoReceive\<close> interleaved on it.
  \<^item> \<open>Cpp_String\<close>: the parts of \<open>std::string\<close>, \<open>stoull\<close>, \<open>stoll\<close> and number output the next theory
    uses; \<open>Coordination_File\<close> (\<open>coordination/coordination_file.*\<close>): writer, parser and file system.
  \<^item> \<open>Shm_World\<close>: files, names of shared memory objects and segments, as both processes see them;
    \<open>Phoenix_Producer\<close>, \<open>Phoenix_Consumer\<close> (\<open>ipc/phoenix_producer.*\<close>, \<open>ipc/phoenix_consumer.*\<close>).
  \<^item> \<open>Ipc_System\<close>: any number of producers and consumers on one world, created, used and
    destroyed in any order; the type of their handles and the invariant of the world.
    \<open>Ipc_History\<close>: what such a history has sent and received.
  \<^item> \<open>Linux_Eventfd\<close> (\<open>platform/linux_eventfd.hpp\<close>): the signal on the kernel's counter;
    \<open>Hal_Interfaces\<close> (\<open>hal/\<close>): enumerations and the contract of \<open>ISignalMechanism\<close> as a locale,
    interpreted on the signal with \<open>EFD_NONBLOCK\<close>.
  \<^item> \<open>Ipc_Types\<close> (\<open>ipc/ipc_types.hpp\<close> and the push to a worker that server and client share),
    \<open>Ipc_Server\<close>, \<open>Ipc_Client\<close> (\<open>ipc/ipc_server.*\<close>, \<open>ipc/ipc_client.*\<close>); \<open>Ipc_Session\<close>: interleaved
    calls of a client, and a client next to a server; \<open>Segment_Life\<close>: the segment under any
    sequence of operations of server, clients, workers and recovery.
  \<^item> \<open>Worker_Loop\<close>: the loop of a worker, as the tests that simulate workers write it out
    (\<open>test/stress_test.cpp\<close>), as a function and cut into its actions, which interleave with senders,
    other workers, crashes, restarts and recovery.
  \<^item> \<open>Example_Programs\<close> (\<open>examples/\<close>): the five programs, from \<open>main\<close> to their exit codes and
    output, and the two request handlers.
  \<^item> \<open>Unit_Tests\<close> (\<open>test/unit_tests.cpp\<close>, \<open>test/crash_recovery_test.cpp\<close>, the deterministic crash tests
    of \<open>test/stress_test.cpp\<close>): the tests, run on the model.

  \<^bold>\<open>State.\<close> A class is a record of its fields. A pointer into a segment is null, \<open>MAP_FAILED\<close> or
  the mapped segment; a descriptor is None for -1. Memory is a function from addresses to bytes,
  so that aliasing of rings and the layout of elements are part of what is proved. Indices,
  sizes, ids and counters are words of the code's width and wrap around as they do there.
  Operations return their result with the new state; exceptions are the \<open>Inl\<close> side of a sum; a call
  that never comes back has the result None.

  \<^bold>\<open>What the lemmas show.\<close> Both queues refine the bounded queue, for every sequence of calls, and
  give equal results; under interleaving both lose, duplicate and reorder nothing, and the slots
  of \<open>Push\<close> and of \<open>Peek\<close> and \<open>Pop\<close> never meet. Layouts are initialised exactly when they fit,
  their rings do not disturb each other, the least loaded worker is chosen, and recovery skips exactly the requests of crashed
  workers; over the whole life of the segment every ring is a queue that loses nothing else, until a
  recovery meets a worker marked as processing over an empty ring and breaks that ring. The
  coordination file round-trips for names that do not clash with its syntax, is written atomically,
  and is read as a reference reader on the text reads it. Sends and receives are
  described on every branch, blocking ones end at an exact poll, and a payload sent on an empty queue arrives. In every
  admissible history of producers and consumers (see the assumptions) the handles are well typed, every access is inside the mapping, and no
  header is lost or reordered. A non-blocking signal implements the
  interface it is declared for. Workers that follow their loop
  process every request they pop as long as recovery catches none of them alive, recovery skips one
  request for each open transaction it finds, a worker left running empties its ring, and the tests pass on the model. Requests reach
  exactly one ring, responses fulfil exactly the pending requests they belong to, and a promise
  is fulfilled at most once, in every interleaving. The remaining theorems state where the code
  does not do what its documents say: lost and mixed up messages and payloads, calls that never
  return, responses nobody waits for, VIP rings outside the segment, a worker that is restarted
  only to exit, examples that do not work together, recovery that takes requests from live workers.

  \<^bold>\<open>Bounds.\<close> The ring with masked indices works for any indices, its capacity being a power of two.
  The queue with indices modulo its capacity is right until the 64-bit index wraps around, so
  its invariant \<open>Simplified_inv n\<close> promises \<open>n\<close> more calls (\<open>2 ^ 64 - 1\<close> on a new segment). Waiting
  loops run over the list of polls made, and the loop of the consumer example over its rounds; \<open>10 * timeout_ms + 1\<close> polls suffice because 100
  microseconds of sleep lie between two of them. The polling loop over a response ring is a
  total function, its measure the number of queued responses. The last loop of the crash test runs
  on fuel, the number of messages sent, and its theorem says that it ends.

  \<^bold>\<open>Assumptions.\<close> Outcomes of system calls and clock readings are arguments, the content of
  uninitialised structs is an argument \<open>unset\<close>. \<open>eventfd\<close>, \<open>mkstemp\<close>, \<open>shm_open\<close> and \<open>shm_unlink\<close> behave
  as their manual pages say. An atomic index moves forward only and a load returns a value
  between the last one seen and the current one. What other threads and processes do during a
  call is an argument of it, a list of polls or a function on the shared state. Histories of producers and
  consumers (\<open>admissible_run\<close> in \<open>Ipc_System\<close>) have one call at a time and fewer than \<open>2 ^ 64\<close> of them;
  no process creates two producers within a second (\<open>Producer_same_second_resets\<close> shows what happens
  otherwise), the sizes asked for do not wrap around (\<open>Simplified_size_check_wraps\<close>), a queue has at
  least one slot. Recovery of the server's segment runs at any time, also over empty rings and next
  to live workers; the segment has no end in \<open>Segment_Life\<close> and \<open>Worker_Loop\<close>, so that the three VIP rings
  that lie past it (\<open>Layout_vip_buffers_out_of_bounds\<close>) are ordinary memory there. The server's
  supervisor runs between the start of its thread and the end of \<open>Start\<close>, in any number of iterations.

  \<^bold>\<open>Not modelled.\<close> \<open>ISharedMemory\<close> and its factory are pure virtual functions without an
  implementation or a user; only its enumerations are here. Of the stress tests those that depend on running threads,
  random numbers and time are not run: what their threads do is in the concurrent models, what
  they count is not. The
  worker process is another executable that is not part of the repository, so its loop is that of
  the tests; \<open>WorkerMain\<close> is declared without a body. The diagnostics the server prints and the members of \<open>ChannelStats\<close>
  beyond their declaration are left out. Mutexes and thread creation appear as the atomicity and
  the order of the steps they guard. Histories of producers and consumers are sequences of whole calls;
  calls that overlap are the subject of \<open>Simplified_Concurrent\<close>.
\<close>

section \<open>The two queues are one abstraction\<close>

text \<open>
  C22. The two queue implementations are interchangeable. A ring of \<open>SpscRingBuffer\<close> with a power
  of two as capacity and masked indices, and the queue of \<open>SimplifiedShmLayout\<close> with a capacity
  chosen at run time and indices taken modulo it, that hold the same headers and have the same
  capacity, give the same results to every sequence of calls and hold the same headers
  afterwards.
\<close>

theorem Queues_equivalent:
  assumes "Spsc_inv MsgHeader_type cap q" and "Simplified_inv (length ops + n) L"
    and "sl_queue_capacity L = cap"
    and "Spsc_contents MsgHeader_type cap (q, m) = Simplified_contents this (L, m')"
  shows "let (rs, s) = run_ops (queue_step (Spsc_Push MsgHeader_type cap) (Spsc_front MsgHeader_type cap)
             (Spsc_Pop MsgHeader_type cap)) ops (q, m);
           (rs', s') = run_ops (queue_step (Simplified_Push this) (Simplified_front this) Simplified_Pop_at)
             ops (L, m')
         in rs = rs' \<and> Spsc_contents MsgHeader_type cap s = Simplified_contents this s'"
proof -
  obtain rs s where ring: "run_ops (queue_step (Spsc_Push MsgHeader_type cap) (Spsc_front MsgHeader_type cap)
      (Spsc_Pop MsgHeader_type cap)) ops (q, m) = (rs, s)" by (rule prod.exhaust)
  obtain rs' s' where simple: "run_ops (queue_step (Simplified_Push this) (Simplified_front this)
      Simplified_Pop_at) ops (L, m') = (rs', s')" by (rule prod.exhaust)
  have "run_ops (fifo_step (unat cap)) ops (Spsc_contents MsgHeader_type cap (q, m)) =
      (rs, Spsc_contents MsgHeader_type cap s)"
    using msg.ring.run_refines [OF _ ring] assms(1) by simp
  moreover have "run_ops (fifo_step (unat cap)) ops (Simplified_contents this (L, m')) =
      (rs', Simplified_contents this s')"
    using simplified.run_refines [OF _ simple, of n] assms(2,3) by simp
  ultimately have "rs = rs' \<and> Spsc_contents MsgHeader_type cap s = Simplified_contents this s'"
    unfolding assms(4) by (metis prod.inject)
  then show ?thesis by (simp only: ring simple Let_def prod.case)
qed

text \<open>A segment with a queue of sixteen headers.\<close>

definition sixteen_headers :: SimplifiedShmLayout where
  "sixteen_headers = snd (Simplified_Initialize 0 4096 16 1024 77 Simplified_construct)"

lemma sixteen_headers:
  "Simplified_inv 9 sixteen_headers" "sl_queue_capacity sixteen_headers = 16"
  "Simplified_contents 4096 (sixteen_headers, \<lambda>_. 0) = []"
proof -
  show "Simplified_inv 9 sixteen_headers"
    using Initialize_inv(1) [of 16 1024 4096 0 77 Simplified_construct sixteen_headers 9]
      Initialize_fits [of 16 1024 0 4096 77 Simplified_construct]
    by (simp add: sixteen_headers_def prod_eq_iff)
  show "sl_queue_capacity sixteen_headers = 16" "Simplified_contents 4096 (sixteen_headers, \<lambda>_. 0) = []"
    by (simp_all add: sixteen_headers_def Simplified_Initialize_def Simplified_contents_def idx_contents_def Let_def)
qed

theorem Queues_equivalent_witness:
  "let (rs, s) = run_ops (queue_step (Spsc_Push MsgHeader_type 16) (Spsc_front MsgHeader_type 16)
         (Spsc_Pop MsgHeader_type 16))
         [Op_Push \<lparr>seq_id = 7, func_id = 1, payload_len = 0\<rparr>, Op_Peek, Op_Pop, Op_Pop] (wrapping_ring, \<lambda>_. 0);
       (rs', s') = run_ops (queue_step (Simplified_Push 4096) (Simplified_front 4096) Simplified_Pop_at)
         [Op_Push \<lparr>seq_id = 7, func_id = 1, payload_len = 0\<rparr>, Op_Peek, Op_Pop, Op_Pop]
         (sixteen_headers, \<lambda>_. 0)
   in rs = rs' \<and> Spsc_contents MsgHeader_type 16 s = Simplified_contents 4096 s'"
proof -
  have "Spsc_contents MsgHeader_type 16 (wrapping_ring, \<lambda>_. 0) = []"
    by (simp add: Spsc_contents_def idx_contents_def)
  then show ?thesis
    using sixteen_headers by (intro Queues_equivalent [where n = 5] wrapping_ring_inv) simp_all
qed

end
